(* ===== verification/Mcon_Prelude.thy ===== *)
theory Mcon_Prelude
  imports "HOL-Library.Word" "HOL-Library.Multiset" "HOL-Library.Monad_Syntax"
begin

text \<open>
  The prelude: names for the C integer types, fact collections, bit-level lemmas on words, and the
  generic lemmas on lists, multisets and options that the components share.

  A value of type \<open>'a option\<close> returned by a modelled C function is \<open>None\<close> exactly when the
  C function has no defined result: it indexes an array out of bounds, an \<open>assert()\<close> fails, or
  a loop does not end.
\<close>

unbundle bit_operations_syntax

named_theorems rt_simps \<open>how a call of the environment changes the recorded kernel state\<close>
named_theorems bit_facts \<open>single-bit readings of the mask tests in the C code\<close>
named_theorems frame \<open>which fields of the instance an operation leaves alone\<close>

subsection \<open>C integer types\<close>

text \<open>
  \<open>uint8_t\<close>, \<open>uint16_t\<close>, \<open>uint32_t\<close> / \<open>unsigned int\<close> and \<open>uint64_t\<close> are words of their width. The C
  type \<open>int\<close> is used by the code for file descriptors, return codes and \<open>errno\<close> values, which are
  compared and passed on but never computed with; it is modelled by HOL's \<open>int\<close>.
\<close>

type_synonym u8 = "8 word"
type_synonym u16 = "16 word"
type_synonym u32 = "32 word"
type_synonym u64 = "64 word"

text \<open>\<open>typedef uint32_t mcon_session_idx\<close> and \<open>typedef uint16_t mcon_uring_queue_size_t\<close>.\<close>

type_synonym mcon_session_idx = u32
type_synonym mcon_uring_queue_size_t = u16

subsection \<open>Bits\<close>

lemma word_and_nonzero_iff:
  "x AND m \<noteq> 0 \<longleftrightarrow> (\<exists>i < LENGTH('a). bit x i \<and> bit m i)" for x m :: "'a::len word"
  by (auto simp: bit_eq_iff bit_simps)

lemma bit_u8_powers:
  "bit (1 :: u8) i \<longleftrightarrow> i = 0"
  "bit (2 :: u8) i \<longleftrightarrow> i = 1"
  "bit (4 :: u8) i \<longleftrightarrow> i = 2"
  "bit (8 :: u8) i \<longleftrightarrow> i = 3"
  using bit_exp_iff [where 'a = u8, of 1 i] bit_exp_iff [where 'a = u8, of 2 i]
    bit_exp_iff [where 'a = u8, of 3 i]
  by (auto simp: bit_1_iff)

lemma u8_mask_unions:
  "(9 :: u8) = 1 OR 8" "(10 :: u8) = 2 OR 8" "(11 :: u8) = 1 OR 2 OR 8"
  by simp_all

lemma u8_mask_tests [bit_facts]:
  "x AND 9 = 0 \<longleftrightarrow> \<not> bit x 0 \<and> \<not> bit x 3"
  "x AND 10 = 0 \<longleftrightarrow> \<not> bit x 1 \<and> \<not> bit x 3"
  "x AND 11 = 0 \<longleftrightarrow> \<not> bit x 0 \<and> \<not> bit x 1 \<and> \<not> bit x 3"
  "x AND 4 = 0 \<longleftrightarrow> \<not> bit x 2" for x :: u8
  unfolding u8_mask_unions
  by (auto simp only: bit_eq_iff [where 'a = u8] bit_and_iff bit_or_iff bit_u8_powers bit_0_eq
      possible_bit_word bot_apply bot_bool_def dest: bit_imp_le_length)

lemma bit_u8_masked [bit_facts]:
  "bit (x OR 1) i \<longleftrightarrow> bit x i \<or> i = 0"
  "bit (x OR 2) i \<longleftrightarrow> bit x i \<or> i = 1"
  "bit (x OR 4) i \<longleftrightarrow> bit x i \<or> i = 2"
  "bit (x OR 8) i \<longleftrightarrow> bit x i \<or> i = 3"
  "bit (x AND NOT 1) i \<longleftrightarrow> bit x i \<and> i \<noteq> 0"
  "bit (x AND NOT 2) i \<longleftrightarrow> bit x i \<and> i \<noteq> 1"
  "bit (x AND NOT 8) i \<longleftrightarrow> bit x i \<and> i \<noteq> 3" for x :: u8
  by (auto simp only: bit_and_iff bit_or_iff bit_not_iff bit_u8_powers possible_bit_word
      dest: bit_imp_le_length)

text \<open>The simplifier evaluates the complement of a numeral mask; the same facts in that form.\<close>

lemma bit_u8_cleared [bit_facts]:
  "bit (x AND - 2) i \<longleftrightarrow> bit x i \<and> i \<noteq> 0"
  "bit (x AND - 3) i \<longleftrightarrow> bit x i \<and> i \<noteq> 1"
  "bit (x AND - 9) i \<longleftrightarrow> bit x i \<and> i \<noteq> 3" for x :: u8
  using bit_u8_masked(5-7) [of x i] by simp_all

subsection \<open>Unsigned arithmetic\<close>

lemma unat_eq_iff: "unat x = unat y \<longleftrightarrow> x = y" for x y :: "'a::len word"
  by (rule word_unat_eq_iff [symmetric])

lemma unat_diff_one: "x \<noteq> 0 \<Longrightarrow> unat (x - 1) = unat x - 1" for x :: "'a::len word"
  by (simp add: unat_minus_one)

lemma unat_plus_one: "x < y \<Longrightarrow> unat (x + 1) = Suc (unat x)" for x y :: "'a::len word"
proof -
  assume "x < y"
  then have "x + 1 \<le> y" and "x \<noteq> - 1"
    using inc_le [of x y] word_order.extremum_strict by (auto simp: not_less)
  then show ?thesis
    by (metis add.commute add_eq_0_iff unatSuc)
qed

lemma unat_pos_iff: "0 < unat x \<longleftrightarrow> x \<noteq> 0" for x :: "'a::len word"
  by (auto simp: unat_gt_0)

lemma unat_u16_bound: "unat x < 65536" for x :: u16
  using unsigned_less [of x, where 'a = nat] by simp

lemma unat_u32_bound: "unat x < 4294967296" for x :: u32
  using unsigned_less [of x, where 'a = nat] by simp

lemma unat_ucast_16_32 [simp]: "unat (ucast x :: u32) = unat x" for x :: u16
  using unat_u16_bound [of x] by (simp add: unsigned_ucast_eq take_bit_nat_eq_self)

lemma ucast_less_iff_16_32 [simp]: "(ucast x :: u32) < ucast y \<longleftrightarrow> x < y" for x y :: u16
  by (simp add: word_less_nat_alt)

subsection \<open>Arrays\<close>

text \<open>Reading and writing a C array: out of bounds is undefined, here \<open>None\<close>.\<close>

definition arr_get :: "'a list \<Rightarrow> nat \<Rightarrow> 'a option" where
  "arr_get xs i = (if i < length xs then Some (xs ! i) else None)"

definition arr_put :: "'a list \<Rightarrow> nat \<Rightarrow> 'a \<Rightarrow> 'a list option" where
  "arr_put xs i x = (if i < length xs then Some (xs[i := x]) else None)"

lemma arr_get_in [simp]: "i < length xs \<Longrightarrow> arr_get xs i = Some (xs ! i)"
  by (simp add: arr_get_def)

lemma arr_put_in [simp]: "i < length xs \<Longrightarrow> arr_put xs i x = Some (xs[i := x])"
  by (simp add: arr_put_def)

lemma arr_get_eq_Some: "arr_get xs i = Some x \<longleftrightarrow> i < length xs \<and> x = xs ! i"
  by (auto simp: arr_get_def)

lemma arr_put_eq_Some: "arr_put xs i x = Some ys \<longleftrightarrow> i < length xs \<and> ys = xs[i := x]"
  by (auto simp: arr_put_def)

subsection \<open>Lists and multisets\<close>

lemma sum_mset_fun_upd:
  "p < n \<Longrightarrow> (\<Sum>i<n. mset ((f(p := f p @ [x])) i)) = add_mset x (\<Sum>i<n. mset (f i))"
  for n p :: nat
proof (induction n)
  case (Suc n)
  show ?case
  proof (cases "p = n")
    case True
    have "(\<Sum>i<n. mset ((f(p := f p @ [x])) i)) = (\<Sum>i<n. mset (f i))"
      by (rule sum.cong) (use True in auto)
    with True show ?thesis by simp
  next
    case False
    with Suc show ?thesis by simp
  qed
qed simp

lemma mset_concat_map_upt: "mset (concat (map f [0..<n])) = (\<Sum>i<n. mset (f i))"
  by (induction n) auto

lemma count_zero_not_in: "x \<notin># M \<Longrightarrow> count M x = 0"
  by (simp add: not_in_iff)

end
