(* ===== verification/C_Runtime.thy ===== *)
theory C_Runtime
  imports Mcon_Prelude
begin

text \<open>
  The environment of the C code: system calls, allocation, and the life-cycle calls of the two
  libraries the code links to. A call is recorded, with its answer, in the trace of the kernel
  state; the answer comes from an oracle that may depend on everything that happened before. Nothing
  is assumed of the oracle, so a property proved here holds for every behaviour of the kernel unless
  the property names a restriction.
\<close>

subsection \<open>errno values and epoll flags (Linux, x86-64)\<close>

definition ENOENT :: int where [simp]: "ENOENT = 2"
definition EBADF :: int where [simp]: "EBADF = 9"
definition EAGAIN :: int where [simp]: "EAGAIN = 11"
definition ENOMEM :: int where [simp]: "ENOMEM = 12"
definition EBUSY :: int where [simp]: "EBUSY = 16"
definition EINVAL :: int where [simp]: "EINVAL = 22"
definition ENOTSOCK :: int where [simp]: "ENOTSOCK = 88"
definition ENOBUFS :: int where [simp]: "ENOBUFS = 105"

definition EPOLLIN :: u32 where "EPOLLIN = 0x1"
definition EPOLLERR :: u32 where "EPOLLERR = 0x8"
definition EPOLLHUP :: u32 where "EPOLLHUP = 0x10"
definition EPOLLRDHUP :: u32 where "EPOLLRDHUP = 0x2000"
definition EPOLLET :: u32 where "EPOLLET = 0x80000000"

text \<open>\<open>struct epoll_event\<close>: the flags and the 64-bit user datum.\<close>

record epoll_event =
  ep_events :: u32
  ep_data :: u64

subsection \<open>Calls and answers\<close>

text \<open>Socket types (\<open>SOCK_NONBLOCK\<close> is a flag).\<close>

definition SOCK_STREAM :: int where [simp]: "SOCK_STREAM = 1"
definition SOCK_NONBLOCK :: int where [simp]: "SOCK_NONBLOCK = 0x800"

datatype epoll_op = EPOLL_CTL_ADD | EPOLL_CTL_DEL

datatype sock_option = SO_ACCEPTCONN | SO_TYPE | SO_ERROR | SO_REUSEPORT | IPV6_V6ONLY

datatype ecall =
    Epoll_ctl int epoll_op int "epoll_event option"
  | Close int
  | Getsockopt int sock_option
  | Setsockopt int sock_option int
  | Fcntl_getfl int
  | Socket int int
  | Bind int "u8 list"
  | Listen int
  | Accept int
  | Connect int "u8 list"
  | Shutdown_wr int
  | Epoll_create
  | Realloc nat
  | Eventfd
  | Read_fd int
  | Write_fd int u64
  | Malloc_sessions nat
  | Malloc_mcon
  | Free_sessions
  | Uring_queue_init u32
  | Uring_queue_exit
  | Uring_register_eventfd int
  | Uring_unregister_eventfd
  | Kqueue_create u32 u32
  | Kqueue_destroy
  | Idx_stack_create u32
  | Idx_stack_destroy

text \<open>
  An answer: the return value, the \<open>errno\<close> that goes with a failure, and the value stored through
  the call's output pointer where it has one.
\<close>

record reply =
  rv :: int
  rerr :: int
  rout :: int

record kernel =
  answers :: "(ecall \<times> reply) list \<Rightarrow> ecall \<Rightarrow> reply"
  trace :: "(ecall \<times> reply) list"
  errno :: int

text \<open>
  A call that reports through its return value only (allocation, the liburing and ctools life-cycle
  functions), and a system call, which also sets \<open>errno\<close> when it returns a negative value.
\<close>

definition libcall :: "ecall \<Rightarrow> kernel \<Rightarrow> reply \<times> kernel" where
  "libcall c k = (let r = answers k (trace k) c in (r, k\<lparr>trace := trace k @ [(c, r)]\<rparr>))"

definition syscall :: "ecall \<Rightarrow> kernel \<Rightarrow> reply \<times> kernel" where
  "syscall c k =
     (let r = answers k (trace k) c
      in (r, k\<lparr>trace := trace k @ [(c, r)],
               errno := (if rv r < 0 then rerr r else errno k)\<rparr>))"

definition answer :: "kernel \<Rightarrow> ecall \<Rightarrow> reply" where
  "answer k c = answers k (trace k) c"

definition set_errno :: "int \<Rightarrow> kernel \<Rightarrow> kernel" where
  "set_errno e k = k\<lparr>errno := e\<rparr>"

lemma libcall_eq [rt_simps]:
  "libcall c k = (answer k c, k\<lparr>trace := trace k @ [(c, answer k c)]\<rparr>)"
  by (simp add: libcall_def answer_def Let_def)

lemma syscall_eq [rt_simps]:
  "syscall c k = (answer k c, k\<lparr>trace := trace k @ [(c, answer k c)],
      errno := (if rv (answer k c) < 0 then rerr (answer k c) else errno k)\<rparr>)"
  by (simp add: syscall_def answer_def Let_def)

lemma set_errno_sel [simp]:
  "answers (set_errno e k) = answers k" "trace (set_errno e k) = trace k"
  "errno (set_errno e k) = e"
  by (simp_all add: set_errno_def)

lemma answer_errno_irrelevant [simp]:
  "answer (k\<lparr>errno := e\<rparr>) c = answer k c" "answer (set_errno e k) c = answer k c"
  by (simp_all add: answer_def)

text \<open>
  A restriction some properties name: \<open>getsockopt\<close> returns zero or a negative value, as its manual page
  says. The library returns the value to its client, for whom a positive one is a number of events.
\<close>

definition getsockopt_documented :: "kernel \<Rightarrow> bool" where
  "getsockopt_documented k \<longleftrightarrow> (\<forall>t fd. rv (answers k t (Getsockopt fd SO_ERROR)) \<le> 0)"

lemma getsockopt_documented_answer:
  "getsockopt_documented k \<Longrightarrow> rv (answer k (Getsockopt fd SO_ERROR)) \<le> 0"
  by (simp add: getsockopt_documented_def answer_def)

lemma getsockopt_documented_cong:
  "answers k' = answers k \<Longrightarrow> getsockopt_documented k' = getsockopt_documented k"
  by (simp add: getsockopt_documented_def)

subsection \<open>The C23 population count\<close>

text \<open>\<open>stdc_count_ones\<close> of \<open>stdbit.h\<close> on a 32-bit value.\<close>

definition stdc_count_ones :: "u32 \<Rightarrow> u32" where
  "stdc_count_ones w = of_nat (length (filter (bit w) [0..<32]))"

lemma unat_stdc_count_ones: "unat (stdc_count_ones w) = length (filter (bit w) [0..<32])"
proof -
  have "length (filter (bit w) [0..<32]) \<le> 32"
    by (rule order_trans [OF length_filter_le]) simp
  then show ?thesis
    by (simp add: stdc_count_ones_def unat_of_nat take_bit_nat_eq_self)
qed

end
