(* ===== verification/Entries.thy ===== *)
theory Entries
  imports C_Runtime
begin

text \<open>
  The two 64-bit data words the program attaches to kernel objects: the epoll datum of
  \<open>src/mcon/epoll_entry.h\<close>, a packed bit field, and the io_uring user datum of
  \<open>src/mcon/io_uring_entry.h\<close>, a union of two 32-bit members. Both are codecs; what a codec
  promises is the locale \<open>codec\<close>, interpreted on each.
\<close>

subsection \<open>What a codec promises\<close>

locale codec =
  fixes enc :: "'a \<Rightarrow> 'w" and dec :: "'w \<Rightarrow> 'a" and valid :: "'a \<Rightarrow> bool"
  assumes dec_enc: "valid x \<Longrightarrow> dec (enc x) = x"
    and enc_dec: "enc (dec w) = w"
begin

lemma enc_eq_iff: "valid x \<Longrightarrow> valid y \<Longrightarrow> enc x = enc y \<longleftrightarrow> x = y"
  by (metis dec_enc)

lemma dec_eq_iff: "dec v = dec w \<longleftrightarrow> v = w"
  by (metis enc_dec)

lemma dec_eq_valid_iff: "valid x \<Longrightarrow> dec w = x \<longleftrightarrow> w = enc x"
  by (metis dec_enc enc_dec)

end

subsection \<open>The epoll datum\<close>

text \<open>
  \<open>enum mcon_epoll_source\<close> is an unsigned 32-bit value in C, which may hold a value that is no
  enumerator; \<open>Source_other\<close> stands for those.
\<close>

datatype mcon_epoll_source =
    MCON_EPOLL_SOURCE_UNKNOWN
  | MCON_EPOLL_SOURCE_SERVER_SOCKET
  | MCON_EPOLL_SOURCE_IO_URING
  | MCON_EPOLL_SOURCE_SESSION
  | Source_other u32

fun source_code :: "mcon_epoll_source \<Rightarrow> u32" where
  "source_code MCON_EPOLL_SOURCE_UNKNOWN = 0"
| "source_code MCON_EPOLL_SOURCE_SERVER_SOCKET = 1"
| "source_code MCON_EPOLL_SOURCE_IO_URING = 2"
| "source_code MCON_EPOLL_SOURCE_SESSION = 3"
| "source_code (Source_other w) = w"

definition source_of_code :: "u32 \<Rightarrow> mcon_epoll_source" where
  "source_of_code w =
     (if w = 0 then MCON_EPOLL_SOURCE_UNKNOWN
      else if w = 1 then MCON_EPOLL_SOURCE_SERVER_SOCKET
      else if w = 2 then MCON_EPOLL_SOURCE_IO_URING
      else if w = 3 then MCON_EPOLL_SOURCE_SESSION
      else Source_other w)"

definition mcon_is_valid_source :: "mcon_epoll_source \<Rightarrow> bool" where
  "mcon_is_valid_source s \<longleftrightarrow>
     source_code s \<ge> 0 \<and> source_code s \<le> source_code MCON_EPOLL_SOURCE_SESSION"

record mcon_epoll_entry =
  ee_instance_id :: u16
  ee_generation :: u8
  ee_source :: mcon_epoll_source
  ee_session :: mcon_session_idx
  ee_reserved :: u16

definition MCON_EPOLL_ENTRY_INSTANCE_SHIFT :: nat where
  [simp]: "MCON_EPOLL_ENTRY_INSTANCE_SHIFT = 64 - 16"
definition MCON_EPOLL_ENTRY_GENERATION_SHIFT :: nat where
  [simp]: "MCON_EPOLL_ENTRY_GENERATION_SHIFT = MCON_EPOLL_ENTRY_INSTANCE_SHIFT - 8"
definition MCON_EPOLL_ENTRY_SOURCE_SHIFT :: nat where
  [simp]: "MCON_EPOLL_ENTRY_SOURCE_SHIFT = MCON_EPOLL_ENTRY_GENERATION_SHIFT - 4"
definition MCON_EPOLL_ENTRY_SESSION_SHIFT :: nat where
  [simp]: "MCON_EPOLL_ENTRY_SESSION_SHIFT = MCON_EPOLL_ENTRY_SOURCE_SHIFT - 20"
definition MCON_EPOLL_ENTRY_RESERVED_SHIFT :: nat where
  [simp]: "MCON_EPOLL_ENTRY_RESERVED_SHIFT = MCON_EPOLL_ENTRY_SESSION_SHIFT - 16"

text \<open>The masks \<open>(1 << SIZE) - 1\<close>.\<close>

definition MCON_EPOLL_ENTRY_INSTANCE_MASK :: u64 where
  "MCON_EPOLL_ENTRY_INSTANCE_MASK = push_bit 16 1 - 1"
definition MCON_EPOLL_ENTRY_GENERATION_MASK :: u64 where
  "MCON_EPOLL_ENTRY_GENERATION_MASK = push_bit 8 1 - 1"
definition MCON_EPOLL_ENTRY_SOURCE_MASK :: u64 where
  "MCON_EPOLL_ENTRY_SOURCE_MASK = push_bit 4 1 - 1"
definition MCON_EPOLL_ENTRY_SESSION_MASK :: u64 where
  "MCON_EPOLL_ENTRY_SESSION_MASK = push_bit 20 1 - 1"
definition MCON_EPOLL_ENTRY_RESERVED_MASK :: u64 where
  "MCON_EPOLL_ENTRY_RESERVED_MASK = push_bit 16 1 - 1"

lemmas epoll_masks = MCON_EPOLL_ENTRY_INSTANCE_MASK_def MCON_EPOLL_ENTRY_GENERATION_MASK_def
  MCON_EPOLL_ENTRY_SOURCE_MASK_def MCON_EPOLL_ENTRY_SESSION_MASK_def
  MCON_EPOLL_ENTRY_RESERVED_MASK_def

definition mcon_encode_epoll_entry :: "mcon_epoll_entry \<Rightarrow> u64" where
  "mcon_encode_epoll_entry entry =
     push_bit MCON_EPOLL_ENTRY_INSTANCE_SHIFT (ucast (ee_instance_id entry)) OR
     push_bit MCON_EPOLL_ENTRY_GENERATION_SHIFT (ucast (ee_generation entry)) OR
     push_bit MCON_EPOLL_ENTRY_SOURCE_SHIFT (ucast (source_code (ee_source entry))) OR
     push_bit MCON_EPOLL_ENTRY_SESSION_SHIFT (ucast (ee_session entry)) OR
     push_bit MCON_EPOLL_ENTRY_RESERVED_SHIFT (ucast (ee_reserved entry))"

definition mcon_decode_epoll_entry :: "u64 \<Rightarrow> mcon_epoll_entry" where
  "mcon_decode_epoll_entry data = \<lparr>
     ee_instance_id = ucast (drop_bit MCON_EPOLL_ENTRY_INSTANCE_SHIFT data
       AND MCON_EPOLL_ENTRY_INSTANCE_MASK),
     ee_generation = ucast (drop_bit MCON_EPOLL_ENTRY_GENERATION_SHIFT data
       AND MCON_EPOLL_ENTRY_GENERATION_MASK),
     ee_source = source_of_code (ucast (drop_bit MCON_EPOLL_ENTRY_SOURCE_SHIFT data
       AND MCON_EPOLL_ENTRY_SOURCE_MASK)),
     ee_session = ucast (drop_bit MCON_EPOLL_ENTRY_SESSION_SHIFT data
       AND MCON_EPOLL_ENTRY_SESSION_MASK),
     ee_reserved = ucast (drop_bit MCON_EPOLL_ENTRY_RESERVED_SHIFT data
       AND MCON_EPOLL_ENTRY_RESERVED_MASK)\<rparr>"

text \<open>The entries whose fields fit the bits reserved for them.\<close>

definition epoll_entry_fits :: "mcon_epoll_entry \<Rightarrow> bool" where
  "epoll_entry_fits e \<longleftrightarrow> source_of_code (source_code (ee_source e)) = ee_source e \<and>
     source_code (ee_source e) < 16 \<and> ee_session e < 1048576"

subsection \<open>The io_uring user datum\<close>

datatype mcon_io_uring_operation =
    MCON_IO_UNKNOWN
  | MCON_IO_SESSION_ACCEPT
  | MCON_IO_SESSION_READ
  | MCON_IO_SESSION_WRITE
  | MCON_IO_SESSION_DRAIN
  | MCON_IO_SESSION_CLOSE
  | Operation_other u32

fun operation_code :: "mcon_io_uring_operation \<Rightarrow> u32" where
  "operation_code MCON_IO_UNKNOWN = 0"
| "operation_code MCON_IO_SESSION_ACCEPT = 1"
| "operation_code MCON_IO_SESSION_READ = 2"
| "operation_code MCON_IO_SESSION_WRITE = 3"
| "operation_code MCON_IO_SESSION_DRAIN = 4"
| "operation_code MCON_IO_SESSION_CLOSE = 5"
| "operation_code (Operation_other w) = w"

definition operation_of_code :: "u32 \<Rightarrow> mcon_io_uring_operation" where
  "operation_of_code w =
     (if w = 0 then MCON_IO_UNKNOWN
      else if w = 1 then MCON_IO_SESSION_ACCEPT
      else if w = 2 then MCON_IO_SESSION_READ
      else if w = 3 then MCON_IO_SESSION_WRITE
      else if w = 4 then MCON_IO_SESSION_DRAIN
      else if w = 5 then MCON_IO_SESSION_CLOSE
      else Operation_other w)"

record mcon_io_uring_entry =
  io_operation :: mcon_io_uring_operation
  io_session :: mcon_session_idx

text \<open>
  \<open>union mcon_io_uring_data\<close> on a little-endian machine: \<open>operation\<close>, the first member of the
  struct, is the low half of the 64-bit value.
\<close>

definition io_uring_data_of_entry :: "mcon_io_uring_entry \<Rightarrow> u64" where
  "io_uring_data_of_entry e =
     push_bit 32 (ucast (io_session e)) OR ucast (operation_code (io_operation e))"

definition io_uring_entry_of_data :: "u64 \<Rightarrow> mcon_io_uring_entry" where
  "io_uring_entry_of_data d =
     \<lparr>io_operation = operation_of_code (ucast d), io_session = ucast (drop_bit 32 d)\<rparr>"

definition io_entry_proper :: "mcon_io_uring_entry \<Rightarrow> bool" where
  "io_entry_proper e \<longleftrightarrow> operation_of_code (operation_code (io_operation e)) = io_operation e"

subsection \<open>Both are codecs\<close>

lemma source_of_code_inverse [simp]: "source_code (source_of_code w) = w"
  by (simp add: source_of_code_def)

lemma operation_of_code_inverse [simp]: "operation_code (operation_of_code w) = w"
  by (simp add: operation_of_code_def)

lemma bit_below_bound: "unat x < 2 ^ n \<Longrightarrow> bit x i \<Longrightarrow> i < n" for x :: "'a::len word"
proof -
  assume "unat x < 2 ^ n"
  then have "take_bit n x = x"
    by (metis take_bit_nat_eq_self unsigned_take_bit_eq unsigned_word_eqI word_eq_iff_unsigned)
  moreover assume "bit x i"
  ultimately show "i < n"
    by (metis bit_take_bit_iff)
qed

lemma epoll_masks_as_mask:
  "MCON_EPOLL_ENTRY_INSTANCE_MASK = mask 16" "MCON_EPOLL_ENTRY_GENERATION_MASK = mask 8"
  "MCON_EPOLL_ENTRY_SOURCE_MASK = mask 4" "MCON_EPOLL_ENTRY_SESSION_MASK = mask 20"
  "MCON_EPOLL_ENTRY_RESERVED_MASK = mask 16"
  by (simp_all add: epoll_masks mask_eq_exp_minus_1)

lemma low_bits_of_fit:
  "epoll_entry_fits e \<Longrightarrow> bit (ee_session e) i \<Longrightarrow> i < 20"
  "epoll_entry_fits e \<Longrightarrow> bit (source_code (ee_source e)) i \<Longrightarrow> i < 4"
  by (auto simp: epoll_entry_fits_def word_less_nat_alt intro: bit_below_bound)

lemma high_bits_of_fit:
  assumes "epoll_entry_fits e"
  shows "20 \<le> i \<Longrightarrow> \<not> bit (ee_session e) i"
    "4 \<le> i \<Longrightarrow> \<not> bit (source_code (ee_source e)) i"
    "16 \<le> i \<Longrightarrow> \<not> bit (ee_instance_id e) i"
    "16 \<le> i \<Longrightarrow> \<not> bit (ee_reserved e) i"
    "8 \<le> i \<Longrightarrow> \<not> bit (ee_generation e) i"
  using low_bits_of_fit [OF assms] by (auto dest: bit_imp_le_length simp: not_less [symmetric])

lemma decode_encode_fields:
  assumes "epoll_entry_fits e"
  defines "d \<equiv> mcon_encode_epoll_entry e"
  shows "ee_instance_id (mcon_decode_epoll_entry d) = ee_instance_id e"
    "ee_generation (mcon_decode_epoll_entry d) = ee_generation e"
    "source_code (ee_source (mcon_decode_epoll_entry d)) = source_code (ee_source e)"
    "ee_session (mcon_decode_epoll_entry d) = ee_session e"
    "ee_reserved (mcon_decode_epoll_entry d) = ee_reserved e"
  unfolding mcon_decode_epoll_entry_def mcon_encode_epoll_entry_def d_def epoll_masks_as_mask
  by (auto simp: bit_eq_iff bit_simps high_bits_of_fit [OF assms(1)] not_le
      dest: low_bits_of_fit [OF assms(1)])

lemma decoded_bits:
  "bit (ucast (ee_instance_id (mcon_decode_epoll_entry d)) :: u64) i \<longleftrightarrow> i < 16 \<and> bit d (48 + i)"
  "bit (ucast (ee_generation (mcon_decode_epoll_entry d)) :: u64) i \<longleftrightarrow> i < 8 \<and> bit d (40 + i)"
  "bit (ucast (source_code (ee_source (mcon_decode_epoll_entry d))) :: u64) i \<longleftrightarrow>
     i < 4 \<and> bit d (36 + i)"
  "bit (ucast (ee_session (mcon_decode_epoll_entry d)) :: u64) i \<longleftrightarrow> i < 20 \<and> bit d (16 + i)"
  "bit (ucast (ee_reserved (mcon_decode_epoll_entry d)) :: u64) i \<longleftrightarrow> i < 16 \<and> bit d i"
  unfolding mcon_decode_epoll_entry_def epoll_masks_as_mask
  by (auto simp: bit_simps)

lemma encode_decode_epoll: "mcon_encode_epoll_entry (mcon_decode_epoll_entry d) = d"
proof (rule bit_word_eqI)
  fix n assume "n < LENGTH(64)"
  then consider "n < 16" | "16 \<le> n" "n < 36" | "36 \<le> n" "n < 40" | "40 \<le> n" "n < 48" | "48 \<le> n" "n < 64"
    by fastforce
  then show "bit (mcon_encode_epoll_entry (mcon_decode_epoll_entry d)) n = bit d n"
    unfolding mcon_encode_epoll_entry_def
    by cases (auto simp: bit_or_iff bit_push_bit_iff decoded_bits)
qed

lemma encode_decode_io: "io_uring_data_of_entry (io_uring_entry_of_data d) = d"
proof (rule bit_word_eqI)
  fix n assume "n < LENGTH(64)"
  then show "bit (io_uring_data_of_entry (io_uring_entry_of_data d)) n = bit d n"
    unfolding io_uring_data_of_entry_def io_uring_entry_of_data_def
    by (cases "n < 32") (auto simp: bit_simps)
qed

lemma io_data_halves:
   "ucast (io_uring_data_of_entry e) = operation_code (io_operation e)"
   "ucast (drop_bit 32 (io_uring_data_of_entry e)) = io_session e"
    unfolding io_uring_data_of_entry_def 
    by (auto simp: bit_eq_iff bit_simps dest: bit_imp_le_length)
lemma decode_encode_io: "io_entry_proper e \<Longrightarrow> io_uring_entry_of_data (io_uring_data_of_entry e) = e"
  by (simp add: io_uring_entry_of_data_def io_entry_proper_def io_data_halves)
lemma decode_encode_epoll:
  assumes "epoll_entry_fits e"
  shows "mcon_decode_epoll_entry (mcon_encode_epoll_entry e) = e"
proof (rule mcon_epoll_entry.equality)
  let ?e = "mcon_decode_epoll_entry (mcon_encode_epoll_entry e)"
  have "ee_source ?e = source_of_code (source_code (ee_source ?e))"
    by (simp add: mcon_decode_epoll_entry_def)
  then show "ee_source ?e = ee_source e"
    using assms by (simp add: decode_encode_fields epoll_entry_fits_def)
qed (simp_all add: decode_encode_fields [OF assms])

interpretation epoll_codec:
  codec mcon_encode_epoll_entry mcon_decode_epoll_entry epoll_entry_fits
  by unfold_locales (auto simp: decode_encode_epoll encode_decode_epoll)

interpretation io_codec:
  codec io_uring_data_of_entry io_uring_entry_of_data io_entry_proper
  by unfold_locales (auto simp: decode_encode_io encode_decode_io)

subsection \<open>Properties\<close>

text \<open>C40. An epoll entry whose session index fits 20 bits and whose source fits 4 bits is read back
  by \<open>mcon_decode_epoll_entry\<close> exactly as \<open>mcon_encode_epoll_entry\<close> packed it.\<close>

theorem epoll_entry_roundtrip:
  "epoll_entry_fits e \<Longrightarrow> mcon_decode_epoll_entry (mcon_encode_epoll_entry e) = e"
  by (rule epoll_codec.dec_enc)

definition sample_epoll_entry :: mcon_epoll_entry where
  "sample_epoll_entry = \<lparr>ee_instance_id = 0xBEEF, ee_generation = 0xFF,
     ee_source = MCON_EPOLL_SOURCE_SESSION, ee_session = 0xFFFFE, ee_reserved = 0\<rparr>"

lemma sample_epoll_entry_fits: "epoll_entry_fits sample_epoll_entry"
  by (simp add: epoll_entry_fits_def sample_epoll_entry_def source_of_code_def)

theorem epoll_entry_roundtrip_witness:
  "mcon_decode_epoll_entry (mcon_encode_epoll_entry sample_epoll_entry) = sample_epoll_entry"
  by (rule epoll_entry_roundtrip [OF sample_epoll_entry_fits])

text \<open>Every 64-bit epoll datum decodes to an entry that encodes back to the same datum, so no two
  data decode to the same entry.\<close>

theorem epoll_data_lossless:
  "mcon_encode_epoll_entry (mcon_decode_epoll_entry d) = d \<and>
   (mcon_decode_epoll_entry d = mcon_decode_epoll_entry d') = (d = d')"
  by (simp add: epoll_codec.enc_dec epoll_codec.dec_eq_iff)

text \<open>The io_uring user datum round-trips in both directions: a completion's datum gives back the
  operation and session the request was queued with, and every datum is the encoding of the entry
  it decodes to.\<close>

theorem io_uring_data_roundtrip:
  "io_entry_proper e \<Longrightarrow> io_uring_entry_of_data (io_uring_data_of_entry e) = e \<and>
     io_uring_data_of_entry (io_uring_entry_of_data d) = d"
  by (simp add: io_codec.dec_enc io_codec.enc_dec)

theorem io_uring_data_roundtrip_witness:
  "io_uring_entry_of_data (io_uring_data_of_entry
     \<lparr>io_operation = MCON_IO_SESSION_CLOSE, io_session = 0xFFFFE\<rparr>) =
   \<lparr>io_operation = MCON_IO_SESSION_CLOSE, io_session = 0xFFFFE\<rparr>"
  by (rule io_uring_data_roundtrip [THEN conjunct1])
    (simp add: io_entry_proper_def operation_of_code_def)

end
