(* ===== verification/Config_Limits.thy ===== *)
theory Config_Limits
  imports Entries
begin

text \<open>
  Configuration and limits: \<open>include/mcon/types.h\<close>, \<open>include/mcon/constants.h\<close>,
  \<open>src/mcon/config.c\<close> and \<open>src/mcon/limits.c\<close>.
\<close>

record mcon_config =
  cfg_session_count :: mcon_session_idx
  cfg_io_queue_size :: u32
  cfg_io_uring_queue_size :: mcon_uring_queue_size_t
  cfg_edge_triggered_client_events :: bool
  cfg_max_live_accept_sqes :: u32

definition MCON_NO_SESSION :: mcon_session_idx where
  "MCON_NO_SESSION = push_bit 20 1 - 1"

definition mcon_max_session_count :: mcon_session_idx where
  "mcon_max_session_count = push_bit 20 1 - 1"

definition mcon_max_iteration_size :: mcon_uring_queue_size_t where
  "mcon_max_iteration_size = push_bit 15 1"

definition mcon_config_default :: mcon_config where
  "mcon_config_default = \<lparr>
     cfg_session_count = 128,
     cfg_io_queue_size = 512,
     cfg_io_uring_queue_size = 256,
     cfg_edge_triggered_client_events = False,
     cfg_max_live_accept_sqes = 8\<rparr>"

definition mcon_config_validate :: "mcon_config \<Rightarrow> bool" where
  "mcon_config_validate config \<longleftrightarrow>
     cfg_io_uring_queue_size config > 0 \<and> cfg_session_count config > 0 \<and>
     cfg_io_queue_size config > 0 \<and> cfg_max_live_accept_sqes config > 0 \<and>
     cfg_session_count config \<le> mcon_max_session_count \<and>
     cfg_max_live_accept_sqes config \<le> ucast (cfg_io_uring_queue_size config)"

lemma MCON_NO_SESSION_eq [simp]: "MCON_NO_SESSION = 1048575"
  by (simp add: MCON_NO_SESSION_def)

lemma mcon_max_session_count_eq [simp]: "mcon_max_session_count = 1048575"
  by (simp add: mcon_max_session_count_def)

subsection \<open>What validation guarantees\<close>

lemma validated_bounds:
  assumes "mcon_config_validate c"
  shows "0 < unat (cfg_session_count c)" "unat (cfg_session_count c) \<le> 1048575"
    "0 < unat (cfg_io_uring_queue_size c)" "unat (cfg_max_live_accept_sqes c) < 65536"
    "unat (cfg_max_live_accept_sqes c) \<le> unat (cfg_io_uring_queue_size c)"
  using assms unat_u16_bound [of "cfg_io_uring_queue_size c"]
  by (auto simp: mcon_config_validate_def word_le_nat_alt word_less_nat_alt)

lemma session_index_fits:
  assumes "mcon_config_validate c" "s < cfg_session_count c"
  shows "s < 1048575"
  using assms by (auto simp: mcon_config_validate_def)

text \<open>The library's own default configuration passes validation.\<close>

theorem default_config_valid: "mcon_config_validate mcon_config_default"
  by (simp add: mcon_config_validate_def mcon_config_default_def)

text \<open>Under a validated configuration every session index is distinguishable from
  \<open>MCON_NO_SESSION\<close> and survives the 20-bit session field of the epoll datum, for every instance id
  and generation.\<close>

theorem validated_indices_encodable:
  assumes "mcon_config_validate c" "s < cfg_session_count c"
  shows "s \<noteq> MCON_NO_SESSION \<and>
    mcon_decode_epoll_entry (mcon_encode_epoll_entry
       \<lparr>ee_instance_id = i, ee_generation = g, ee_source = MCON_EPOLL_SOURCE_SESSION,
        ee_session = s, ee_reserved = 0\<rparr>) =
     \<lparr>ee_instance_id = i, ee_generation = g, ee_source = MCON_EPOLL_SOURCE_SESSION,
      ee_session = s, ee_reserved = 0\<rparr>"
proof -
  have s: "s < 1048575" by (rule session_index_fits [OF assms])
  from s have "s < 1048576" by (simp add: word_less_nat_alt)
  then have "mcon_decode_epoll_entry (mcon_encode_epoll_entry
       \<lparr>ee_instance_id = i, ee_generation = g, ee_source = MCON_EPOLL_SOURCE_SESSION,
        ee_session = s, ee_reserved = 0\<rparr>) =
     \<lparr>ee_instance_id = i, ee_generation = g, ee_source = MCON_EPOLL_SOURCE_SESSION,
      ee_session = s, ee_reserved = 0\<rparr>"
    by (intro epoll_codec.dec_enc) (simp add: epoll_entry_fits_def source_of_code_def)
  with s show ?thesis by auto
qed

theorem validated_indices_encodable_witness: "(127 :: mcon_session_idx) \<noteq> MCON_NO_SESSION"
  by (rule validated_indices_encodable [of mcon_config_default, THEN conjunct1])
    (simp_all add: mcon_config_validate_def mcon_config_default_def)

end
