(* ===== verification/Ext_Libs.thy ===== *)
theory Ext_Libs
  imports C_Runtime
begin

text \<open>
  The two libraries the code links to and does not contain: \<open>ctools\<close> (the stack of
  \<open>index_stack.h\<close> and the k-queue of \<open>io_queue.h\<close>) and \<open>liburing\<close>. Their operations are a parameter
  \<open>libs\<close> of every definition that calls them. What the code relies on is stated by three named
  predicates over ghost views of the library states: \<open>stack_laws\<close>, \<open>kqueue_laws\<close> and
  \<open>uring_laws\<close>. Theory Ref_Libs gives one instance of each and proves that it satisfies the laws, so
  that the hypotheses of the properties can be met.
\<close>

subsection \<open>Submission queue entries\<close>

text \<open>
  \<open>struct io_uring_sqe\<close> as the \<open>io_uring_prep_*\<close> functions leave it: the request with its
  arguments, and the two fields the code itself writes or reads, \<open>ioprio\<close> and \<open>user_data\<close>. A buffer
  is the address the client passed, or the session slot that a drain names as its target.
\<close>

datatype io_buffer = Client_buffer u64 | Session_slot mcon_session_idx

datatype sqe_request =
    Prep_nop
  | Prep_read int io_buffer u32 u64
  | Prep_write int io_buffer u32 u64
  | Prep_recv int io_buffer u32 u32
  | Prep_close int
  | Prep_accept int u32

record io_uring_sqe =
  sqe_request :: sqe_request
  sqe_ioprio :: u16
  sqe_user_data :: u64

definition sqe_initialized :: io_uring_sqe where
  "sqe_initialized = \<lparr>sqe_request = Prep_nop, sqe_ioprio = 0, sqe_user_data = 0\<rparr>"

definition IORING_ACCEPT_DONTWAIT :: u16 where [simp]: "IORING_ACCEPT_DONTWAIT = 2"
definition MSG_TRUNC :: u32 where [simp]: "MSG_TRUNC = 0x20"

subsection \<open>The operations\<close>

record 's stack_ops =
  st_new :: "u32 \<Rightarrow> 's"
  st_push :: "'s \<Rightarrow> u32 \<Rightarrow> int \<times> 's"
  st_pop :: "'s \<Rightarrow> u32 option \<times> 's"
  st_size :: "'s \<Rightarrow> u32"

record 'q kqueue_ops =
  kq_new :: "u32 \<Rightarrow> u32 \<Rightarrow> 'q"
  kq_push :: "'q \<Rightarrow> nat \<Rightarrow> io_uring_sqe \<Rightarrow> int \<times> 'q"
  kq_pop :: "'q \<Rightarrow> nat \<Rightarrow> io_uring_sqe option \<times> 'q"
  kq_size :: "'q \<Rightarrow> u32"

text \<open>
  The ring. \<open>ur_get_sqe\<close> hands out the address of a free slot (\<open>None\<close> for \<open>NULL\<close>) and
  \<open>ur_store_sqe\<close> is the assignment through it. \<open>ur_peek_cqe\<close> returns the return code and the value
  it leaves in the caller's pointer (0 for \<open>NULL\<close>). \<open>ur_cqe_res\<close> and \<open>ur_cqe_data\<close> read the
  fields of a completion through its address in the state of the ring at that moment.
\<close>

record 'r uring_ops =
  ur_new :: "u32 \<Rightarrow> 'r"
  ur_space :: "'r \<Rightarrow> u32"
  ur_get_sqe :: "'r \<Rightarrow> nat option \<times> 'r"
  ur_store_sqe :: "'r \<Rightarrow> nat \<Rightarrow> io_uring_sqe \<Rightarrow> 'r"
  ur_submit :: "'r \<Rightarrow> int \<times> 'r"
  ur_peek_cqe :: "'r \<Rightarrow> int \<times> u64 \<times> 'r"
  ur_cqe_res :: "'r \<Rightarrow> u64 \<Rightarrow> int"
  ur_cqe_data :: "'r \<Rightarrow> u64 \<Rightarrow> u64"
  ur_cqe_seen :: "'r \<Rightarrow> u64 \<Rightarrow> 'r"
  ur_cq_ready :: "'r \<Rightarrow> u32"

record ('s, 'q, 'r) libs =
  stk :: "'s stack_ops"
  kqs :: "'q kqueue_ops"
  urg :: "'r uring_ops"

subsection \<open>Views and laws\<close>

text \<open>
  What the states of the libraries stand for: the entries and the capacity of a stack, the waiting
  entries of each group of a k-queue (first in, first out), the entries written to the submission
  ring and not submitted, and the user data of the submitted requests whose completion has not been
  consumed.
\<close>

record ('s, 'q, 'r) views =
  vw_items :: "'s \<Rightarrow> u32 list"
  vw_cap :: "'s \<Rightarrow> nat"
  vw_group :: "'q \<Rightarrow> nat \<Rightarrow> io_uring_sqe list"
  vw_sq :: "'r \<Rightarrow> io_uring_sqe list"
  vw_live :: "'r \<Rightarrow> u64 multiset"

definition stack_laws :: "'s stack_ops \<Rightarrow> ('s \<Rightarrow> u32 list) \<Rightarrow> ('s \<Rightarrow> nat) \<Rightarrow> bool" where
  "stack_laws S items cap \<longleftrightarrow>
     (\<forall>n. items (st_new S n) = [] \<and> cap (st_new S n) = unat n) \<and>
     (\<forall>s x rc s'. st_push S s x = (rc, s') \<longrightarrow> cap s' = cap s \<and>
        (if length (items s) < cap s then rc = 0 \<and> items s' = x # items s
         else rc \<noteq> 0 \<and> items s' = items s)) \<and>
     (\<forall>s res s'. st_pop S s = (res, s') \<longrightarrow> cap s' = cap s \<and>
        (case items s of [] \<Rightarrow> res = None \<and> items s' = []
         | x # xs \<Rightarrow> res = Some x \<and> items s' = xs)) \<and>
     (\<forall>s. st_size S s = of_nat (length (items s)))"

definition kqueue_laws :: "nat \<Rightarrow> 'q kqueue_ops \<Rightarrow> ('q \<Rightarrow> nat \<Rightarrow> io_uring_sqe list) \<Rightarrow> bool" where
  "kqueue_laws groups K grp \<longleftrightarrow>
     (\<forall>cap g. grp (kq_new K cap g) = (\<lambda>_. [])) \<and>
     (\<forall>q p e rc q'. p < groups \<longrightarrow> kq_push K q p e = (rc, q') \<longrightarrow>
        grp q' = (if rc = 0 then (grp q)(p := grp q p @ [e]) else grp q)) \<and>
     (\<forall>q p res q'. p < groups \<longrightarrow> kq_pop K q p = (res, q') \<longrightarrow>
        (case grp q p of [] \<Rightarrow> res = None \<and> grp q' = grp q
         | e # es \<Rightarrow> res = Some e \<and> grp q' = (grp q)(p := es))) \<and>
     (\<forall>q. kq_size K q = of_nat (\<Sum>p<groups. length (grp q p)))"

definition uring_laws ::
  "'r uring_ops \<Rightarrow> ('r \<Rightarrow> io_uring_sqe list) \<Rightarrow> ('r \<Rightarrow> u64 multiset) \<Rightarrow> bool" where
  "uring_laws U sq live \<longleftrightarrow>
     (\<forall>n. sq (ur_new U n) = [] \<and> live (ur_new U n) = {#}) \<and>
     (\<forall>r p r1. ur_get_sqe U r = (p, r1) \<longrightarrow> 0 < ur_space U r \<longrightarrow>
        p \<noteq> None \<and> (\<forall>e. sq (ur_store_sqe U r1 (the p) e) = sq r @ [e] \<and>
          live (ur_store_sqe U r1 (the p) e) = live r \<and>
          ur_space U (ur_store_sqe U r1 (the p) e) = ur_space U r - 1)) \<and>
     (\<forall>r n r'. ur_submit U r = (n, r') \<longrightarrow>
        (if n < 0 then sq r' = sq r \<and> live r' = live r
         else nat n \<le> length (sq r) \<and> sq r' = drop (nat n) (sq r) \<and>
           live r' = live r + mset (map sqe_user_data (take (nat n) (sq r))))) \<and>
     (\<forall>r rc p r'. ur_peek_cqe U r = (rc, p, r') \<longrightarrow> sq r' = sq r \<and> live r' = live r \<and>
        (if rc = 0 then p \<noteq> 0 \<and> ur_cqe_data U r' p \<in># live r' \<and>
           sq (ur_cqe_seen U r' p) = sq r' \<and>
           live (ur_cqe_seen U r' p) = live r' - {# ur_cqe_data U r' p #} \<and>
           fst (snd (ur_peek_cqe U (ur_cqe_seen U r' p))) \<noteq> p
         else p = 0))"

definition libs_ok ::
  "('s, 'q, 'r) libs \<Rightarrow> ('s, 'q, 'r) views \<Rightarrow> bool" where
  "libs_ok L V \<longleftrightarrow> stack_laws (stk L) (vw_items V) (vw_cap V) \<and>
     kqueue_laws 5 (kqs L) (vw_group V) \<and> uring_laws (urg L) (vw_sq V) (vw_live V)"

subsection \<open>The laws as rules\<close>

lemma libs_stack_new:
  "libs_ok L V \<Longrightarrow> vw_items V (st_new (stk L) n) = []"
  "libs_ok L V \<Longrightarrow> vw_cap V (st_new (stk L) n) = unat n"
  by (auto simp: libs_ok_def stack_laws_def)

lemma libs_push_room:
  assumes "libs_ok L V" "st_push (stk L) s x = (rc, s')" "length (vw_items V s) < vw_cap V s"
  shows "rc = 0 \<and> vw_items V s' = x # vw_items V s \<and> vw_cap V s' = vw_cap V s"
  using assms unfolding libs_ok_def stack_laws_def by metis

lemma libs_push_full:
  assumes "libs_ok L V" "st_push (stk L) s x = (rc, s')" "vw_cap V s \<le> length (vw_items V s)"
  shows "rc \<noteq> 0 \<and> vw_items V s' = vw_items V s \<and> vw_cap V s' = vw_cap V s"
  using assms unfolding libs_ok_def stack_laws_def by (metis linorder_not_less)

lemma libs_pop:
  assumes "libs_ok L V" "st_pop (stk L) s = (res, s')"
  shows "vw_cap V s' = vw_cap V s \<and>
    (case vw_items V s of [] \<Rightarrow> res = None \<and> vw_items V s' = []
     | x # xs \<Rightarrow> res = Some x \<and> vw_items V s' = xs)"
  using assms unfolding libs_ok_def stack_laws_def by blast

lemma libs_size: "libs_ok L V \<Longrightarrow> st_size (stk L) s = of_nat (length (vw_items V s))"
  unfolding libs_ok_def stack_laws_def by metis

lemma libs_kq_new: "libs_ok L V \<Longrightarrow> vw_group V (kq_new (kqs L) n g) = (\<lambda>_. [])"
  unfolding libs_ok_def kqueue_laws_def by metis

lemma libs_kq_push:
  assumes "libs_ok L V" "kq_push (kqs L) q p e = (rc, q')" "p < 5"
  shows "vw_group V q' = (if rc = 0 then (vw_group V q)(p := vw_group V q p @ [e]) else vw_group V q)"
  using assms unfolding libs_ok_def kqueue_laws_def by metis

lemma libs_kq_pop:
  assumes "libs_ok L V" "kq_pop (kqs L) q p = (res, q')" "p < 5"
  shows "case vw_group V q p of [] \<Rightarrow> res = None \<and> vw_group V q' = vw_group V q
     | e # es \<Rightarrow> res = Some e \<and> vw_group V q' = (vw_group V q)(p := es)"
  using assms unfolding libs_ok_def kqueue_laws_def by metis

lemma libs_kq_size:
  "libs_ok L V \<Longrightarrow> kq_size (kqs L) q = of_nat (\<Sum>p<5. length (vw_group V q p))"
  unfolding libs_ok_def kqueue_laws_def by metis

lemma libs_ur_new:
  "libs_ok L V \<Longrightarrow> vw_sq V (ur_new (urg L) n) = []"
  "libs_ok L V \<Longrightarrow> vw_live V (ur_new (urg L) n) = {#}"
  by (auto simp: libs_ok_def uring_laws_def)

lemma libs_get_sqe:
  assumes "libs_ok L V" "ur_get_sqe (urg L) r = (p, r1)" "0 < ur_space (urg L) r"
  obtains i where "p = Some i"
    and "\<And>e. vw_sq V (ur_store_sqe (urg L) r1 i e) = vw_sq V r @ [e]"
    and "\<And>e. vw_live V (ur_store_sqe (urg L) r1 i e) = vw_live V r"
    and "\<And>e. ur_space (urg L) (ur_store_sqe (urg L) r1 i e) = ur_space (urg L) r - 1"
proof -
  have "p \<noteq> None \<and> (\<forall>e. vw_sq V (ur_store_sqe (urg L) r1 (the p) e) = vw_sq V r @ [e] \<and>
      vw_live V (ur_store_sqe (urg L) r1 (the p) e) = vw_live V r \<and>
      ur_space (urg L) (ur_store_sqe (urg L) r1 (the p) e) = ur_space (urg L) r - 1)"
    using assms unfolding libs_ok_def uring_laws_def by metis
  then show ?thesis
    by (intro that [of "the p"]) auto
qed

lemma libs_submit:
  assumes "libs_ok L V" "ur_submit (urg L) r = (n, r')"
  shows "if n < 0 then vw_sq V r' = vw_sq V r \<and> vw_live V r' = vw_live V r
     else nat n \<le> length (vw_sq V r) \<and> vw_sq V r' = drop (nat n) (vw_sq V r) \<and>
       vw_live V r' = vw_live V r + mset (map sqe_user_data (take (nat n) (vw_sq V r)))"
  using assms unfolding libs_ok_def uring_laws_def by metis

lemma libs_peek:
  assumes "libs_ok L V" "ur_peek_cqe (urg L) r = (rc, p, r')"
  shows "vw_sq V r' = vw_sq V r \<and> vw_live V r' = vw_live V r \<and> (rc \<noteq> 0 \<longrightarrow> p = 0)"
  using assms unfolding libs_ok_def uring_laws_def by metis

lemma libs_peek_found:
  assumes "libs_ok L V" "ur_peek_cqe (urg L) r = (0, p, r')"
  shows "p \<noteq> 0" "ur_cqe_data (urg L) r' p \<in># vw_live V r'"
    "vw_sq V (ur_cqe_seen (urg L) r' p) = vw_sq V r'"
    "vw_live V (ur_cqe_seen (urg L) r' p) = vw_live V r' - {# ur_cqe_data (urg L) r' p #}"
    "ur_peek_cqe (urg L) (ur_cqe_seen (urg L) r' p) = (rc, p', r'') \<Longrightarrow> p' \<noteq> p"
proof -
  have *: "p \<noteq> 0 \<and> ur_cqe_data (urg L) r' p \<in># vw_live V r' \<and>
      vw_sq V (ur_cqe_seen (urg L) r' p) = vw_sq V r' \<and>
      vw_live V (ur_cqe_seen (urg L) r' p) = vw_live V r' - {# ur_cqe_data (urg L) r' p #} \<and>
      fst (snd (ur_peek_cqe (urg L) (ur_cqe_seen (urg L) r' p))) \<noteq> p"
    using assms unfolding libs_ok_def uring_laws_def by metis
  then show "p \<noteq> 0" "ur_cqe_data (urg L) r' p \<in># vw_live V r'"
    "vw_sq V (ur_cqe_seen (urg L) r' p) = vw_sq V r'"
    "vw_live V (ur_cqe_seen (urg L) r' p) = vw_live V r' - {# ur_cqe_data (urg L) r' p #}"
    by simp_all
  show "p' \<noteq> p" if "ur_peek_cqe (urg L) (ur_cqe_seen (urg L) r' p) = (rc, p', r'')"
    using * that by simp
qed

end
