(* ===== verification/Ref_Libs.thy ===== *)
theory Ref_Libs
  imports Ext_Libs
begin

text \<open>
  One instance of the library parameter, with list-backed containers and a ring of 1024 completion
  slots and at least one submission slot, and the proof that it satisfies the laws of Ext_Libs. It serves the witnesses: a property
  whose hypotheses name the laws is applied to this instance at a concrete state. Nothing else
  depends on it.
\<close>

subsection \<open>The stack\<close>

definition ref_stack_ops :: "(nat \<times> u32 list) stack_ops" where
  "ref_stack_ops = \<lparr>
     st_new = (\<lambda>n. (unat n, [])),
     st_push = (\<lambda>(c, xs) x. if length xs < c then (0, (c, x # xs)) else (-1, (c, xs))),
     st_pop = (\<lambda>(c, xs). case xs of [] \<Rightarrow> (None, (c, [])) | y # ys \<Rightarrow> (Some y, (c, ys))),
     st_size = (\<lambda>(c, xs). of_nat (length xs))\<rparr>"

lemma ref_stack_laws: "stack_laws ref_stack_ops snd fst"
  by (auto simp: stack_laws_def ref_stack_ops_def split: if_splits list.splits)

subsection \<open>The k-queue\<close>

definition ref_kqueue_ops :: "(nat \<times> (nat \<Rightarrow> io_uring_sqe list)) kqueue_ops" where
  "ref_kqueue_ops = \<lparr>
     kq_new = (\<lambda>cap g. (unat cap, (\<lambda>_. []))),
     kq_push = (\<lambda>(c, f) p e.
        if (\<Sum>i\<leftarrow>[0..<5]. length (f i)) < c then (0, (c, f(p := f p @ [e]))) else (-1, (c, f))),
     kq_pop = (\<lambda>(c, f) p. case f p of [] \<Rightarrow> (None, (c, f)) | e # es \<Rightarrow> (Some e, (c, f(p := es)))),
     kq_size = (\<lambda>(c, f). of_nat (\<Sum>i\<leftarrow>[0..<5]. length (f i)))\<rparr>"

lemma ref_kqueue_laws: "kqueue_laws 5 ref_kqueue_ops snd"
  by (auto simp: kqueue_laws_def ref_kqueue_ops_def sum_list_sum_nth atLeast0LessThan
      split: if_splits list.splits)

subsection \<open>The ring\<close>

record ref_ring =
  rr_entries :: u32
  rr_sq :: "io_uring_sqe list"
  rr_working :: "u64 list"
  rr_done :: "(u64 \<times> int) list"
  rr_head :: nat
  rr_stale :: "u64 \<times> int"

definition ref_slot :: "nat \<Rightarrow> u64" where
  "ref_slot h = of_nat (1 + h mod 1024)"

definition ref_load :: "ref_ring \<Rightarrow> u64 \<Rightarrow> u64 \<times> int" where
  "ref_load r p =
     (case rr_done r of [] \<Rightarrow> rr_stale r
      | c # _ \<Rightarrow> if p = ref_slot (rr_head r) then c else rr_stale r)"

definition ref_uring_ops :: "ref_ring uring_ops" where
  "ref_uring_ops = \<lparr>
     ur_new = (\<lambda>n. \<lparr>rr_entries = n, rr_sq = [], rr_working = [], rr_done = [], rr_head = 0,
                    rr_stale = (0, 0)\<rparr>),
     ur_space = (\<lambda>r. max 1 (rr_entries r) - of_nat (length (rr_sq r))),
     ur_get_sqe = (\<lambda>r. (if 0 < max 1 (rr_entries r) - of_nat (length (rr_sq r))
                        then Some (length (rr_sq r)) else None, r)),
     ur_store_sqe = (\<lambda>r i e. r\<lparr>rr_sq := rr_sq r @ [e]\<rparr>),
     ur_submit = (\<lambda>r. (int (length (rr_sq r)),
        r\<lparr>rr_sq := [], rr_working := rr_working r @ map sqe_user_data (rr_sq r)\<rparr>)),
     ur_peek_cqe = (\<lambda>r. if rr_done r = [] then (- EAGAIN, 0, r) else (0, ref_slot (rr_head r), r)),
     ur_cqe_res = (\<lambda>r p. snd (ref_load r p)),
     ur_cqe_data = (\<lambda>r p. fst (ref_load r p)),
     ur_cqe_seen = (\<lambda>r p. case rr_done r of [] \<Rightarrow> r
        | c # cs \<Rightarrow> r\<lparr>rr_done := cs, rr_head := Suc (rr_head r), rr_stale := c\<rparr>),
     ur_cq_ready = (\<lambda>r. of_nat (length (rr_done r)))\<rparr>"

definition ref_live :: "ref_ring \<Rightarrow> u64 multiset" where
  "ref_live r = mset (rr_working r) + mset (map fst (rr_done r))"

lemma unat_ref_slot: "unat (ref_slot h) = 1 + h mod 1024"
proof -
  have "1 + h mod 1024 \<le> 1024" by (simp add: Suc_le_eq)
  then show ?thesis
    unfolding ref_slot_def unat_of_nat
    by (intro mod_less) simp
qed

lemma ref_slot_nonzero: "ref_slot h \<noteq> 0"
  using unat_ref_slot [of h] by auto

lemma ref_slot_next: "ref_slot (Suc h) \<noteq> ref_slot h"
proof
  assume "ref_slot (Suc h) = ref_slot h"
  then have "Suc h mod 1024 = h mod 1024"
    using unat_ref_slot [of h] unat_ref_slot [of "Suc h"] by simp
  then show False
    by (simp add: mod_Suc split: if_splits)
qed

lemma ref_uring_laws: "uring_laws ref_uring_ops rr_sq ref_live"
  by (auto simp: uring_laws_def ref_uring_ops_def ref_live_def ref_load_def ref_slot_nonzero
      ref_slot_next diff_diff_eq split: if_splits list.splits)

text \<open>In this ring a consumed slot keeps its contents, as long as nothing else is consumed.\<close>

lemma ref_cqe_stable:
  "ur_peek_cqe ref_uring_ops r = (0, p, r') \<Longrightarrow>
   ur_cqe_res ref_uring_ops (ur_cqe_seen ref_uring_ops r' p) p = ur_cqe_res ref_uring_ops r' p"
  by (auto simp: ref_uring_ops_def ref_load_def ref_slot_next [THEN not_sym]
      split: if_splits list.splits)

subsection \<open>Together\<close>

definition ref_libs ::
  "(nat \<times> u32 list, nat \<times> (nat \<Rightarrow> io_uring_sqe list), ref_ring) libs" where
  "ref_libs = \<lparr>stk = ref_stack_ops, kqs = ref_kqueue_ops, urg = ref_uring_ops\<rparr>"

definition ref_views ::
  "(nat \<times> u32 list, nat \<times> (nat \<Rightarrow> io_uring_sqe list), ref_ring) views" where
  "ref_views = \<lparr>vw_items = snd, vw_cap = fst, vw_group = snd, vw_sq = rr_sq, vw_live = ref_live\<rparr>"

lemma ref_libs_ok: "libs_ok ref_libs ref_views"
  by (simp add: libs_ok_def ref_libs_def ref_views_def ref_stack_laws ref_kqueue_laws ref_uring_laws)

lemma ref_views_simps [simp]:
  "vw_items ref_views = snd" "vw_cap ref_views = fst" "vw_group ref_views = snd"
  "vw_sq ref_views = rr_sq" "vw_live ref_views = ref_live"
  by (simp_all add: ref_views_def)

lemma ref_libs_simps [simp]:
  "stk ref_libs = ref_stack_ops" "kqs ref_libs = ref_kqueue_ops" "urg ref_libs = ref_uring_ops"
  by (simp_all add: ref_libs_def)

lemma ref_ring_new [simp]:
  "rr_sq (ur_new ref_uring_ops n) = []" "rr_working (ur_new ref_uring_ops n) = []"
  "rr_done (ur_new ref_uring_ops n) = []" "ur_space ref_uring_ops (ur_new ref_uring_ops n) = max 1 n"
  by (simp_all add: ref_uring_ops_def)

lemmas ref_defs = ref_libs_def ref_views_def ref_stack_ops_def ref_kqueue_ops_def ref_uring_ops_def
  ref_load_def ref_slot_def ref_live_def

end
