(* ===== verification/Io_Queue.thy ===== *)
theory Io_Queue
  imports Ref_Libs Entries
begin

text \<open>
  The prioritised queue in front of the submission ring: \<open>src/mcon/io_queue.h\<close> and
  \<open>src/mcon/io_queue.c\<close>. The queue itself is the k-queue of ctools, a parameter. The main result is
  a functional refinement: moving entries into the ring takes a prefix of the waiting entries listed
  group by group.
\<close>

subsection \<open>State and operations\<close>

record 'q io_queue =
  ioq_queue :: 'q

definition BLACKHOLE_IO_QUEUE_PRIORITY_GROUP_COUNT :: nat where
  [simp]: "BLACKHOLE_IO_QUEUE_PRIORITY_GROUP_COUNT = 5"

definition io_queue_create ::
  "('s, 'q, 'r) libs \<Rightarrow> u32 \<Rightarrow> kernel \<Rightarrow> int \<times> 'q io_queue option \<times> kernel" where
  "io_queue_create L max_io_operations_in_flight k =
     (let groups = of_nat BLACKHOLE_IO_QUEUE_PRIORITY_GROUP_COUNT;
          (r, k1) = libcall (Kqueue_create max_io_operations_in_flight groups) k
      in if rv r \<noteq> 0 then (-1, None, k1)
         else (0, Some \<lparr>ioq_queue = kq_new (kqs L) max_io_operations_in_flight groups\<rparr>, k1))"

definition io_queue_destroy :: "kernel \<Rightarrow> kernel" where
  "io_queue_destroy k = snd (libcall Kqueue_destroy k)"

text \<open>The switch of \<open>io_queue_push\<close>; \<open>None\<close> is its default branch.\<close>

fun io_priority :: "mcon_io_uring_operation \<Rightarrow> nat option" where
  "io_priority MCON_IO_SESSION_CLOSE = Some 0"
| "io_priority MCON_IO_SESSION_DRAIN = Some 1"
| "io_priority MCON_IO_SESSION_WRITE = Some 2"
| "io_priority MCON_IO_SESSION_READ = Some 3"
| "io_priority MCON_IO_SESSION_ACCEPT = Some 4"
| "io_priority MCON_IO_UNKNOWN = None"
| "io_priority (Operation_other w) = None"

definition io_queue_push ::
  "('s, 'q, 'r) libs \<Rightarrow> 'q io_queue \<Rightarrow> io_uring_sqe \<Rightarrow> kernel \<Rightarrow> int \<times> 'q io_queue \<times> kernel" where
  "io_queue_push L ioq entry k =
     (let sqe_data = io_uring_entry_of_data (sqe_user_data entry)
      in case io_priority (io_operation sqe_data) of
           None \<Rightarrow> (-1, ioq, set_errno EINVAL k)
         | Some priority \<Rightarrow>
             (case kq_push (kqs L) (ioq_queue ioq) priority entry of
                (rc, q) \<Rightarrow> (rc, ioq\<lparr>ioq_queue := q\<rparr>, k)))"

text \<open>The macro \<open>MIN\<close> at type \<open>unsigned int\<close>.\<close>

definition c_min :: "u32 \<Rightarrow> u32 \<Rightarrow> u32" where
  "c_min a b = (if a < b then a else b)"

text \<open>
  The inner loop: pop entries of one group and copy them into ring slots until the limit is reached
  or the group is empty. A null slot fails the \<open>assert()\<close>.
\<close>

function pop_group ::
  "('s, 'q, 'r) libs \<Rightarrow> u32 \<Rightarrow> nat \<Rightarrow> u32 \<Rightarrow> 'q \<Rightarrow> 'r \<Rightarrow> (u32 \<times> 'q \<times> 'r) option" where
  "pop_group L limit priority_group enqueued q r =
     (if enqueued < limit then
        (case kq_pop (kqs L) q priority_group of
           (None, q1) \<Rightarrow> Some (enqueued, q1, r)
         | (Some sqe, q1) \<Rightarrow>
             (case ur_get_sqe (urg L) r of
                (None, r1) \<Rightarrow> None
              | (Some sqe_dst, r1) \<Rightarrow>
                  pop_group L limit priority_group (enqueued + 1) q1
                    (ur_store_sqe (urg L) r1 sqe_dst sqe)))
      else Some (enqueued, q, r))"
  by pat_completeness auto
termination
  by (relation "measure (\<lambda>(L, limit, g, enqueued, q, r). unat limit - unat enqueued)")
    (auto simp: unat_plus_one word_less_nat_alt)

declare pop_group.simps [simp del]

text \<open>The outer loop over the priority groups.\<close>

fun pop_groups ::
  "('s, 'q, 'r) libs \<Rightarrow> u32 \<Rightarrow> nat list \<Rightarrow> u32 \<Rightarrow> 'q \<Rightarrow> 'r \<Rightarrow> (u32 \<times> 'q \<times> 'r) option" where
  "pop_groups L limit [] enqueued q r = Some (enqueued, q, r)"
| "pop_groups L limit (g # gs) enqueued q r =
     do { (enqueued1, q1, r1) \<leftarrow> pop_group L limit g enqueued q r;
          pop_groups L limit gs enqueued1 q1 r1 }"

definition io_queue_pop_into_ring ::
  "('s, 'q, 'r) libs \<Rightarrow> 'q io_queue \<Rightarrow> 'r \<Rightarrow> u32 \<Rightarrow> (u32 \<times> 'q io_queue \<times> 'r) option" where
  "io_queue_pop_into_ring L ioq ring cnt =
     (let ring_space = ur_space (urg L) ring;
          sqes_in_waiting = kq_size (kqs L) (ioq_queue ioq);
          space = c_min ring_space sqes_in_waiting;
          limit = c_min cnt space
      in do { (enqueued, q, r) \<leftarrow> pop_groups L limit
                [0..<BLACKHOLE_IO_QUEUE_PRIORITY_GROUP_COUNT] 0 (ioq_queue ioq) ring;
              Some (enqueued, ioq\<lparr>ioq_queue := q\<rparr>, r) })"

subsection \<open>What the queue holds\<close>

definition io_queue_contents :: "('s, 'q, 'r) views \<Rightarrow> 'q io_queue \<Rightarrow> io_uring_sqe list" where
  "io_queue_contents V ioq = concat (map (vw_group V (ioq_queue ioq)) [0..<5])"

definition io_queue_waiting :: "('s, 'q, 'r) views \<Rightarrow> 'q io_queue \<Rightarrow> u64 multiset" where
  "io_queue_waiting V ioq = mset (map sqe_user_data (io_queue_contents V ioq))"

text \<open>The operation an entry was queued for, and its place in the order.\<close>

definition sqe_operation :: "io_uring_sqe \<Rightarrow> mcon_io_uring_operation" where
  "sqe_operation e = io_operation (io_uring_entry_of_data (sqe_user_data e))"

text \<open>
  The hierarchy the header file promises, as the order of the operations: close, drain, write, read,
  accept; what names no operation comes last.
\<close>

fun hierarchy_rank :: "mcon_io_uring_operation \<Rightarrow> nat" where
  "hierarchy_rank MCON_IO_SESSION_CLOSE = 0"
| "hierarchy_rank MCON_IO_SESSION_DRAIN = 1"
| "hierarchy_rank MCON_IO_SESSION_WRITE = 2"
| "hierarchy_rank MCON_IO_SESSION_READ = 3"
| "hierarchy_rank MCON_IO_SESSION_ACCEPT = 4"
| "hierarchy_rank MCON_IO_UNKNOWN = 5"
| "hierarchy_rank (Operation_other w) = 6 + unat w"

lemma hierarchy_rank_inject: "hierarchy_rank a = hierarchy_rank b \<Longrightarrow> a = b"
  by (cases a; cases b) (auto simp: word_unat_eq_iff)

lemma rank_of_priority: "io_priority oper = Some p \<Longrightarrow> hierarchy_rank oper = p"
  by (cases oper) auto

instantiation mcon_io_uring_operation :: linorder
begin

definition less_eq_mcon_io_uring_operation :: "mcon_io_uring_operation \<Rightarrow> mcon_io_uring_operation \<Rightarrow> bool" where
  "less_eq_mcon_io_uring_operation a b \<longleftrightarrow> hierarchy_rank a \<le> hierarchy_rank b"

definition less_mcon_io_uring_operation :: "mcon_io_uring_operation \<Rightarrow> mcon_io_uring_operation \<Rightarrow> bool" where
  "less_mcon_io_uring_operation a b \<longleftrightarrow> hierarchy_rank a < hierarchy_rank b"

instance
  by standard (auto simp: less_eq_mcon_io_uring_operation_def less_mcon_io_uring_operation_def
    intro: hierarchy_rank_inject)

end

definition sqe_priority :: "io_uring_sqe \<Rightarrow> nat" where
  "sqe_priority e = hierarchy_rank (sqe_operation e)"

lemma sqe_priority_le: "sqe_operation a \<le> sqe_operation b \<longleftrightarrow> sqe_priority a \<le> sqe_priority b"
  by (simp add: sqe_priority_def less_eq_mcon_io_uring_operation_def)

text \<open>Every entry waits in the group of its operation.\<close>

definition io_queue_sorted :: "('s, 'q, 'r) views \<Rightarrow> 'q io_queue \<Rightarrow> bool" where
  "io_queue_sorted V ioq \<longleftrightarrow> (\<forall>p<5. \<forall>e \<in> set (vw_group V (ioq_queue ioq) p).
     io_priority (sqe_operation e) = Some p)"

lemma io_priority_less: "io_priority oper = Some p \<Longrightarrow> p < 5"
  by (cases oper) auto

lemma unat_c_min: "unat (c_min a b) = min (unat a) (unat b)"
  by (auto simp: c_min_def word_less_nat_alt)

lemma io_queue_waiting_sum:
  "io_queue_waiting V ioq =
     image_mset sqe_user_data (\<Sum>i<5. mset (vw_group V (ioq_queue ioq) i))"
  unfolding io_queue_waiting_def io_queue_contents_def mset_map
  by (simp only: mset_concat_map_upt)

subsection \<open>Pushing\<close>

lemma io_queue_push_cases:
  assumes "libs_ok L V" "io_queue_push L ioq e k = (rc, ioq', k')"
  obtains (rejected)
      "io_priority (sqe_operation e) = None"
      "rc = -1" "ioq' = ioq" "k' = set_errno EINVAL k"
  | (queued) p where
      "io_priority (sqe_operation e) = Some p" "p < 5"
      "rc = 0" "k' = k"
      "vw_group V (ioq_queue ioq') =
         (vw_group V (ioq_queue ioq))(p := vw_group V (ioq_queue ioq) p @ [e])"
  | (full) "rc \<noteq> 0" "k' = k" "vw_group V (ioq_queue ioq') = vw_group V (ioq_queue ioq)"
proof (cases "io_priority (sqe_operation e)")
  case None
  with assms(2) that(1) show ?thesis
    by (simp add: io_queue_push_def sqe_operation_def Let_def)
next
  case (Some p)
  obtain rc1 q1 where push: "kq_push (kqs L) (ioq_queue ioq) p e = (rc1, q1)"
    by (cases "kq_push (kqs L) (ioq_queue ioq) p e")
  have p: "p < 5" using Some by (rule io_priority_less)
  have eqs: "rc = rc1" "ioq' = ioq\<lparr>ioq_queue := q1\<rparr>" "k' = k"
    using assms(2) Some push by (simp_all add: io_queue_push_def sqe_operation_def Let_def)
  show ?thesis
    using libs_kq_push [OF assms(1) push p] eqs that(2) [OF Some p] that(3)
    by (cases "rc1 = 0") auto
qed

lemma io_queue_push_kernel:
  "io_queue_push L ioq e k = (rc, ioq', k') \<Longrightarrow> answers k' = answers k \<and> trace k' = trace k"
  by (auto simp: io_queue_push_def Let_def split: option.splits prod.splits)

text \<open>What a client of the queue relies on.\<close>

locale request_queue =
  fixes lawful :: "'l \<Rightarrow> 'v \<Rightarrow> bool"
    and push :: "'l \<Rightarrow> 'c \<Rightarrow> io_uring_sqe \<Rightarrow> kernel \<Rightarrow> int \<times> 'c \<times> kernel"
    and waiting :: "'v \<Rightarrow> 'c \<Rightarrow> u64 multiset"
  assumes push_accepted: "lawful L V \<Longrightarrow> push L c e k = (0, c', k') \<Longrightarrow>
      waiting V c' = add_mset (sqe_user_data e) (waiting V c)"
    and push_refused: "lawful L V \<Longrightarrow> push L c e k = (rc, c', k') \<Longrightarrow> rc \<noteq> 0 \<Longrightarrow>
      waiting V c' = waiting V c"
    and push_silent: "push L c e k = (rc, c', k') \<Longrightarrow> answers k' = answers k \<and> trace k' = trace k"
begin

lemma push_waiting:
  assumes "lawful L V" "push L c e k = (rc, c', k')"
  shows "waiting V c' = waiting V c + (if rc = 0 then {# sqe_user_data e #} else {#})"
  using assms push_accepted [of L V c e k c' k'] push_refused [of L V c e k rc c' k'] by auto

lemma push_monotone:
  assumes "lawful L V" "push L c e k = (rc, c', k')"
  shows "waiting V c \<subseteq># waiting V c'"
  using push_waiting [OF assms] by simp

end

interpretation ioq: request_queue libs_ok io_queue_push io_queue_waiting
proof
  fix L :: "('a, 'b, 'c) libs" and V and c c' :: "'b io_queue" and e k k'
  assume "libs_ok L V" "io_queue_push L c e k = (0, c', k')"
  then show "io_queue_waiting V c' = add_mset (sqe_user_data e) (io_queue_waiting V c)"
    by (cases rule: io_queue_push_cases) (simp_all add: io_queue_waiting_sum sum_mset_fun_upd
        del: fun_upd_apply)
next
  fix L :: "('a, 'b, 'c) libs" and V and c c' :: "'b io_queue" and e k k' rc
  assume "libs_ok L V" "io_queue_push L c e k = (rc, c', k')" "rc \<noteq> 0"
  then show "io_queue_waiting V c' = io_queue_waiting V c"
    by (cases rule: io_queue_push_cases) (simp_all add: io_queue_waiting_sum)
qed (rule io_queue_push_kernel)

lemma io_queue_push_sorted:
  assumes "libs_ok L V" "io_queue_push L ioq e k = (rc, ioq', k')" "io_queue_sorted V ioq"
  shows "io_queue_sorted V ioq'"
  using assms(1,2)
  by (cases rule: io_queue_push_cases) (use assms(3) in \<open>auto simp: io_queue_sorted_def\<close>)

lemma libs_kq_pop_Nil:
  "libs_ok L V \<Longrightarrow> p < 5 \<Longrightarrow> kq_pop (kqs L) q p = (res, q') \<Longrightarrow> vw_group V q p = [] \<Longrightarrow>
   res = None \<and> vw_group V q' = vw_group V q"
  using libs_kq_pop [of L V q p res q'] by simp

lemma libs_kq_pop_Cons:
  "libs_ok L V \<Longrightarrow> p < 5 \<Longrightarrow> kq_pop (kqs L) q p = (res, q') \<Longrightarrow> vw_group V q p = e # es \<Longrightarrow>
   res = Some e \<and> vw_group V q' = (vw_group V q)(p := es)"
  using libs_kq_pop [of L V q p res q'] by simp

subsection \<open>Popping into the ring\<close>

lemma pop_group_spec:
  assumes "libs_ok L V" "g < 5" "unat limit - unat enq \<le> unat (ur_space (urg L) r)"
    and "n = min (unat limit - unat enq) (length (vw_group V q g))"
  shows "\<exists>q' r'. pop_group L limit g enq q r = Some (enq + of_nat n, q', r') \<and>
     vw_group V q' = (vw_group V q)(g := drop n (vw_group V q g)) \<and>
     vw_sq V r' = vw_sq V r @ take n (vw_group V q g) \<and>
     vw_live V r' = vw_live V r \<and>
     unat (ur_space (urg L) r') = unat (ur_space (urg L) r) - n"
  using assms(3,4)
proof (induction "length (vw_group V q g)" arbitrary: enq q r n)
  case 0
  obtain res q1 where pop: "kq_pop (kqs L) q g = (res, q1)" by force
  have "res = None" "vw_group V q1 = vw_group V q"
    using libs_kq_pop_Nil [OF assms(1,2) pop] 0 by auto
  with 0 pop show ?case
    by (auto simp: pop_group.simps [of L limit g enq])
next
  case (Suc m)
  show ?case
  proof (cases "enq < limit")
    case False
    with Suc.prems(2) have "n = 0" by (simp add: word_less_nat_alt)
    with False show ?thesis
      by (auto simp: pop_group.simps [of L limit g enq])
  next
    case True
    obtain e es where grp: "vw_group V q g = e # es"
      using Suc.hyps(2) by (cases "vw_group V q g") auto
    obtain res q1 where pop: "kq_pop (kqs L) q g = (res, q1)" by force
    have q1: "res = Some e" "vw_group V q1 = (vw_group V q)(g := es)"
      using libs_kq_pop_Cons [OF assms(1,2) pop grp] by auto
    have less: "unat enq < unat limit"
      using True by (simp add: word_less_nat_alt)
    have room: "0 < ur_space (urg L) r"
      using Suc.prems(1) less by (simp add: word_less_nat_alt)
    obtain p r1 where get: "ur_get_sqe (urg L) r = (p, r1)" by force
    obtain i where i: "p = Some i"
      and sq: "vw_sq V (ur_store_sqe (urg L) r1 i e) = vw_sq V r @ [e]"
      and live: "vw_live V (ur_store_sqe (urg L) r1 i e) = vw_live V r"
      and space: "ur_space (urg L) (ur_store_sqe (urg L) r1 i e) = ur_space (urg L) r - 1"
      using libs_get_sqe [OF assms(1) get room] by metis
    let ?r2 = "ur_store_sqe (urg L) r1 i e"
    have space2: "unat (ur_space (urg L) ?r2) = unat (ur_space (urg L) r) - 1"
      using room unfolding space by (intro unat_diff_one) auto
    have enq2: "unat (enq + 1) = Suc (unat enq)"
      using True by (rule unat_plus_one)
    have step: "pop_group L limit g enq q r = pop_group L limit g (enq + 1) q1 ?r2"
      using True by (simp add: pop_group.simps [of L limit g enq] pop q1 get i)
    obtain k where n: "n = Suc k" and k: "k = min (unat limit - unat (enq + 1)) (length es)"
      using Suc.prems(2) less by (cases n) (auto simp: grp enq2)
    have "\<exists>q' r'. pop_group L limit g (enq + 1) q1 ?r2 = Some ((enq + 1) + of_nat k, q', r') \<and>
       vw_group V q' = (vw_group V q1)(g := drop k (vw_group V q1 g)) \<and>
       vw_sq V r' = vw_sq V ?r2 @ take k (vw_group V q1 g) \<and>
       vw_live V r' = vw_live V ?r2 \<and>
       unat (ur_space (urg L) r') = unat (ur_space (urg L) ?r2) - k"
      using Suc.hyps(2) Suc.prems(1) k
      by (intro Suc.hyps(1)) (auto simp: q1 grp enq2 space2)
    then show ?thesis
      by (auto simp: step n q1 sq live space2 grp fun_upd_idem algebra_simps)
  qed
qed

lemma pop_groups_spec:
  assumes "libs_ok L V" "distinct gs" "\<forall>g\<in>set gs. g < 5"
    and "unat enq \<le> unat limit" "unat limit - unat enq \<le> unat (ur_space (urg L) r)"
    and "ws = concat (map (vw_group V q) gs)" "n = min (unat limit - unat enq) (length ws)"
  shows "\<exists>q' r'. pop_groups L limit gs enq q r = Some (enq + of_nat n, q', r') \<and>
     concat (map (vw_group V q') gs) = drop n ws \<and>
     (\<forall>g. g \<notin> set gs \<longrightarrow> vw_group V q' g = vw_group V q g) \<and>
     (\<forall>g. set (vw_group V q' g) \<subseteq> set (vw_group V q g)) \<and>
     vw_sq V r' = vw_sq V r @ take n ws \<and> vw_live V r' = vw_live V r"
  using assms(2-)
proof (induction gs arbitrary: enq q r ws n)
  case Nil
  then show ?case by auto
next
  case (Cons g gs)
  define n1 where "n1 = min (unat limit - unat enq) (length (vw_group V q g))"
  obtain q1 r1 where first: "pop_group L limit g enq q r = Some (enq + of_nat n1, q1, r1)"
    and q1: "vw_group V q1 = (vw_group V q)(g := drop n1 (vw_group V q g))"
    and sq1: "vw_sq V r1 = vw_sq V r @ take n1 (vw_group V q g)"
    and live1: "vw_live V r1 = vw_live V r"
    and space1: "unat (ur_space (urg L) r1) = unat (ur_space (urg L) r) - n1"
    using pop_group_spec [OF assms(1), of g limit enq r n1 q] Cons.prems(2,4)
    unfolding n1_def by auto
  have le: "unat enq + n1 \<le> unat limit"
    using Cons.prems(3) by (simp add: n1_def)
  then have enq1: "unat (enq + of_nat n1) = unat enq + n1"
    using unat_u32_bound [of limit] by (simp add: unat_word_ariths unat_of_nat)
  define ws1 where "ws1 = concat (map (vw_group V q1) gs)"
  define n2 where "n2 = min (unat limit - unat (enq + of_nat n1)) (length ws1)"
  have "\<exists>q' r'. pop_groups L limit gs (enq + of_nat n1) q1 r1 = Some ((enq + of_nat n1) + of_nat n2, q', r') \<and>
     concat (map (vw_group V q') gs) = drop n2 ws1 \<and>
     (\<forall>g. g \<notin> set gs \<longrightarrow> vw_group V q' g = vw_group V q1 g) \<and>
     (\<forall>g. set (vw_group V q' g) \<subseteq> set (vw_group V q1 g)) \<and>
     vw_sq V r' = vw_sq V r1 @ take n2 ws1 \<and> vw_live V r' = vw_live V r1"
    using Cons.prems le by (intro Cons.IH) (auto simp: ws1_def n2_def enq1 space1)
  then obtain q' r' where
    rest: "pop_groups L limit gs (enq + of_nat n1) q1 r1 = Some ((enq + of_nat n1) + of_nat n2, q', r')"
    and q': "concat (map (vw_group V q') gs) = drop n2 ws1"
      "\<And>h. h \<notin> set gs \<Longrightarrow> vw_group V q' h = vw_group V q1 h"
      "\<And>h. set (vw_group V q' h) \<subseteq> set (vw_group V q1 h)"
    and sq': "vw_sq V r' = vw_sq V r1 @ take n2 ws1" and live': "vw_live V r' = vw_live V r1"
    by blast
  have "g \<notin> set gs" using Cons.prems(1) by simp
  then have ws1: "ws1 = concat (map (vw_group V q) gs)"
    unfolding ws1_def q1 by (intro arg_cong [where f = concat] map_cong) auto
  have ws: "ws = vw_group V q g @ ws1"
    using Cons.prems(5) by (simp add: ws1)
  have n: "n = n1 + n2" and cut: "n1 < length (vw_group V q g) \<Longrightarrow> n2 = 0"
  proof -
    have "n2 = min (unat limit - (unat enq + n1)) (length ws1)"
      by (simp only: n2_def enq1)
    moreover have "n = min (unat limit - unat enq) (length (vw_group V q g) + length ws1)"
      using Cons.prems(6) by (simp add: ws)
    ultimately show "n = n1 + n2" "n1 < length (vw_group V q g) \<Longrightarrow> n2 = 0"
      using n1_def by linarith+
  qed
  have tk: "take n ws = take n1 (vw_group V q g) @ take n2 ws1"
    and dr: "drop n ws = drop n1 (vw_group V q g) @ drop n2 ws1"
    using cut by (cases "n1 < length (vw_group V q g)"; simp add: n ws n1_def)+
  have "set (vw_group V q' h) \<subseteq> set (vw_group V q h)" for h
    using q'(3) [of h] set_drop_subset [of n1 "vw_group V q g"]
    by (auto simp: q1 split: if_splits)
  moreover have "pop_groups L limit (g # gs) enq q r = Some (enq + of_nat n, q', r')"
    by (simp add: first rest n algebra_simps)
  moreover have "concat (map (vw_group V q') (g # gs)) = drop n ws"
    using q'(2) [OF \<open>g \<notin> set gs\<close>] by (simp add: q'(1) q1 dr)
  ultimately show ?case
    using q'(2) by (auto simp: q1 tk sq' sq1 live' live1)
qed


lemma io_queue_pop_spec:
  assumes "libs_ok L V" "length (io_queue_contents V ioq) < 2 ^ 32"
    and "n = min (unat cnt) (min (unat (ur_space (urg L) ring)) (length (io_queue_contents V ioq)))"
  shows "\<exists>ioq' ring'. io_queue_pop_into_ring L ioq ring cnt = Some (of_nat n, ioq', ring') \<and>
     vw_sq V ring' = vw_sq V ring @ take n (io_queue_contents V ioq) \<and>
     io_queue_contents V ioq' = drop n (io_queue_contents V ioq) \<and>
     vw_live V ring' = vw_live V ring \<and>
     (io_queue_sorted V ioq \<longrightarrow> io_queue_sorted V ioq')"
proof -
  let ?q = "ioq_queue ioq"
  have total: "unat (kq_size (kqs L) ?q) = length (io_queue_contents V ioq)"
  proof -
    have "(\<Sum>p<5. length (vw_group V ?q p)) = length (io_queue_contents V ioq)"
      by (simp add: io_queue_contents_def length_concat sum_list_sum_nth atLeast0LessThan)
    then show ?thesis
      using assms(2) by (simp add: libs_kq_size [OF assms(1)] unat_of_nat)
  qed
  define limit where "limit = c_min cnt (c_min (ur_space (urg L) ring) (kq_size (kqs L) ?q))"
  have limit: "unat limit = n"
    by (simp add: limit_def unat_c_min total assms(3))
  have "\<exists>q' r'. pop_groups L limit [0..<5] 0 ?q ring = Some (0 + of_nat n, q', r') \<and>
     concat (map (vw_group V q') [0..<5]) = drop n (io_queue_contents V ioq) \<and>
     (\<forall>g. g \<notin> set [0..<5] \<longrightarrow> vw_group V q' g = vw_group V ?q g) \<and>
     (\<forall>g. set (vw_group V q' g) \<subseteq> set (vw_group V ?q g)) \<and>
     vw_sq V r' = vw_sq V ring @ take n (io_queue_contents V ioq) \<and>
     vw_live V r' = vw_live V ring"
    using limit assms(3)
    by (intro pop_groups_spec [OF assms(1)]) (auto simp: io_queue_contents_def)
  then show ?thesis
    by (fastforce simp: io_queue_pop_into_ring_def Let_def limit_def [symmetric]
        io_queue_contents_def io_queue_sorted_def)
qed
lemma contents_sorted:
  assumes "io_queue_sorted V ioq"
  shows "sorted (map sqe_priority (io_queue_contents V ioq))"
proof -
  let ?upto = "\<lambda>n. concat (map (vw_group V (ioq_queue ioq)) [0..<n])"
  have "sorted (map sqe_priority (?upto n)) \<and> (\<forall>e \<in> set (?upto n). sqe_priority e < n)"
    if "n \<le> 5" for n
    using that
  proof (induction n)
    case (Suc n)
    then have "n < 5" by simp
    then have "\<forall>e \<in> set (vw_group V (ioq_queue ioq) n). sqe_priority e = n"
      using assms by (auto simp: io_queue_sorted_def sqe_priority_def dest!: rank_of_priority)
    moreover from this have "map sqe_priority (vw_group V (ioq_queue ioq) n) =
        replicate (length (vw_group V (ioq_queue ioq) n)) n"
      by (intro replicate_eqI) auto
    ultimately show ?case
      using Suc by (auto simp: sorted_append less_imp_le less_Suc_eq)
  qed simp
  then show ?thesis by (simp add: io_queue_contents_def)
qed

lemma sorted_cut:
  assumes "sorted (map f xs)" "a \<in> set (take n xs)" "b \<in> set (drop n xs)"
  shows "f a \<le> f b"
proof -
  have "sorted (map f (take n xs) @ map f (drop n xs))"
    using assms(1) by (metis append_take_drop_id map_append)
  with assms(2,3) show ?thesis by (auto simp: sorted_append)
qed

subsection \<open>Properties\<close>

text \<open>\<open>io_queue_push\<close> files an entry at the end of the group of its operation and touches no
  other group; an entry that names no operation is refused with \<open>EINVAL\<close>; a refused entry leaves
  the queue as it was.\<close>

theorem io_queue_push_outcome:
  assumes "libs_ok L V" "io_queue_push L ioq e k = (rc, ioq', k')"
  shows "case io_priority (sqe_operation e) of
      None \<Rightarrow> rc = -1 \<and> ioq' = ioq \<and> errno k' = EINVAL
    | Some p \<Rightarrow> k' = k \<and> vw_group V (ioq_queue ioq') =
        (if rc = 0 then (vw_group V (ioq_queue ioq))(p := vw_group V (ioq_queue ioq) p @ [e])
         else vw_group V (ioq_queue ioq))"
proof (cases "io_priority (sqe_operation e)")
  case None
  then show ?thesis
    using assms(2) by (auto simp: io_queue_push_def sqe_operation_def Let_def)
next
  case (Some p)
  with io_priority_less [OF Some] show ?thesis
    using assms(2) libs_kq_push [OF assms(1), of "ioq_queue ioq" p e]
    by (auto simp: io_queue_push_def sqe_operation_def Let_def split: prod.splits)
qed

definition sample_sqe :: "mcon_io_uring_operation \<Rightarrow> mcon_session_idx \<Rightarrow> io_uring_sqe" where
  "sample_sqe oper s = sqe_initialized\<lparr>sqe_user_data :=
     io_uring_data_of_entry \<lparr>io_operation = oper, io_session = s\<rparr>\<rparr>"

theorem io_queue_push_outcome_witness:
  "\<forall>k. fst (io_queue_push ref_libs \<lparr>ioq_queue = (4, \<lambda>_. [])\<rparr> sqe_initialized k) = -1"
proof
  fix k
  obtain rc ioq' k' where p:
    "io_queue_push ref_libs \<lparr>ioq_queue = (4, \<lambda>_. [])\<rparr> sqe_initialized k = (rc, ioq', k')"
    by (cases "io_queue_push ref_libs \<lparr>ioq_queue = (4, \<lambda>_. [])\<rparr> sqe_initialized k")
  have "io_priority (sqe_operation sqe_initialized) = None"
    by (simp add: sqe_operation_def sqe_initialized_def io_uring_entry_of_data_def
        operation_of_code_def)
  with io_queue_push_outcome [OF ref_libs_ok p] p
  show "fst (io_queue_push ref_libs \<lparr>ioq_queue = (4, \<lambda>_. [])\<rparr> sqe_initialized k) = -1"
    by simp
qed

text \<open>C23. \<open>io_queue_pop_into_ring\<close> moves exactly the first \<open>min(count, ring space, waiting)\<close> entries
  of the waiting entries listed by priority (close, drain, write, read, accept; first in first out
  within one) to the end of the submission ring, returns their number, leaves the rest in order, and
  never fails its \<open>assert()\<close>.\<close>

theorem io_queue_pop_takes_prefix:
  assumes "libs_ok L V" "length (io_queue_contents V ioq) < 2 ^ 32"
    and "n = min (unat cnt) (min (unat (ur_space (urg L) ring)) (length (io_queue_contents V ioq)))"
  shows "\<exists>ioq' ring'. io_queue_pop_into_ring L ioq ring cnt = Some (of_nat n, ioq', ring') \<and>
     vw_sq V ring' = vw_sq V ring @ take n (io_queue_contents V ioq) \<and>
     io_queue_contents V ioq' = drop n (io_queue_contents V ioq) \<and>
     vw_live V ring' = vw_live V ring"
  using io_queue_pop_spec [OF assms] by blast

definition sample_queue :: "(nat \<times> (nat \<Rightarrow> io_uring_sqe list)) io_queue" where
  "sample_queue = \<lparr>ioq_queue = (8, (\<lambda>_. [])
     (3 := [sample_sqe MCON_IO_SESSION_READ 5], 0 := [sample_sqe MCON_IO_SESSION_CLOSE 7]))\<rparr>"

lemma sample_queue_contents:
  "io_queue_contents ref_views sample_queue =
     [sample_sqe MCON_IO_SESSION_CLOSE 7, sample_sqe MCON_IO_SESSION_READ 5]"
  by (simp add: io_queue_contents_def ref_views_def sample_queue_def upt_rec)

theorem io_queue_pop_takes_prefix_witness:
  "\<exists>ioq' ring'. io_queue_pop_into_ring ref_libs sample_queue (ur_new ref_uring_ops 8) 1 =
      Some (1, ioq', ring') \<and> rr_sq ring' = [sample_sqe MCON_IO_SESSION_CLOSE 7]"
proof -
  have "1 = min (unat (1 :: u32)) (min (unat (ur_space (urg ref_libs) (ur_new ref_uring_ops 8)))
      (length (io_queue_contents ref_views sample_queue)))"
    by (simp add: sample_queue_contents)
  from io_queue_pop_takes_prefix [OF ref_libs_ok _ this] show ?thesis
    by (auto simp: sample_queue_contents)
qed

text \<open>C24. The batch handed to the ring is ordered by the hierarchy the header promises (close, drain,
  write, read, accept), and no entry left waiting outranks an entry of the batch.\<close>

theorem ring_batch_respects_hierarchy:
  assumes "libs_ok L V" "length (io_queue_contents V ioq) < 2 ^ 32" "io_queue_sorted V ioq"
    and "io_queue_pop_into_ring L ioq ring cnt = Some (m, ioq', ring')"
  shows "\<exists>batch. vw_sq V ring' = vw_sq V ring @ batch \<and> length batch = unat m \<and>
     sorted (map sqe_operation batch) \<and>
     (\<forall>a \<in> set batch. \<forall>b \<in> set (io_queue_contents V ioq'). sqe_operation a \<le> sqe_operation b)"
proof -
  let ?ws = "io_queue_contents V ioq"
  define n where "n = min (unat cnt) (min (unat (ur_space (urg L) ring)) (length ?ws))"
  have sorted: "sorted (map sqe_priority ?ws)" by (rule contents_sorted [OF assms(3)])
  have popped: "m = of_nat n" "vw_sq V ring' = vw_sq V ring @ take n ?ws"
    "io_queue_contents V ioq' = drop n ?ws"
    using io_queue_pop_spec [OF assms(1,2) n_def] assms(4) by auto
  have "unat m = n"
    using assms(2) by (simp add: popped(1) n_def unat_of_nat)
  then show ?thesis
    using sorted_cut [OF sorted] sorted_wrt_take [OF sorted, of n]
    by (intro exI [of _ "take n ?ws"]) (auto simp: popped n_def take_map sorted_map sqe_priority_le)
qed

lemma sqe_operation_sample:
  "operation_of_code (operation_code oper) = oper \<Longrightarrow> sqe_operation (sample_sqe oper s) = oper"
  by (simp add: sqe_operation_def sample_sqe_def io_codec.dec_enc io_entry_proper_def)

lemma sample_queue_sorted: "io_queue_sorted ref_views sample_queue"
  by (simp add: io_queue_sorted_def ref_views_def sample_queue_def sqe_operation_sample
      operation_of_code_def)

theorem ring_batch_respects_hierarchy_witness:
  "\<exists>m ioq' ring' batch.
     io_queue_pop_into_ring ref_libs sample_queue (ur_new ref_uring_ops 8) 2 = Some (m, ioq', ring') \<and>
     rr_sq ring' = batch \<and> length batch = unat m \<and> sorted (map sqe_operation batch)"
proof -
  obtain m ioq' ring' where p:
    "io_queue_pop_into_ring ref_libs sample_queue (ur_new ref_uring_ops 8) 2 = Some (m, ioq', ring')"
    using io_queue_pop_spec [OF ref_libs_ok, of sample_queue _ 2 "ur_new ref_uring_ops 8"]
    by (auto simp: sample_queue_contents)
  from ring_batch_respects_hierarchy [OF ref_libs_ok _ sample_queue_sorted p] p show ?thesis
    by (auto simp: sample_queue_contents)
qed

end
