(* ===== verification/Instance_State.thy ===== *)
theory Instance_State
  imports Config_Limits Io_Queue
begin

text \<open>
  The state of an mcon instance and the operations that touch nothing else:
  \<open>src/mcon/session_type.h\<close>, \<open>src/mcon/mcon_type.h\<close>, \<open>include/mcon/event.h\<close>,
  \<open>src/mcon/session_helpers.c\<close>, \<open>src/mcon/mcon_helpers.c\<close> and the getters of \<open>src/mcon/mcon.c\<close>.
\<close>

subsection \<open>Sessions\<close>

definition MCON_SESSION_STATE_NONE :: u8 where [simp]: "MCON_SESSION_STATE_NONE = 0"
definition MCON_SESSION_STATE_READING :: u8 where [simp]: "MCON_SESSION_STATE_READING = 1"
definition MCON_SESSION_STATE_WRITING :: u8 where [simp]: "MCON_SESSION_STATE_WRITING = 2"
definition MCON_SESSION_STATE_RDHUP :: u8 where [simp]: "MCON_SESSION_STATE_RDHUP = 4"
definition MCON_SESSION_STATE_CLOSING :: u8 where [simp]: "MCON_SESSION_STATE_CLOSING = 8"

record mcon_session =
  socket_fd :: int
  generation :: u8
  sess_state :: u8

subsection \<open>Events\<close>

datatype mcon_event_type =
    MCON_EVENT_NONE
  | MCON_EVENT_NEW_CONNECTION
  | MCON_EVENT_NEW_CONNECTION_FAILED
  | MCON_EVENT_READ_RDY
  | MCON_EVENT_READ_COMPLETE
  | MCON_EVENT_WRITE_COMPLETE
  | MCON_EVENT_DRAIN_COMPLETE
  | MCON_EVENT_CLOSE_COMPLETE
  | MCON_EVENT_READ_SHUTDOWN
  | MCON_EVENT_REMOTE_HANGUP
  | MCON_EVENT_CLIENT_ERROR

record mcon_event =
  ev_result :: int
  ev_session :: mcon_session_idx
  ev_type :: mcon_event_type

subsection \<open>The instance\<close>

record mcon_state =
  sqe_in_flight :: u16
  is_shutting_down :: bool
  accepts_live :: u16
  accepts_requested :: bool

record ('s, 'q, 'r) mcon =
  instance_id :: u16
  server_socket_fd :: int
  epoll_fd :: int
  configuration :: mcon_config
  sessions :: "mcon_session list"
  session_free_stack :: 's
  ring :: 'r
  io_uring_eventfd :: int
  m_io_queue :: "'q io_queue"
  m_state :: mcon_state

text \<open>
  What an API call runs on: the instance, the kernel, and the caller's event array, whose length is
  the memory the caller provides.
\<close>

record ('s, 'q, 'r) world =
  inst :: "('s, 'q, 'r) mcon"
  os :: kernel
  evbuf :: "mcon_event list"

subsection \<open>Session helpers\<close>

definition session_init :: mcon_session where
  "session_init = \<lparr>socket_fd = -1, generation = 0, sess_state = MCON_SESSION_STATE_NONE\<rparr>"

text \<open>Assignment to fields of \<open>mcon->sessions[i]\<close>.\<close>

definition upd_session ::
  "(mcon_session \<Rightarrow> mcon_session) \<Rightarrow> mcon_session_idx \<Rightarrow> ('s, 'q, 'r) mcon \<Rightarrow> ('s, 'q, 'r) mcon option"
  where
  "upd_session f i m =
     do { s \<leftarrow> arr_get (sessions m) (unat i);
          ss \<leftarrow> arr_put (sessions m) (unat i) (f s);
          Some (m\<lparr>sessions := ss\<rparr>) }"

definition next_generation :: "u8 \<Rightarrow> u8" where
  "next_generation g =
     (let rollover = (g = 0xff);
          g1 = g + of_bool (\<not> rollover)
      in g1 * of_bool (\<not> rollover))"

definition session_reset_after_close ::
  "('s, 'q, 'r) mcon \<Rightarrow> mcon_session_idx \<Rightarrow> ('s, 'q, 'r) mcon option" where
  "session_reset_after_close m session =
     upd_session (\<lambda>s. s\<lparr>socket_fd := -1, generation := next_generation (generation s)\<rparr>) session m"

definition session_prep_for_new_client ::
  "('s, 'q, 'r) mcon \<Rightarrow> mcon_session_idx \<Rightarrow> int \<Rightarrow> ('s, 'q, 'r) mcon option" where
  "session_prep_for_new_client m session client_socket_fd =
     upd_session (\<lambda>s. s\<lparr>socket_fd := client_socket_fd, sess_state := MCON_SESSION_STATE_NONE\<rparr>)
       session m"

subsection \<open>Instance helpers and getters\<close>

definition mcon_complete_shutdown :: "('s, 'q, 'r) mcon \<Rightarrow> ('s, 'q, 'r) mcon" where
  "mcon_complete_shutdown m =
     m\<lparr>epoll_fd := -1, server_socket_fd := -1,
       m_state := (m_state m)\<lparr>is_shutting_down := False\<rparr>\<rparr>"

definition mcon_get_server_socket :: "('s, 'q, 'r) mcon \<Rightarrow> int" where
  "mcon_get_server_socket m = server_socket_fd m"

definition mcon_is_shutting_down :: "('s, 'q, 'r) mcon \<Rightarrow> bool" where
  "mcon_is_shutting_down m = is_shutting_down (m_state m)"

definition mcon_owns_event :: "('s, 'q, 'r) mcon \<Rightarrow> epoll_event \<Rightarrow> bool" where
  "mcon_owns_event m event =
     (let d = mcon_decode_epoll_entry (ep_data event);
          result = True;
          result1 = (result \<and> ee_instance_id d = instance_id m);
          result2 = (result1 \<and> mcon_is_valid_source (ee_source d))
      in result2)"

definition mcon_active_session_count ::
  "('s, 'q, 'r) libs \<Rightarrow> ('s, 'q, 'r) mcon \<Rightarrow> mcon_session_idx" where
  "mcon_active_session_count L m =
     cfg_session_count (configuration m) - st_size (stk L) (session_free_stack m)"

subsection \<open>Lemmas\<close>

lemma upd_session_in [simp]:
  "unat i < length (sessions m) \<Longrightarrow>
   upd_session f i m = Some (m\<lparr>sessions := (sessions m)[unat i := f (sessions m ! unat i)]\<rparr>)"
  by (simp add: upd_session_def)

lemma upd_session_eq_Some:
  "upd_session f i m = Some m' \<longleftrightarrow> unat i < length (sessions m) \<and>
     m' = m\<lparr>sessions := (sessions m)[unat i := f (sessions m ! unat i)]\<rparr>"
  by (auto simp: upd_session_def arr_get_eq_Some arr_put_eq_Some split: bind_splits)

lemma next_generation_plus_one: "next_generation g = g + 1"
proof -
  have "(0xff :: u8) + 1 = 0" by simp
  then show ?thesis by (cases "g = 0xff") (simp_all add: next_generation_def Let_def)
qed

lemma next_generation_iterated: "(next_generation ^^ k) g = g + of_nat k"
  by (induction k) (simp_all add: next_generation_plus_one algebra_simps)

lemma of_nat_u8_eq_0_iff: "(of_nat k :: u8) = 0 \<longleftrightarrow> 256 dvd k"
  by (simp add: word_of_nat_eq_0_iff)

subsection \<open>Properties\<close>

text \<open>Resetting a session marks it inactive and advances its generation by one modulo 256: the
  branch-free rollover code equals 8-bit increment, so a session comes back to the same generation
  after exactly the multiples of 256 resets.\<close>

theorem generation_counts_resets:
  "next_generation g = g + 1 \<and> ((next_generation ^^ k) g = g \<longleftrightarrow> 256 dvd k)"
  by (simp add: next_generation_plus_one next_generation_iterated of_nat_u8_eq_0_iff)

text \<open>An event whose datum an instance encoded is owned by the instance with the same id and by no
  other.\<close>

theorem owns_exactly_its_own_events:
  assumes "epoll_entry_fits e" "mcon_is_valid_source (ee_source e)"
  shows "mcon_owns_event m \<lparr>ep_events = ev, ep_data = mcon_encode_epoll_entry e\<rparr> \<longleftrightarrow>
    instance_id m = ee_instance_id e"
  using assms by (auto simp: mcon_owns_event_def epoll_codec.dec_enc)

theorem owns_exactly_its_own_events_witness:
  "\<forall>m :: (unit, unit, unit) mcon. mcon_owns_event m
      \<lparr>ep_events = 1, ep_data = mcon_encode_epoll_entry sample_epoll_entry\<rparr> \<longleftrightarrow>
    instance_id m = 0xBEEF"
proof
  fix m :: "(unit, unit, unit) mcon"
  have "mcon_is_valid_source (ee_source sample_epoll_entry)"
    by (simp add: sample_epoll_entry_def mcon_is_valid_source_def)
  from owns_exactly_its_own_events [OF sample_epoll_entry_fits this, of m 1]
  show "mcon_owns_event m \<lparr>ep_events = 1, ep_data = mcon_encode_epoll_entry sample_epoll_entry\<rparr>
      \<longleftrightarrow> instance_id m = 0xBEEF"
    by (simp add: sample_epoll_entry_def)
qed

end
