(* ===== verification/Instance_Invariant.thy ===== *)
theory Instance_Invariant
  imports Instance_State
begin

text \<open>
  The invariant that ties the parts of an instance together, stated over what the library states
  stand for. Every request the instance has handed out is \<open>pending\<close> until its completion is
  consumed: waiting in the queue, written to the submission ring, or submitted. The invariant counts
  pending requests against the state byte of each session and against \<open>accepts_live\<close>, and
  partitions the session indices into free and active ones.
\<close>

subsection \<open>Pending requests\<close>

definition pending :: "('s, 'q, 'r) views \<Rightarrow> ('s, 'q, 'r) mcon \<Rightarrow> mcon_io_uring_entry multiset" where
  "pending V m = image_mset io_uring_entry_of_data
     (io_queue_waiting V (m_io_queue m) + mset (map sqe_user_data (vw_sq V (ring m))) +
      vw_live V (ring m))"

definition io_entry :: "mcon_io_uring_operation \<Rightarrow> mcon_session_idx \<Rightarrow> mcon_io_uring_entry" where
  "io_entry oper s = \<lparr>io_operation = oper, io_session = s\<rparr>"

definition accept_entry :: mcon_io_uring_entry where
  "accept_entry = io_entry MCON_IO_SESSION_ACCEPT MCON_NO_SESSION"

lemma io_entry_eq_iff [simp]: "io_entry a s = io_entry b t \<longleftrightarrow> a = b \<and> s = t"
  by (simp add: io_entry_def)

lemma io_entry_sel [simp]: "io_operation (io_entry a s) = a" "io_session (io_entry a s) = s"
  by (simp_all add: io_entry_def)

lemma io_entry_collapse [simp]: "io_entry (io_operation e) (io_session e) = e"
  by (simp add: io_entry_def)

lemma accept_entry_eq_iff [simp]:
  "io_entry a s = accept_entry \<longleftrightarrow> a = MCON_IO_SESSION_ACCEPT \<and> s = MCON_NO_SESSION"
  "accept_entry = io_entry a s \<longleftrightarrow> a = MCON_IO_SESSION_ACCEPT \<and> s = MCON_NO_SESSION"
  by (auto simp: accept_entry_def)

subsection \<open>The invariant\<close>

text \<open>A session, against the pending requests and the free indices.\<close>

definition session_ok ::
  "mcon_io_uring_entry multiset \<Rightarrow> u32 list \<Rightarrow> mcon_session_idx \<Rightarrow> mcon_session \<Rightarrow> bool" where
  "session_ok P free i s \<longleftrightarrow>
     count P (io_entry MCON_IO_SESSION_READ i) + count P (io_entry MCON_IO_SESSION_DRAIN i) =
       of_bool (bit (sess_state s) 0) \<and>
     count P (io_entry MCON_IO_SESSION_WRITE i) = of_bool (bit (sess_state s) 1) \<and>
     count P (io_entry MCON_IO_SESSION_CLOSE i) = of_bool (bit (sess_state s) 3) \<and>
     (bit (sess_state s) 3 \<longrightarrow> \<not> bit (sess_state s) 0 \<and> \<not> bit (sess_state s) 1) \<and>
     (i \<in> set free \<longleftrightarrow> socket_fd s = -1) \<and>
     (socket_fd s = -1 \<longrightarrow>
        \<not> bit (sess_state s) 0 \<and> \<not> bit (sess_state s) 1 \<and> \<not> bit (sess_state s) 3)"

definition session_entry :: "nat \<Rightarrow> mcon_io_uring_entry \<Rightarrow> bool" where
  "session_entry n e \<longleftrightarrow>
     io_operation e \<in> {MCON_IO_SESSION_READ, MCON_IO_SESSION_WRITE, MCON_IO_SESSION_DRAIN,
       MCON_IO_SESSION_CLOSE} \<and> unat (io_session e) < n"

definition proto_inv ::
  "mcon_io_uring_entry multiset \<Rightarrow> u32 list \<Rightarrow> mcon_session list \<Rightarrow> u16 \<Rightarrow> mcon_config \<Rightarrow> bool" where
  "proto_inv P free ss acc c \<longleftrightarrow>
     mcon_config_validate c \<and> length ss = unat (cfg_session_count c) \<and>
     distinct free \<and> (\<forall>x \<in> set free. unat x < length ss) \<and>
     unat acc \<le> length free \<and> unat acc \<le> unat (cfg_max_live_accept_sqes c) \<and>
     count P accept_entry = unat acc \<and>
     (\<forall>e \<in># P. e = accept_entry \<or> session_entry (length ss) e) \<and>
     (\<forall>i. unat i < length ss \<longrightarrow> session_ok P free i (ss ! unat i))"

definition mcon_inv :: "('s, 'q, 'r) views \<Rightarrow> ('s, 'q, 'r) mcon \<Rightarrow> bool" where
  "mcon_inv V m \<longleftrightarrow>
     vw_cap V (session_free_stack m) = length (sessions m) \<and>
     proto_inv (pending V m) (vw_items V (session_free_stack m)) (sessions m)
       (accepts_live (m_state m)) (configuration m)"

subsection \<open>The protocol steps keep the invariant\<close>

lemma proto_inv_free_bound: "proto_inv P free ss acc c \<Longrightarrow> length free \<le> length ss"
proof -
  assume inv: "proto_inv P free ss acc c"
  then have "distinct (map unat free)" "set (map unat free) \<subseteq> {..<length ss}"
    by (auto simp: proto_inv_def distinct_map inj_on_def unat_eq_iff)
  then show "length free \<le> length ss"
    by (metis card_lessThan card_mono distinct_card finite_lessThan length_map)
qed

lemma proto_inv_room:
  fixes i :: mcon_session_idx
  assumes inv: "proto_inv P free ss acc c" and i: "unat i < length ss" "i \<notin> set free"
  shows "length free < length ss"
proof -
  have "distinct (map unat (i # free))" "set (map unat (i # free)) \<subseteq> {..<length ss}"
    using inv i by (auto simp: proto_inv_def distinct_map inj_on_def unat_eq_iff)
  then have "length (map unat (i # free)) \<le> length ss"
    by (metis card_lessThan card_mono distinct_card finite_lessThan)
  then show ?thesis by simp
qed

lemma nth_list_update_unat:
  "unat i < length ss \<Longrightarrow> ss[unat i := s] ! unat j = (if i = j then s else ss ! unat j)"
  for i j :: u32
  by (auto simp: nth_list_update unat_eq_iff)

text \<open>Queueing a request on an active session sets the bit of its kind.\<close>

definition request_bit :: "mcon_io_uring_operation \<Rightarrow> nat" where
  "request_bit oper = (case oper of MCON_IO_SESSION_WRITE \<Rightarrow> 1 | MCON_IO_SESSION_CLOSE \<Rightarrow> 3 | _ \<Rightarrow> 0)"

lemma proto_inv_request:
  assumes inv: "proto_inv P free ss acc c" and i: "unat i < length ss"
    and oper: "oper \<in> {MCON_IO_SESSION_READ, MCON_IO_SESSION_WRITE, MCON_IO_SESSION_DRAIN,
      MCON_IO_SESSION_CLOSE}"
    and active: "socket_fd (ss ! unat i) \<noteq> -1"
    and idle: "\<not> bit (sess_state (ss ! unat i)) (request_bit oper)"
      "\<not> bit (sess_state (ss ! unat i)) 3"
      "oper = MCON_IO_SESSION_CLOSE \<Longrightarrow>
         \<not> bit (sess_state (ss ! unat i)) 0 \<and> \<not> bit (sess_state (ss ! unat i)) 1"
    and s': "socket_fd s' = socket_fd (ss ! unat i)"
      "\<And>b. bit (sess_state s') b \<longleftrightarrow> bit (sess_state (ss ! unat i)) b \<or> b = request_bit oper"
  shows "proto_inv (add_mset (io_entry oper i) P) free (ss[unat i := s']) acc c"
proof -
  have other: "session_ok (add_mset (io_entry oper i) P) free j (ss ! unat j)"
    if "unat j < length ss" "j \<noteq> i" for j
    using inv that by (auto simp: proto_inv_def session_ok_def)
  have "session_ok P free i (ss ! unat i)"
    using inv i by (auto simp: proto_inv_def)
  then have self: "session_ok (add_mset (io_entry oper i) P) free i s'"
    using oper active idle s' by (auto simp: session_ok_def request_bit_def)
  show ?thesis
    using inv i oper self other
    by (auto simp: proto_inv_def nth_list_update_unat session_entry_def)
qed

text \<open>Consuming a completion clears it.\<close>

lemma proto_inv_pending_bit:
  assumes "proto_inv P free ss acc c" "io_entry oper i \<in># P" "oper \<noteq> MCON_IO_SESSION_ACCEPT"
  shows "unat i < length ss \<and> bit (sess_state (ss ! unat i)) (request_bit oper) \<and>
    socket_fd (ss ! unat i) \<noteq> -1 \<and> count P (io_entry oper i) = 1"
proof -
  have entry: "session_entry (length ss) (io_entry oper i)"
    using assms by (auto simp: proto_inv_def)
  then have i: "unat i < length ss"
    by (simp add: session_entry_def)
  then have "session_ok P free i (ss ! unat i)"
    using assms(1) by (auto simp: proto_inv_def)
  moreover have "count P (io_entry oper i) \<noteq> 0"
    using assms(2) by (simp add: count_eq_zero_iff)
  ultimately show ?thesis
    using entry i unfolding session_entry_def session_ok_def request_bit_def
    by (auto simp: of_bool_def simp del: count_eq_zero_iff count_greater_zero_iff split: if_splits)
qed

lemma session_ok_cong:
  assumes "\<And>oper. count P (io_entry oper j) = count P' (io_entry oper j)"
    and "j \<in> set free \<longleftrightarrow> j \<in> set free'"
  shows "session_ok P free j s = session_ok P' free' j s"
  using assms by (simp add: session_ok_def)

lemma session_ok_other:
  assumes "proto_inv P free ss acc c" "unat j < length ss" "j \<noteq> i"
  shows "session_ok (P - {# io_entry oper i #}) free j (ss ! unat j)"
    "session_ok (P - {# io_entry oper i #}) (i # free) j (ss ! unat j)"
    "session_ok P (i # free) j (ss ! unat j)"
proof -
  have ok: "session_ok P free j (ss ! unat j)"
    using assms by (auto simp: proto_inv_def)
  show "session_ok (P - {# io_entry oper i #}) free j (ss ! unat j)"
    by (rule session_ok_cong [THEN iffD1, OF _ _ ok]) (use assms(3) in auto)
  show "session_ok (P - {# io_entry oper i #}) (i # free) j (ss ! unat j)"
    by (rule session_ok_cong [THEN iffD1, OF _ _ ok]) (use assms(3) in auto)
  show "session_ok P (i # free) j (ss ! unat j)"
    by (rule session_ok_cong [THEN iffD1, OF _ _ ok]) (use assms(3) in auto)
qed

lemma proto_inv_complete:
  assumes inv: "proto_inv P free ss acc c" and e: "io_entry oper i \<in># P"
    and oper: "oper \<in> {MCON_IO_SESSION_READ, MCON_IO_SESSION_WRITE, MCON_IO_SESSION_DRAIN}"
    and s': "socket_fd s' = socket_fd (ss ! unat i)"
      "\<And>b. bit (sess_state s') b \<longleftrightarrow> bit (sess_state (ss ! unat i)) b \<and> b \<noteq> request_bit oper"
  shows "proto_inv (P - {# io_entry oper i #}) free (ss[unat i := s']) acc c"
proof -
  have i: "unat i < length ss" and b: "bit (sess_state (ss ! unat i)) (request_bit oper)"
    and fd: "socket_fd (ss ! unat i) \<noteq> -1" and one: "count P (io_entry oper i) = 1"
    using proto_inv_pending_bit [OF inv e] oper by auto
  note other = session_ok_other(1) [OF inv, of _ i oper]
  have "session_ok P free i (ss ! unat i)"
    using inv i by (auto simp: proto_inv_def)
  then have self: "session_ok (P - {# io_entry oper i #}) free i s'"
    using oper
    by (elim insertE emptyE; hypsubst) (use b fd s' one in \<open>auto simp: session_ok_def request_bit_def\<close>)
  show ?thesis
    using inv i oper self other
    by (auto simp: proto_inv_def nth_list_update_unat dest: in_diffD)
qed

lemma proto_inv_close_complete:
  assumes inv: "proto_inv P free ss acc c" and e: "io_entry MCON_IO_SESSION_CLOSE i \<in># P"
    and s': "socket_fd s' = -1"
      "\<And>b. bit (sess_state s') b \<longleftrightarrow> bit (sess_state (ss ! unat i)) b \<and> b \<noteq> 3"
  shows "proto_inv (P - {# io_entry MCON_IO_SESSION_CLOSE i #}) (i # free) (ss[unat i := s']) acc c"
proof -
  let ?P = "P - {# io_entry MCON_IO_SESSION_CLOSE i #}"
  have i: "unat i < length ss" and b: "bit (sess_state (ss ! unat i)) 3"
    and fd: "socket_fd (ss ! unat i) \<noteq> -1"
    using proto_inv_pending_bit [OF inv e] by (auto simp: request_bit_def)
  have ok: "session_ok P free i (ss ! unat i)"
    using inv i by (auto simp: proto_inv_def)
  note other = session_ok_other(2) [OF inv, of _ i MCON_IO_SESSION_CLOSE]
  have self: "session_ok ?P (i # free) i s'"
    using ok b s' e by (auto simp: session_ok_def)
  show ?thesis
    using inv i self other ok fd
    by (auto simp: proto_inv_def nth_list_update_unat session_ok_def dest: in_diffD)
qed

text \<open>Releasing an idle session, marking one, and the accept requests.\<close>

lemma proto_inv_release:
  assumes inv: "proto_inv P free ss acc c" and i: "unat i < length ss"
    and fd: "socket_fd (ss ! unat i) \<noteq> -1"
    and idle: "\<not> bit (sess_state (ss ! unat i)) 0" "\<not> bit (sess_state (ss ! unat i)) 1"
      "\<not> bit (sess_state (ss ! unat i)) 3"
    and s': "socket_fd s' = -1" "sess_state s' = sess_state (ss ! unat i)"
  shows "proto_inv P (i # free) (ss[unat i := s']) acc c"
proof -
  have ok: "session_ok P free i (ss ! unat i)"
    using inv i by (auto simp: proto_inv_def)
  note other = session_ok_other(3) [OF inv, of _ i]
  have self: "session_ok P (i # free) i s'"
    using ok idle s' by (auto simp: session_ok_def)
  show ?thesis
    using inv i self other ok fd
    by (auto simp: proto_inv_def nth_list_update_unat session_ok_def)
qed

lemma proto_inv_mark:
  fixes i :: mcon_session_idx
  assumes inv: "proto_inv P free ss acc c" and i: "unat i < length ss"
    and s': "socket_fd s' = socket_fd (ss ! unat i)"
      "\<And>b. b \<noteq> 2 \<Longrightarrow> bit (sess_state s') b \<longleftrightarrow> bit (sess_state (ss ! unat i)) b"
  shows "proto_inv P free (ss[unat i := s']) acc c"
proof -
  have "session_ok P free i (ss ! unat i)"
    using inv i by (auto simp: proto_inv_def)
  then have "session_ok P free i s'"
    using s' by (auto simp: session_ok_def)
  then show ?thesis
    using inv i by (auto simp: proto_inv_def nth_list_update_unat)
qed

lemma session_ok_accept [simp]:
  "session_ok (add_mset accept_entry P) free i s = session_ok P free i s"
  "session_ok (P - {# accept_entry #}) free i s = session_ok P free i s"
  by (simp_all add: session_ok_def)

lemma proto_inv_request_accept:
  assumes inv: "proto_inv P free ss acc c"
    and room: "unat acc < length free" "ucast acc < cfg_max_live_accept_sqes c"
  shows "proto_inv (add_mset accept_entry P) free ss (acc + 1) c"
proof -
  have less: "unat acc < unat (cfg_max_live_accept_sqes c)"
    using room(2) by (simp add: word_less_nat_alt)
  moreover have "unat (cfg_max_live_accept_sqes c) < 65536"
    using inv by (auto simp: proto_inv_def intro: validated_bounds)
  ultimately have "unat (acc + 1) = Suc (unat acc)"
    by (simp add: unat_word_ariths)
  then show ?thesis
    using inv room(1) less by (auto simp: proto_inv_def)
qed

lemma proto_inv_accept_done:
  assumes inv: "proto_inv P free ss acc c" and e: "accept_entry \<in># P"
  shows "proto_inv (P - {# accept_entry #}) free ss (acc - 1) c \<and>
    unat (acc - 1) = unat acc - 1 \<and> 0 < unat acc \<and> unat acc \<le> length free"
proof -
  have "unat acc = count P accept_entry"
    using inv by (simp add: proto_inv_def)
  with e have pos: "0 < unat acc"
    by simp
  then have "unat (acc - 1) = unat acc - 1"
    by (intro unat_diff_one) auto
  with pos show ?thesis
    using inv by (auto simp: proto_inv_def dest: in_diffD)
qed

lemma proto_inv_open:
  assumes inv: "proto_inv P (i # free) ss acc c" and acc: "unat acc \<le> length free"
    and s': "socket_fd s' \<noteq> -1" "sess_state s' = 0"
  shows "proto_inv P free (ss[unat i := s']) acc c"
proof -
  have i: "unat i < length ss" and fresh: "i \<notin> set free"
    using inv by (auto simp: proto_inv_def)
  have ok: "session_ok P (i # free) i (ss ! unat i)"
    using inv i by (auto simp: proto_inv_def)
  have other: "session_ok P free j (ss ! unat j)" if "unat j < length ss" "j \<noteq> i" for j
    using inv that by (auto simp: proto_inv_def session_ok_def)
  have self: "session_ok P free i s'"
    using ok s' fresh by (auto simp: session_ok_def)
  show ?thesis
    using inv i self other acc by (auto simp: proto_inv_def nth_list_update_unat)
qed

subsection \<open>Pending requests under the operations of the libraries\<close>

lemma pending_frame [frame, simp]:
  "pending V (m\<lparr>sessions := ss\<rparr>) = pending V m"
  "pending V (m\<lparr>session_free_stack := fs\<rparr>) = pending V m"
  "pending V (m\<lparr>m_state := st\<rparr>) = pending V m"
  "pending V (m\<lparr>epoll_fd := fd\<rparr>) = pending V m"
  "pending V (m\<lparr>server_socket_fd := fd\<rparr>) = pending V m"
  by (simp_all add: pending_def)

lemma pending_push:
  assumes "libs_ok L V" "io_queue_push L (m_io_queue m) e k = (rc, q, k')"
  shows "pending V (m\<lparr>m_io_queue := q\<rparr>) = pending V m +
    (if rc = 0 then {# io_uring_entry_of_data (sqe_user_data e) #} else {#})"
  using ioq.push_waiting [OF assms] by (simp add: pending_def)

lemma pending_ring_same:
  "vw_sq V r = vw_sq V (ring m) \<Longrightarrow> vw_live V r = vw_live V (ring m) \<Longrightarrow>
   pending V (m\<lparr>ring := r\<rparr>) = pending V m"
  by (simp add: pending_def)

text \<open>Consuming a completion the ring has just reported.\<close>

lemma pending_seen:
  assumes "libs_ok L V" "ur_peek_cqe (urg L) r0 = (0, p, ring m)"
  shows "io_uring_entry_of_data (ur_cqe_data (urg L) (ring m) p) \<in># pending V m"
    "pending V (m\<lparr>ring := ur_cqe_seen (urg L) (ring m) p\<rparr>) =
       pending V m - {# io_uring_entry_of_data (ur_cqe_data (urg L) (ring m) p) #}"
proof -
  let ?d = "ur_cqe_data (urg L) (ring m) p"
  have live: "?d \<in># vw_live V (ring m)"
    using libs_peek_found(2) [OF assms] .
  then show "io_uring_entry_of_data ?d \<in># pending V m"
    by (auto simp: pending_def)
  obtain M where M: "vw_live V (ring m) = add_mset ?d M"
    using live by (metis mset_add)
  then show "pending V (m\<lparr>ring := ur_cqe_seen (urg L) (ring m) p\<rparr>) =
       pending V m - {# io_uring_entry_of_data ?d #}"
    using libs_peek_found(3,4) [OF assms] by (simp add: pending_def)
qed

lemma mcon_inv_config:
  "mcon_inv V m \<Longrightarrow> mcon_config_validate (configuration m)"
  "mcon_inv V m \<Longrightarrow> length (sessions m) = unat (cfg_session_count (configuration m))"
  by (auto simp: mcon_inv_def proto_inv_def)

lemma mcon_inv_index:
  "mcon_inv V m \<Longrightarrow> s < cfg_session_count (configuration m) \<longleftrightarrow> unat s < length (sessions m)"
  by (simp add: mcon_inv_config word_less_nat_alt)

lemma mcon_inv_free_le:
  "mcon_inv V m \<Longrightarrow> length (vw_items V (session_free_stack m)) \<le> length (sessions m)"
  by (auto simp: mcon_inv_def intro: proto_inv_free_bound)

text \<open>The number of active sessions the instance reports is the number of indices not free.\<close>

lemma active_count_eq:
  assumes "libs_ok L V" "mcon_inv V m"
  shows "unat (mcon_active_session_count L m) =
    length (sessions m) - length (vw_items V (session_free_stack m))"
proof -
  have le: "length (vw_items V (session_free_stack m)) \<le> length (sessions m)"
    using assms(2) by (auto simp: mcon_inv_def intro: proto_inv_free_bound)
  have n: "length (sessions m) = unat (cfg_session_count (configuration m))"
    using assms(2) by (rule mcon_inv_config)
  then have f: "unat (of_nat (length (vw_items V (session_free_stack m))) :: u32) =
      length (vw_items V (session_free_stack m))"
    using le unat_u32_bound [of "cfg_session_count (configuration m)"]
    by (simp add: unat_of_nat)
  then show ?thesis
    using le n
    by (simp add: mcon_active_session_count_def libs_size [OF assms(1)] unat_sub word_le_nat_alt)
qed

lemma mcon_inv_session:
  assumes "mcon_inv V m" "unat i < length (sessions m)"
  shows "session_ok (pending V m) (vw_items V (session_free_stack m)) i (sessions m ! unat i)"
  using assms by (auto simp: mcon_inv_def proto_inv_def)

lemma mcon_inv_free_iff:
  assumes "mcon_inv V m" "unat i < length (sessions m)"
  shows "i \<in> set (vw_items V (session_free_stack m)) \<longleftrightarrow> socket_fd (sessions m ! unat i) = -1"
  using mcon_inv_session [OF assms] by (simp add: session_ok_def)

lemma mcon_inv_frame [frame]:
  "mcon_inv V (mcon_complete_shutdown m) = mcon_inv V m"
  "mcon_inv V (m\<lparr>epoll_fd := fd\<rparr>) = mcon_inv V m"
  "mcon_inv V (m\<lparr>server_socket_fd := fd\<rparr>) = mcon_inv V m"
  by (simp_all add: mcon_inv_def mcon_complete_shutdown_def pending_def)

end
