(* ===== verification/Ref_Instance.thy ===== *)
theory Ref_Instance
  imports Instance_Invariant
begin

text \<open>
  A concrete instance for the witnesses: two sessions, the first free and the second active on socket
  7 with nothing pending, over the reference libraries, and kernels that answer every call alike.
\<close>

definition sample_config :: mcon_config where
  "sample_config = \<lparr>cfg_session_count = 2, cfg_io_queue_size = 8, cfg_io_uring_queue_size = 4,
     cfg_edge_triggered_client_events = False, cfg_max_live_accept_sqes = 1\<rparr>"

definition sample_state :: mcon_state where
  "sample_state = \<lparr>sqe_in_flight = 0, is_shutting_down = False, accepts_live = 0,
     accepts_requested = False\<rparr>"

type_synonym ref_mcon = "(nat \<times> u32 list, nat \<times> (nat \<Rightarrow> io_uring_sqe list), ref_ring) mcon"
type_synonym ref_world = "(nat \<times> u32 list, nat \<times> (nat \<Rightarrow> io_uring_sqe list), ref_ring) world"

definition sample_mcon :: ref_mcon where
  "sample_mcon = \<lparr>instance_id = 1, server_socket_fd = 3, epoll_fd = 4,
     configuration = sample_config,
     sessions = [session_init, \<lparr>socket_fd = 7, generation = 0, sess_state = 0\<rparr>],
     session_free_stack = (2, [0]),
     ring = ur_new ref_uring_ops 4,
     io_uring_eventfd = 5,
     m_io_queue = \<lparr>ioq_queue = (8, \<lambda>_. [])\<rparr>,
     m_state = sample_state\<rparr>"

definition sample_kernel :: "int \<Rightarrow> int \<Rightarrow> kernel" where
  "sample_kernel ret err = \<lparr>answers = (\<lambda>_ _. \<lparr>rv = ret, rerr = err, rout = 0\<rparr>), trace = [],
     errno = 0\<rparr>"

definition sample_world :: "int \<Rightarrow> int \<Rightarrow> ref_world" where
  "sample_world ret err = \<lparr>inst = sample_mcon, os = sample_kernel ret err,
     evbuf = replicate 4 \<lparr>ev_result = 0, ev_session = 0, ev_type = MCON_EVENT_NONE\<rparr>\<rparr>"

lemmas sample_defs = sample_config_def sample_state_def sample_mcon_def sample_kernel_def
  sample_world_def

lemma sample_world_sel [simp]:
  "inst (sample_world ret err) = sample_mcon" "os (sample_world ret err) = sample_kernel ret err"
  by (simp_all add: sample_world_def)

lemma unat_less_2: "unat i < 2 \<longleftrightarrow> i = 0 \<or> i = 1" for i :: u32
proof
  assume "unat i < 2"
  then have "unat i = unat (0 :: u32) \<or> unat i = unat (1 :: u32)" by auto
  then show "i = 0 \<or> i = 1" by (simp only: unat_eq_iff)
qed auto

lemma pending_sample: "pending ref_views sample_mcon = {#}"
  by (simp add: pending_def sample_mcon_def io_queue_waiting_def io_queue_contents_def ref_live_def
      concat_eq_Nil_conv)

lemma sample_inv: "mcon_inv ref_views sample_mcon"
  unfolding mcon_inv_def pending_sample proto_inv_def
  by (auto simp: sample_mcon_def sample_config_def sample_state_def session_init_def
      mcon_config_validate_def session_ok_def unat_less_2 unat_less_2 [unfolded numeral_2_eq_2])

end
