(* ===== verification/Session_Api.thy ===== *)
theory Session_Api
  imports Ref_Instance
begin

text \<open>
  The session operations of \<open>src/mcon/session.c\<close>: the argument check they share, the four that
  queue a request (read, write, drain, close), detach, and the two getters. The four requests share
  one contract, the locale \<open>session_request\<close>, interpreted once for each.
\<close>

subsection \<open>The argument check\<close>

text \<open>
  \<open>mcon_session_is_active\<close>: in its error branch the function of type \<open>bool\<close> returns \<open>-1\<close>,
  which converts to true.
\<close>

definition mcon_session_is_active ::
  "('s, 'q, 'r) mcon \<Rightarrow> mcon_session_idx \<Rightarrow> kernel \<Rightarrow> (bool \<times> kernel) option" where
  "mcon_session_is_active m session k =
     (if session \<ge> cfg_session_count (configuration m) then Some (True, set_errno EINVAL k)
      else do { s \<leftarrow> arr_get (sessions m) (unat session);
                Some (socket_fd s \<noteq> -1, k) })"

text \<open>The macro \<open>VALIDATE_ARGS\<close>: 0 when it falls through, \<open>-1\<close> when it returns.\<close>

definition VALIDATE_ARGS ::
  "('s, 'q, 'r) mcon \<Rightarrow> mcon_session_idx \<Rightarrow> u8 \<Rightarrow> kernel \<Rightarrow> (int \<times> kernel) option" where
  "VALIDATE_ARGS m session incompatible_states k =
     (if session \<ge> cfg_session_count (configuration m) then Some (-1, set_errno EINVAL k)
      else do { (active, k1) \<leftarrow> mcon_session_is_active m session k;
                if \<not> active then Some (-1, set_errno EBUSY k1)
                else do { s \<leftarrow> arr_get (sessions m) (unat session);
                          if sess_state s AND incompatible_states \<noteq> 0
                          then Some (-1, set_errno EBUSY k1)
                          else Some (0, k1) } })"

definition set_sqe_data ::
  "io_uring_sqe \<Rightarrow> mcon_session_idx \<Rightarrow> mcon_io_uring_operation \<Rightarrow> io_uring_sqe" where
  "set_sqe_data sqe session operation =
     sqe\<lparr>sqe_user_data :=
       io_uring_data_of_entry \<lparr>io_operation = operation, io_session = session\<rparr>\<rparr>"

subsection \<open>Queueing requests\<close>

definition mcon_session_read ::
  "('s, 'q, 'r) libs \<Rightarrow> ('s, 'q, 'r) world \<Rightarrow> mcon_session_idx \<Rightarrow> u64 \<Rightarrow> u32 \<Rightarrow>
   (int \<times> ('s, 'q, 'r) world) option" where
  "mcon_session_read L w session buf cnt =
     do { let m = inst w;
          (v, k) \<leftarrow> VALIDATE_ARGS m session
            (MCON_SESSION_STATE_READING OR MCON_SESSION_STATE_CLOSING) (os w);
          if v \<noteq> 0 then Some (-1, w\<lparr>os := k\<rparr>)
          else do { s \<leftarrow> arr_get (sessions m) (unat session);
                    let read_sqe = sqe_initialized\<lparr>sqe_request :=
                      Prep_read (socket_fd s) (Client_buffer buf) cnt 0\<rparr>;
                    let read_sqe = set_sqe_data read_sqe session MCON_IO_SESSION_READ;
                    let (rc, q, k1) = io_queue_push L (m_io_queue m) read_sqe k;
                    let m1 = m\<lparr>m_io_queue := q\<rparr>;
                    if rc \<noteq> 0 then Some (-1, w\<lparr>inst := m1, os := k1\<rparr>)
                    else do { m2 \<leftarrow> upd_session (\<lambda>s. s\<lparr>sess_state := sess_state s OR
                                MCON_SESSION_STATE_READING\<rparr>) session m1;
                              Some (0, w\<lparr>inst := m2, os := k1\<rparr>) } } }"

definition mcon_session_write ::
  "('s, 'q, 'r) libs \<Rightarrow> ('s, 'q, 'r) world \<Rightarrow> mcon_session_idx \<Rightarrow> u64 \<Rightarrow> u32 \<Rightarrow>
   (int \<times> ('s, 'q, 'r) world) option" where
  "mcon_session_write L w session buf cnt =
     do { let m = inst w;
          (v, k) \<leftarrow> VALIDATE_ARGS m session
            (MCON_SESSION_STATE_WRITING OR MCON_SESSION_STATE_CLOSING) (os w);
          if v \<noteq> 0 then Some (-1, w\<lparr>os := k\<rparr>)
          else do { s \<leftarrow> arr_get (sessions m) (unat session);
                    let write_sqe = sqe_initialized\<lparr>sqe_request :=
                      Prep_write (socket_fd s) (Client_buffer buf) cnt 0\<rparr>;
                    let write_sqe = set_sqe_data write_sqe session MCON_IO_SESSION_WRITE;
                    let (rc, q, k1) = io_queue_push L (m_io_queue m) write_sqe k;
                    let m1 = m\<lparr>m_io_queue := q\<rparr>;
                    if rc \<noteq> 0 then Some (-1, w\<lparr>inst := m1, os := k1\<rparr>)
                    else do { m2 \<leftarrow> upd_session (\<lambda>s. s\<lparr>sess_state := sess_state s OR
                                MCON_SESSION_STATE_WRITING\<rparr>) session m1;
                              Some (0, w\<lparr>inst := m2, os := k1\<rparr>) } } }"

definition mcon_session_drain ::
  "('s, 'q, 'r) libs \<Rightarrow> ('s, 'q, 'r) world \<Rightarrow> mcon_session_idx \<Rightarrow> u32 \<Rightarrow>
   (int \<times> ('s, 'q, 'r) world) option" where
  "mcon_session_drain L w session cnt =
     do { let m = inst w;
          (v, k) \<leftarrow> VALIDATE_ARGS m session
            (MCON_SESSION_STATE_READING OR MCON_SESSION_STATE_CLOSING) (os w);
          if v \<noteq> 0 then Some (-1, w\<lparr>os := k\<rparr>)
          else do { s \<leftarrow> arr_get (sessions m) (unat session);
                    let recv_sqe = sqe_initialized\<lparr>sqe_request :=
                      Prep_recv (socket_fd s) (Session_slot session) cnt MSG_TRUNC\<rparr>;
                    let recv_sqe = set_sqe_data recv_sqe session MCON_IO_SESSION_DRAIN;
                    let (rc, q, k1) = io_queue_push L (m_io_queue m) recv_sqe k;
                    let m1 = m\<lparr>m_io_queue := q\<rparr>;
                    if rc \<noteq> 0 then Some (-1, w\<lparr>inst := m1, os := k1\<rparr>)
                    else do { m2 \<leftarrow> upd_session (\<lambda>s. s\<lparr>sess_state := sess_state s OR
                                MCON_SESSION_STATE_READING\<rparr>) session m1;
                              Some (0, w\<lparr>inst := m2, os := k1\<rparr>) } } }"

definition mcon_session_close ::
  "('s, 'q, 'r) libs \<Rightarrow> ('s, 'q, 'r) world \<Rightarrow> mcon_session_idx \<Rightarrow>
   (int \<times> ('s, 'q, 'r) world) option" where
  "mcon_session_close L w session =
     do { let m = inst w;
          (v, k) \<leftarrow> VALIDATE_ARGS m session
            (MCON_SESSION_STATE_READING OR MCON_SESSION_STATE_WRITING OR
             MCON_SESSION_STATE_CLOSING) (os w);
          if v \<noteq> 0 then Some (-1, w\<lparr>os := k\<rparr>)
          else do { s \<leftarrow> arr_get (sessions m) (unat session);
                    let close_sqe = sqe_initialized\<lparr>sqe_request := Prep_close (socket_fd s)\<rparr>;
                    let close_sqe = set_sqe_data close_sqe session MCON_IO_SESSION_CLOSE;
                    let (rc, q, k1) = io_queue_push L (m_io_queue m) close_sqe k;
                    let m1 = m\<lparr>m_io_queue := q\<rparr>;
                    if rc \<noteq> 0 then Some (-1, w\<lparr>inst := m1, os := k1\<rparr>)
                    else do { m2 \<leftarrow> upd_session (\<lambda>s. s\<lparr>sess_state := sess_state s OR
                                MCON_SESSION_STATE_CLOSING\<rparr>) session m1;
                              Some (0, w\<lparr>inst := m2, os := k1\<rparr>) } } }"

subsection \<open>Detaching and the getter\<close>

definition mcon_session_detach ::
  "('s, 'q, 'r) libs \<Rightarrow> ('s, 'q, 'r) world \<Rightarrow> mcon_session_idx \<Rightarrow>
   (int \<times> ('s, 'q, 'r) world) option" where
  "mcon_session_detach L w session =
     do { let m = inst w;
          (v, k) \<leftarrow> VALIDATE_ARGS m session
            (MCON_SESSION_STATE_READING OR MCON_SESSION_STATE_WRITING OR
             MCON_SESSION_STATE_CLOSING) (os w);
          if v \<noteq> 0 then Some (-1, w\<lparr>os := k\<rparr>)
          else do {
            let (push_error, st1) = st_push (stk L) (session_free_stack m) session;
            let m1 = m\<lparr>session_free_stack := st1\<rparr>;
            if push_error \<noteq> 0 then Some (-1, w\<lparr>inst := m1, os := k\<rparr>)
            else do {
              s \<leftarrow> arr_get (sessions m1) (unat session);
              let (r, k1) = syscall (Epoll_ctl (epoll_fd m1) EPOLL_CTL_DEL (socket_fd s) None) k;
              if rv r \<noteq> 0 then
                (if errno k1 \<noteq> ENOENT then
                   (let (_, st2) = st_pop (stk L) st1
                    in Some (-1, w\<lparr>inst := m1\<lparr>session_free_stack := st2\<rparr>, os := k1\<rparr>))
                 else Some (-1, w\<lparr>inst := m1, os := k1\<rparr>))
              else do {
                m2 \<leftarrow> session_reset_after_close m1 session;
                let m3 = (if is_shutting_down (m_state m2) \<and> mcon_active_session_count L m2 = 0
                          then mcon_complete_shutdown m2 else m2);
                Some (0, w\<lparr>inst := m3, os := k1\<rparr>) } } } }"

definition mcon_session_get_socket ::
  "('s, 'q, 'r) mcon \<Rightarrow> mcon_session_idx \<Rightarrow> kernel \<Rightarrow> (int \<times> kernel) option" where
  "mcon_session_get_socket m session k =
     do { (v, k1) \<leftarrow> VALIDATE_ARGS m session 0 k;
          if v \<noteq> 0 then Some (-1, k1)
          else do { s \<leftarrow> arr_get (sessions m) (unat session);
                    Some (socket_fd s, k1) } }"

subsection \<open>The check, branch by branch\<close>

lemma VALIDATE_ARGS_range:
  "cfg_session_count (configuration m) \<le> s \<Longrightarrow>
   VALIDATE_ARGS m s msk k = Some (-1, set_errno EINVAL k)"
  by (simp add: VALIDATE_ARGS_def)

lemma VALIDATE_ARGS_busy:
  assumes "s < cfg_session_count (configuration m)" "unat s < length (sessions m)"
    and "socket_fd (sessions m ! unat s) = -1 \<or> sess_state (sessions m ! unat s) AND msk \<noteq> 0"
  shows "VALIDATE_ARGS m s msk k = Some (-1, set_errno EBUSY k)"
  using assms by (auto simp: VALIDATE_ARGS_def mcon_session_is_active_def not_le)

lemma VALIDATE_ARGS_pass:
  assumes "s < cfg_session_count (configuration m)" "unat s < length (sessions m)"
    and "socket_fd (sessions m ! unat s) \<noteq> -1" "sess_state (sessions m ! unat s) AND msk = 0"
  shows "VALIDATE_ARGS m s msk k = Some (0, k)"
  using assms by (auto simp: VALIDATE_ARGS_def mcon_session_is_active_def not_le)

subsection \<open>The contract the four requests share\<close>

text \<open>
  A request checks its argument, hands one entry to the queue and records it in the session's state
  byte. The parameters are the call, the states it refuses, the bit it sets, the operation its entry
  names and the request it prepares from the socket.
\<close>

definition request_sqe ::
  "sqe_request \<Rightarrow> mcon_session_idx \<Rightarrow> mcon_io_uring_operation \<Rightarrow> io_uring_sqe" where
  "request_sqe rq s oper = set_sqe_data (sqe_initialized\<lparr>sqe_request := rq\<rparr>) s oper"

locale session_request =
  fixes call :: "('s, 'q, 'r) libs \<Rightarrow> ('s, 'q, 'r) world \<Rightarrow> mcon_session_idx \<Rightarrow>
      (int \<times> ('s, 'q, 'r) world) option"
    and refused :: u8 and flag :: u8
    and oper :: mcon_io_uring_operation
    and prepared :: "int \<Rightarrow> mcon_session_idx \<Rightarrow> sqe_request"
  assumes out_of_range: "cfg_session_count (configuration (inst w)) \<le> s \<Longrightarrow>
      call L w s = Some (-1, w\<lparr>os := set_errno EINVAL (os w)\<rparr>)"
    and busy: "s < cfg_session_count (configuration (inst w)) \<Longrightarrow>
      unat s < length (sessions (inst w)) \<Longrightarrow>
      socket_fd (sessions (inst w) ! unat s) = -1 \<or>
        sess_state (sessions (inst w) ! unat s) AND refused \<noteq> 0 \<Longrightarrow>
      call L w s = Some (-1, w\<lparr>os := set_errno EBUSY (os w)\<rparr>)"
    and ready: "s < cfg_session_count (configuration (inst w)) \<Longrightarrow>
      unat s < length (sessions (inst w)) \<Longrightarrow>
      socket_fd (sessions (inst w) ! unat s) \<noteq> -1 \<Longrightarrow>
      sess_state (sessions (inst w) ! unat s) AND refused = 0 \<Longrightarrow>
      io_queue_push L (m_io_queue (inst w))
        (request_sqe (prepared (socket_fd (sessions (inst w) ! unat s)) s) s oper) (os w) =
        (rc, q, k) \<Longrightarrow>
      call L w s = Some (if rc \<noteq> 0 then (-1, w\<lparr>inst := (inst w)\<lparr>m_io_queue := q\<rparr>, os := k\<rparr>)
        else (0, w\<lparr>inst := (inst w)\<lparr>m_io_queue := q, sessions := (sessions (inst w))[unat s :=
          (sessions (inst w) ! unat s)\<lparr>sess_state :=
            sess_state (sessions (inst w) ! unat s) OR flag\<rparr>]\<rparr>, os := k\<rparr>))"
    and oper_kind: "oper \<in> {MCON_IO_SESSION_READ, MCON_IO_SESSION_WRITE, MCON_IO_SESSION_DRAIN,
      MCON_IO_SESSION_CLOSE}"
    and flag_bit: "bit (x OR flag) b \<longleftrightarrow> bit x b \<or> b = request_bit oper"
    and refused_bits: "x AND refused = 0 \<Longrightarrow> \<not> bit x (request_bit oper) \<and> \<not> bit x 3 \<and>
      (oper = MCON_IO_SESSION_CLOSE \<longrightarrow> \<not> bit x 0 \<and> \<not> bit x 1)"
    and refuses_itself: "bit x (request_bit oper) \<Longrightarrow> x AND refused \<noteq> 0"
begin

text \<open>A rejected call changes nothing but \<open>errno\<close>.\<close>

lemma rejected:
  assumes "mcon_inv V (inst w)"
    and "cfg_session_count (configuration (inst w)) \<le> s \<or>
      socket_fd (sessions (inst w) ! unat s) = -1 \<or>
      sess_state (sessions (inst w) ! unat s) AND refused \<noteq> 0"
  shows "\<exists>e. call L w s = Some (-1, w\<lparr>os := set_errno e (os w)\<rparr>) \<and>
    e = (if cfg_session_count (configuration (inst w)) \<le> s then EINVAL else EBUSY)"
  using assms out_of_range [of w s L] busy [of s w L] mcon_inv_index [OF assms(1), of s]
  by (cases "cfg_session_count (configuration (inst w)) \<le> s") (auto simp: not_le)

text \<open>An accepted call: one more pending request, one more bit.\<close>

lemma accepted:
  assumes laws: "libs_ok L V" and inv: "mcon_inv V (inst w)"
    and s: "s < cfg_session_count (configuration (inst w))"
    and active: "socket_fd (sessions (inst w) ! unat s) \<noteq> -1"
    and idle: "sess_state (sessions (inst w) ! unat s) AND refused = 0"
  obtains rc w' where "call L w s = Some (rc, w')" "mcon_inv V (inst w')" "rc = 0 \<or> rc = -1"
    "answers (os w') = answers (os w)" "evbuf w' = evbuf w" "trace (os w') = trace (os w)"
    "configuration (inst w') = configuration (inst w)"
    "pending V (inst w') = pending V (inst w) + (if rc = 0 then {# io_entry oper s #} else {#})"
    "sessions (inst w') = (if rc = 0
       then (sessions (inst w))[unat s := (sessions (inst w) ! unat s)\<lparr>sess_state :=
         sess_state (sessions (inst w) ! unat s) OR flag\<rparr>]
       else sessions (inst w))"
proof -
  let ?m = "inst w" and ?s = "sessions (inst w) ! unat s"
  let ?e = "request_sqe (prepared (socket_fd ?s) s) s oper"
  obtain rc q k where push: "io_queue_push L (m_io_queue ?m) ?e (os w) = (rc, q, k)"
    by (cases "io_queue_push L (m_io_queue ?m) ?e (os w)")
  have idx: "unat s < length (sessions ?m)"
    using s mcon_inv_index [OF inv] by simp
  note run = ready [OF s idx active idle push]
  have entry: "io_uring_entry_of_data (sqe_user_data ?e) = io_entry oper s"
    using oper_kind unfolding request_sqe_def set_sqe_data_def io_entry_def [symmetric]
    by (auto intro!: io_codec.dec_enc simp: io_entry_proper_def operation_of_code_def)
  have pend: "pending V (?m\<lparr>m_io_queue := q\<rparr>) =
      pending V ?m + (if rc = 0 then {# io_entry oper s #} else {#})"
    using pending_push [OF laws push] by (simp add: entry)
  have kern: "answers k = answers (os w)" "trace k = trace (os w)"
    using io_queue_push_kernel [OF push] by auto
  let ?ss = "(sessions ?m)[unat s := ?s\<lparr>sess_state := sess_state ?s OR flag\<rparr>]"
  have pend': "pending V (?m\<lparr>m_io_queue := q, sessions := ?ss\<rparr>) = pending V (?m\<lparr>m_io_queue := q\<rparr>)"
    by (simp add: pending_def)
  show ?thesis
  proof (cases "rc = 0")
    case False
    then have "mcon_inv V (?m\<lparr>m_io_queue := q\<rparr>)"
      using inv pend by (simp add: mcon_inv_def)
    with False show ?thesis
      using run pend kern
      by (intro that [of "-1" "w\<lparr>inst := ?m\<lparr>m_io_queue := q\<rparr>, os := k\<rparr>"]) auto
  next
    case True
    have "mcon_inv V (?m\<lparr>m_io_queue := q, sessions := ?ss\<rparr>)"
      using inv pend pend' True idx active refused_bits [OF idle] oper_kind flag_bit
      by (auto simp: mcon_inv_def intro!: proto_inv_request)
    with True show ?thesis
      using run pend pend' kern
      by (intro that [of 0 "w\<lparr>inst := ?m\<lparr>m_io_queue := q, sessions := ?ss\<rparr>, os := k\<rparr>"]) auto
  qed
qed

text \<open>Every call returns and keeps the invariant.\<close>

lemma keeps_inv:
  assumes "libs_ok L V" "mcon_inv V (inst w)"
  shows "\<exists>rc w'. call L w s = Some (rc, w') \<and> mcon_inv V (inst w') \<and>
    answers (os w') = answers (os w) \<and> evbuf w' = evbuf w \<and>
    configuration (inst w') = configuration (inst w)"
proof (cases "cfg_session_count (configuration (inst w)) \<le> s \<or>
      socket_fd (sessions (inst w) ! unat s) = -1 \<or>
      sess_state (sessions (inst w) ! unat s) AND refused \<noteq> 0")
  case True
  from rejected [OF assms(2) this] assms(2) show ?thesis by auto
next
  case False
  then show ?thesis
    using accepted [OF assms] by (metis not_le)
qed

text \<open>What an accepted call was given, and the state it leaves.\<close>

lemma accepted_inversion:
  assumes laws: "libs_ok L V" and inv: "mcon_inv V (inst w)" and run: "call L w s = Some (0, w')"
  shows "s < cfg_session_count (configuration (inst w)) \<and>
    socket_fd (sessions (inst w) ! unat s) \<noteq> -1 \<and>
    sess_state (sessions (inst w) ! unat s) AND refused = 0 \<and>
    mcon_inv V (inst w') \<and> trace (os w') = trace (os w) \<and> evbuf w' = evbuf w \<and>
    configuration (inst w') = configuration (inst w) \<and>
    pending V (inst w') = add_mset (io_entry oper s) (pending V (inst w)) \<and>
    sessions (inst w') = (sessions (inst w))[unat s := (sessions (inst w) ! unat s)\<lparr>sess_state :=
      sess_state (sessions (inst w) ! unat s) OR flag\<rparr>]"
proof -
  have ok: "s < cfg_session_count (configuration (inst w))"
    "socket_fd (sessions (inst w) ! unat s) \<noteq> -1"
    "sess_state (sessions (inst w) ! unat s) AND refused = 0"
    using rejected [OF inv, of s L] run by (auto simp flip: not_le)
  show ?thesis
    by (rule accepted [OF laws inv ok]) (use run ok in \<open>auto\<close>)
qed

lemma accepted_marks:
  assumes laws: "libs_ok L V" and inv: "mcon_inv V (inst w)" and run: "call L w s = Some (0, w')"
  shows "mcon_inv V (inst w') \<and> s < cfg_session_count (configuration (inst w')) \<and>
    socket_fd (sessions (inst w') ! unat s) \<noteq> -1 \<and>
    bit (sess_state (sessions (inst w') ! unat s)) (request_bit oper)"
  using accepted_inversion [OF assms] mcon_inv_index [OF inv, of s] by (simp add: flag_bit)

text \<open>After an accepted call the same call is refused until the completion is processed.\<close>

lemma second_refused:
  assumes "libs_ok L V" "mcon_inv V (inst w)" "call L w s = Some (0, w')"
  shows "call L w' s = Some (-1, w'\<lparr>os := set_errno EBUSY (os w')\<rparr>)"
proof -
  note m = accepted_marks [OF assms]
  have "sess_state (sessions (inst w') ! unat s) AND refused \<noteq> 0"
    using m by (intro refuses_itself) simp
  then show ?thesis
    using m mcon_inv_index [of V "inst w'" s] by (intro busy) auto
qed

end

lemmas request_defs = mcon_session_read_def mcon_session_write_def mcon_session_drain_def
  mcon_session_close_def request_sqe_def

interpretation rd: session_request "\<lambda>L w s. mcon_session_read L w s buf cnt" 9 1
    MCON_IO_SESSION_READ "\<lambda>fd s. Prep_read fd (Client_buffer buf) cnt 0" for buf cnt
  by unfold_locales
    (auto simp: request_defs VALIDATE_ARGS_range VALIDATE_ARGS_busy VALIDATE_ARGS_pass
      request_bit_def bit_facts Let_def)

interpretation wr: session_request "\<lambda>L w s. mcon_session_write L w s buf cnt" 10 2
    MCON_IO_SESSION_WRITE "\<lambda>fd s. Prep_write fd (Client_buffer buf) cnt 0" for buf cnt
  by unfold_locales
    (auto simp: request_defs VALIDATE_ARGS_range VALIDATE_ARGS_busy VALIDATE_ARGS_pass
      request_bit_def bit_facts Let_def)

interpretation dr: session_request "\<lambda>L w s. mcon_session_drain L w s cnt" 9 1
    MCON_IO_SESSION_DRAIN "\<lambda>fd s. Prep_recv fd (Session_slot s) cnt MSG_TRUNC" for cnt
  by unfold_locales
    (auto simp: request_defs VALIDATE_ARGS_range VALIDATE_ARGS_busy VALIDATE_ARGS_pass
      request_bit_def bit_facts Let_def)

interpretation cl: session_request mcon_session_close 11 8
    MCON_IO_SESSION_CLOSE "\<lambda>fd s. Prep_close fd"
  by unfold_locales
    (auto simp: request_defs VALIDATE_ARGS_range VALIDATE_ARGS_busy VALIDATE_ARGS_pass
      request_bit_def bit_facts Let_def)

subsection \<open>Detaching\<close>

lemma detach_rejected:
  assumes "mcon_inv V (inst w)"
    and "cfg_session_count (configuration (inst w)) \<le> s \<or>
      socket_fd (sessions (inst w) ! unat s) = -1 \<or>
      sess_state (sessions (inst w) ! unat s) AND 11 \<noteq> 0"
  shows "mcon_session_detach L w s = Some (-1, w\<lparr>os := set_errno
    (if cfg_session_count (configuration (inst w)) \<le> s then EINVAL else EBUSY) (os w)\<rparr>)"
  using assms mcon_inv_index [OF assms(1), of s]
  by (cases "cfg_session_count (configuration (inst w)) \<le> s")
    (auto simp: mcon_session_detach_def VALIDATE_ARGS_range VALIDATE_ARGS_busy not_le Let_def)

lemma detach_push:
  assumes laws: "libs_ok L V" and inv: "mcon_inv V m"
    and s: "unat s < length (sessions m)" and active: "socket_fd (sessions m ! unat s) \<noteq> -1"
  obtains st where "st_push (stk L) (session_free_stack m) s = (0, st)"
    "vw_items V st = s # vw_items V (session_free_stack m)"
    "vw_cap V st = vw_cap V (session_free_stack m)"
proof -
  obtain rc st where push: "st_push (stk L) (session_free_stack m) s = (rc, st)" by force
  have "s \<notin> set (vw_items V (session_free_stack m))"
    using mcon_inv_free_iff [OF inv s] active by simp
  then have "length (vw_items V (session_free_stack m)) < vw_cap V (session_free_stack m)"
    using inv s proto_inv_room by (auto simp: mcon_inv_def)
  from libs_push_room [OF laws push this] push show ?thesis
    by (intro that [of st]) auto
qed

lemma detach_runs:
  assumes laws: "libs_ok L V" and inv: "mcon_inv V (inst w)"
    and s: "s < cfg_session_count (configuration (inst w))"
    and active: "socket_fd (sessions (inst w) ! unat s) \<noteq> -1"
    and idle: "sess_state (sessions (inst w) ! unat s) AND 11 = 0"
  defines "call \<equiv> Epoll_ctl (epoll_fd (inst w)) EPOLL_CTL_DEL
      (socket_fd (sessions (inst w) ! unat s)) None"
  defines "r \<equiv> answer (os w) call"
  obtains w' st where "mcon_session_detach L w s = Some (if rv r = 0 then 0 else -1, w')"
    and "os w' = (os w)\<lparr>trace := trace (os w) @ [(call, r)],
        errno := (if rv r < 0 then rerr r else errno (os w))\<rparr>" "evbuf w' = evbuf w"
    and "vw_cap V st = vw_cap V (session_free_stack (inst w))"
    and "vw_items V st = (if rv r \<noteq> 0 \<and> errno (os w') \<noteq> ENOENT then [] else [s]) @
        vw_items V (session_free_stack (inst w))"
    and "rv r \<noteq> 0 \<Longrightarrow> inst w' = (inst w)\<lparr>session_free_stack := st\<rparr>"
    and "rv r = 0 \<Longrightarrow> \<exists>m. inst w' = (if is_shutting_down (m_state m) \<and>
          mcon_active_session_count L m = 0 then mcon_complete_shutdown m else m) \<and>
        m = (inst w)\<lparr>session_free_stack := st, sessions := (sessions (inst w))[unat s :=
          (sessions (inst w) ! unat s)\<lparr>socket_fd := -1,
             generation := next_generation (generation (sessions (inst w) ! unat s))\<rparr>]\<rparr>"
proof -
  let ?m = "inst w"
  have idx: "unat s < length (sessions ?m)"
    using s mcon_inv_index [OF inv] by simp
  obtain st where push: "st_push (stk L) (session_free_stack ?m) s = (0, st)"
    and st: "vw_items V st = s # vw_items V (session_free_stack ?m)"
      "vw_cap V st = vw_cap V (session_free_stack ?m)"
    by (rule detach_push [OF laws inv idx active])
  obtain res st2 where pop: "st_pop (stk L) st = (res, st2)" by force
  have st2: "vw_items V st2 = vw_items V (session_free_stack ?m)"
    "vw_cap V st2 = vw_cap V (session_free_stack ?m)"
    using libs_pop [OF laws pop] st by auto
  let ?k = "(os w)\<lparr>trace := trace (os w) @ [(call, r)],
        errno := (if rv r < 0 then rerr r else errno (os w))\<rparr>"
  note run = mcon_session_detach_def VALIDATE_ARGS_pass [OF s idx active] idle push pop rt_simps
    call_def [symmetric] r_def [symmetric] session_reset_after_close_def
  consider "rv r = 0" | "rv r \<noteq> 0" "errno ?k = ENOENT" | "rv r \<noteq> 0" "errno ?k \<noteq> ENOENT" by blast
  then show ?thesis
  proof cases
    case 1
    let ?m1 = "?m\<lparr>session_free_stack := st, sessions := (sessions ?m)[unat s :=
          (sessions ?m ! unat s)\<lparr>socket_fd := -1,
             generation := next_generation (generation (sessions ?m ! unat s))\<rparr>]\<rparr>"
    show ?thesis
      by (rule that [of "w\<lparr>inst := (if is_shutting_down (m_state ?m1) \<and>
          mcon_active_session_count L ?m1 = 0 then mcon_complete_shutdown ?m1 else ?m1),
          os := ?k\<rparr>" st])
        (use 1 idx in \<open>simp_all add: run st Let_def\<close>)
  next
    case 2
    show ?thesis
      by (rule that [of "w\<lparr>inst := ?m\<lparr>session_free_stack := st\<rparr>, os := ?k\<rparr>" st])
        (use 2 idx in \<open>simp_all add: run st Let_def split: if_splits\<close>)
  next
    case 3
    show ?thesis
      by (rule that [of "w\<lparr>inst := ?m\<lparr>session_free_stack := st2\<rparr>, os := ?k\<rparr>" st2])
        (use 3 idx in \<open>simp_all add: run st2 Let_def split: if_splits\<close>)
  qed
qed

text \<open>Detaching keeps the invariant unless it fails with \<open>ENOENT\<close>.\<close>

lemma detach_keeps_inv:
  assumes laws: "libs_ok L V" and inv: "mcon_inv V (inst w)"
  shows "\<exists>rc w'. mcon_session_detach L w s = Some (rc, w') \<and>
    (rc = 0 \<or> errno (os w') \<noteq> ENOENT \<longrightarrow> mcon_inv V (inst w')) \<and>
    answers (os w') = answers (os w) \<and> evbuf w' = evbuf w \<and>
    configuration (inst w') = configuration (inst w)"
proof (cases "cfg_session_count (configuration (inst w)) \<le> s \<or>
      socket_fd (sessions (inst w) ! unat s) = -1 \<or>
      sess_state (sessions (inst w) ! unat s) AND 11 \<noteq> 0")
  case True
  from detach_rejected [OF inv this, of L] inv show ?thesis by simp
next
  case False
  then have ok: "s < cfg_session_count (configuration (inst w))"
    "socket_fd (sessions (inst w) ! unat s) \<noteq> -1"
    "sess_state (sessions (inst w) ! unat s) AND 11 = 0"
    by (auto simp flip: not_le)
  have idx: "unat s < length (sessions (inst w))"
    using ok(1) mcon_inv_index [OF inv] by simp
  show ?thesis
  proof (rule detach_runs [OF laws inv ok], goal_cases)
    case (1 w' st)
    let ?r = "answer (os w) (Epoll_ctl (epoll_fd (inst w)) EPOLL_CTL_DEL
      (socket_fd (sessions (inst w) ! unat s)) None)"
    have "mcon_inv V (inst w')" if clean: "rv ?r = 0 \<or> errno (os w') \<noteq> ENOENT"
    proof (cases "rv ?r = 0")
      case True
      from 1(7) [OF True] obtain m where m: "inst w' = (if is_shutting_down (m_state m) \<and>
          mcon_active_session_count L m = 0 then mcon_complete_shutdown m else m)"
        "m = (inst w)\<lparr>session_free_stack := st, sessions := (sessions (inst w))[unat s :=
          (sessions (inst w) ! unat s)\<lparr>socket_fd := -1,
             generation := next_generation (generation (sessions (inst w) ! unat s))\<rparr>]\<rparr>"
        by blast
      have "mcon_inv V m"
        using inv 1(4,5) True ok idx
        by (auto simp: mcon_inv_def m(2) bit_facts pending_def [where m = "_\<lparr>sessions := _\<rparr>"]
            simp flip: pending_def [of V "inst w"] intro!: proto_inv_release)
      then show ?thesis by (simp add: m(1) frame)
    next
      case False
      with clean 1(5) have "vw_items V st = vw_items V (session_free_stack (inst w))"
        by simp
      then show ?thesis
        using inv 1(4) 1(6) [OF False] by (simp add: mcon_inv_def)
    qed
    moreover have "configuration (inst w') = configuration (inst w)"
      using 1(6,7) by (cases "rv ?r = 0") (auto simp: mcon_complete_shutdown_def)
    ultimately show ?case
      using 1(1-3) by (intro exI [of _ "if rv ?r = 0 then 0 else -1"] exI [of _ w']) simp
  qed
qed

subsection \<open>The four requests as one family\<close>

datatype request = Request_read u64 u32 | Request_write u64 u32 | Request_drain u32 | Request_close

fun run_request ::
  "('s, 'q, 'r) libs \<Rightarrow> ('s, 'q, 'r) world \<Rightarrow> mcon_session_idx \<Rightarrow> request \<Rightarrow>
   (int \<times> ('s, 'q, 'r) world) option" where
  "run_request L w s (Request_read buf cnt) = mcon_session_read L w s buf cnt"
| "run_request L w s (Request_write buf cnt) = mcon_session_write L w s buf cnt"
| "run_request L w s (Request_drain cnt) = mcon_session_drain L w s cnt"
| "run_request L w s Request_close = mcon_session_close L w s"

fun request_operation :: "request \<Rightarrow> mcon_io_uring_operation" where
  "request_operation (Request_read buf cnt) = MCON_IO_SESSION_READ"
| "request_operation (Request_write buf cnt) = MCON_IO_SESSION_WRITE"
| "request_operation (Request_drain cnt) = MCON_IO_SESSION_DRAIN"
| "request_operation Request_close = MCON_IO_SESSION_CLOSE"

fun request_flag :: "request \<Rightarrow> u8" where
  "request_flag (Request_read buf cnt) = MCON_SESSION_STATE_READING"
| "request_flag (Request_write buf cnt) = MCON_SESSION_STATE_WRITING"
| "request_flag (Request_drain cnt) = MCON_SESSION_STATE_READING"
| "request_flag Request_close = MCON_SESSION_STATE_CLOSING"

lemma run_request_keeps_inv:
  assumes "libs_ok L V" "mcon_inv V (inst w)"
  shows "\<exists>rc w'. run_request L w s c = Some (rc, w') \<and> mcon_inv V (inst w') \<and>
    answers (os w') = answers (os w) \<and> evbuf w' = evbuf w \<and>
    configuration (inst w') = configuration (inst w)"
  using rd.keeps_inv [OF assms] wr.keeps_inv [OF assms] dr.keeps_inv [OF assms]
    cl.keeps_inv [OF assms]
  by (cases c) auto

subsection \<open>Properties\<close>

text \<open>C13. An accepted request on session \<open>s\<close> adds exactly one pending request, for that session and
  operation, sets exactly the operation's bit in its state byte, leaves every other session alone
  and makes no call to the kernel.\<close>

theorem accepted_request_recorded:
  assumes "libs_ok L V" "mcon_inv V (inst w)" "run_request L w s c = Some (0, w')"
  shows "pending V (inst w') = add_mset (io_entry (request_operation c) s) (pending V (inst w)) \<and>
    sessions (inst w') = (sessions (inst w))[unat s := (sessions (inst w) ! unat s)\<lparr>sess_state :=
      sess_state (sessions (inst w) ! unat s) OR request_flag c\<rparr>] \<and>
    trace (os w') = trace (os w)"
  using assms(3) rd.accepted_inversion [OF assms(1,2)] wr.accepted_inversion [OF assms(1,2)]
    dr.accepted_inversion [OF assms(1,2)] cl.accepted_inversion [OF assms(1,2)]
  by (cases c) auto

lemma sample_request_accepted:
  "\<exists>w'. run_request ref_libs (sample_world r e) 1 c = Some (0, w')"
proof -
  have s: "(1 :: u32) < cfg_session_count (configuration sample_mcon)"
    "unat (1 :: u32) < length (sessions sample_mcon)"
    "socket_fd (sessions sample_mcon ! unat (1 :: u32)) \<noteq> -1"
    "sess_state (sessions sample_mcon ! unat (1 :: u32)) = 0"
    by (simp_all add: sample_mcon_def sample_config_def)
  have push: "\<exists>q. io_queue_push ref_libs (m_io_queue sample_mcon)
      (request_sqe rq i oper) (sample_kernel r e) = (0, q, sample_kernel r e)"
    if "oper \<in> {MCON_IO_SESSION_READ, MCON_IO_SESSION_WRITE, MCON_IO_SESSION_DRAIN,
      MCON_IO_SESSION_CLOSE}" for rq i oper
    using that
    by (auto simp: io_queue_push_def request_sqe_def set_sqe_data_def io_codec.dec_enc
        io_entry_proper_def operation_of_code_def ref_kqueue_ops_def sample_mcon_def Let_def)
  show ?thesis
    using rd.ready [of 1 "sample_world r e"] wr.ready [of 1 "sample_world r e"]
      dr.ready [of 1 "sample_world r e"] cl.ready [of 1 "sample_world r e"] s
      push [of MCON_IO_SESSION_READ] push [of MCON_IO_SESSION_WRITE]
      push [of MCON_IO_SESSION_DRAIN] push [of MCON_IO_SESSION_CLOSE]
    by (cases c) fastforce+
qed

theorem accepted_request_recorded_witness:
  "\<exists>w'. run_request ref_libs (sample_world 0 0) 1 (Request_read 4096 16) = Some (0, w') \<and>
    pending ref_views (inst w') = {# io_entry MCON_IO_SESSION_READ 1 #}"
proof -
  obtain w' where w': "run_request ref_libs (sample_world 0 0) 1 (Request_read 4096 16) = Some (0, w')"
    using sample_request_accepted by blast
  have inv: "mcon_inv ref_views (inst (sample_world 0 0))"
    by (simp add: sample_inv)
  from accepted_request_recorded [OF ref_libs_ok inv w'] w' show ?thesis
    by (simp add: pending_sample)
qed

text \<open>While a read or a drain of a session is pending, a further read, drain, close or detach of
  that session is refused with \<open>EBUSY\<close> and changes nothing else.\<close>

theorem pending_read_excludes:
  assumes "libs_ok L V" "mcon_inv V (inst w)"
    and "c = Request_read buf cnt \<or> c = Request_drain cnt" "run_request L w s c = Some (0, w')"
  defines "refusal \<equiv> Some (-1, w'\<lparr>os := set_errno EBUSY (os w')\<rparr>)"
  shows "mcon_session_read L w' s buf' cnt' = refusal \<and> mcon_session_drain L w' s cnt' = refusal \<and>
    mcon_session_close L w' s = refusal \<and> mcon_session_detach L w' s = refusal"
proof -
  have m: "mcon_inv V (inst w')" "s < cfg_session_count (configuration (inst w'))"
    "bit (sess_state (sessions (inst w') ! unat s)) 0"
    using assms(3,4) rd.accepted_marks [OF assms(1,2)] dr.accepted_marks [OF assms(1,2)]
    by (auto simp: request_bit_def)
  show ?thesis
    unfolding refusal_def
    using rd.rejected [OF m(1), of s L] dr.rejected [OF m(1), of s L] cl.rejected [OF m(1), of s L]
      detach_rejected [OF m(1), of s L] m(2,3)
    by (auto simp: bit_facts not_le [symmetric])
qed

theorem pending_read_excludes_witness:
  "\<exists>w'. mcon_session_read ref_libs (sample_world 0 0) 1 4096 16 = Some (0, w') \<and>
    mcon_session_close ref_libs w' 1 = Some (-1, w'\<lparr>os := set_errno EBUSY (os w')\<rparr>)"
proof -
  obtain w' where w': "run_request ref_libs (sample_world 0 0) 1 (Request_read 4096 16) = Some (0, w')"
    using sample_request_accepted by blast
  have inv: "mcon_inv ref_views (inst (sample_world 0 0))"
    by (simp add: sample_inv)
  from pending_read_excludes [OF ref_libs_ok inv _ w', of 4096 16] w' show ?thesis by simp
qed

text \<open>Once a close of a session is queued, every further operation on the session is refused with
  \<open>EBUSY\<close> until the close completes.\<close>

theorem pending_close_excludes_all:
  assumes "libs_ok L V" "mcon_inv V (inst w)" "mcon_session_close L w s = Some (0, w')"
  defines "refusal \<equiv> Some (-1, w'\<lparr>os := set_errno EBUSY (os w')\<rparr>)"
  shows "run_request L w' s c = refusal \<and> mcon_session_detach L w' s = refusal"
proof -
  have m: "mcon_inv V (inst w')" "s < cfg_session_count (configuration (inst w'))"
    "bit (sess_state (sessions (inst w') ! unat s)) 3"
    using cl.accepted_marks [OF assms(1-3)] by (auto simp: request_bit_def)
  show ?thesis
    unfolding refusal_def
    using rd.rejected [OF m(1), of s L] wr.rejected [OF m(1), of s L] dr.rejected [OF m(1), of s L]
      cl.rejected [OF m(1), of s L] detach_rejected [OF m(1), of s L] m(2,3)
    by (cases c) (auto simp: bit_facts not_le [symmetric])
qed

theorem pending_close_excludes_all_witness:
  "\<exists>w'. mcon_session_close ref_libs (sample_world 0 0) 1 = Some (0, w') \<and>
    mcon_session_close ref_libs w' 1 = Some (-1, w'\<lparr>os := set_errno EBUSY (os w')\<rparr>)"
proof -
  obtain w' where w': "mcon_session_close ref_libs (sample_world 0 0) 1 = Some (0, w')"
    using sample_request_accepted [of 0 0 Request_close] by auto
  have inv: "mcon_inv ref_views (inst (sample_world 0 0))"
    by (simp add: sample_inv)
  from pending_close_excludes_all [OF ref_libs_ok inv w', of Request_close] w' show ?thesis by simp
qed

text \<open>On an inactive session every operation returns \<open>-1\<close> with \<open>EBUSY\<close>, and on an index beyond the
  configured sessions with \<open>EINVAL\<close>; nothing but \<open>errno\<close> changes.\<close>

theorem unusable_sessions_refuse:
  assumes "mcon_inv V (inst w)"
    and "cfg_session_count (configuration (inst w)) \<le> s \<or>
      socket_fd (sessions (inst w) ! unat s) = -1"
  defines "e \<equiv> (if cfg_session_count (configuration (inst w)) \<le> s then EINVAL else EBUSY)"
  shows "run_request L w s c = Some (-1, w\<lparr>os := set_errno e (os w)\<rparr>) \<and>
    mcon_session_detach L w s = Some (-1, w\<lparr>os := set_errno e (os w)\<rparr>) \<and>
    mcon_session_get_socket (inst w) s k = Some (-1, set_errno e k)"
proof -
  have "mcon_session_get_socket (inst w) s k = Some (-1, set_errno e k)"
    using assms(2) mcon_inv_index [OF assms(1), of s]
      VALIDATE_ARGS_range [of "inst w" s 0 k] VALIDATE_ARGS_busy [of s "inst w" 0 k]
    unfolding e_def mcon_session_get_socket_def
    by (cases "cfg_session_count (configuration (inst w)) \<le> s") (auto simp flip: not_le)
  moreover have "run_request L w s c = Some (-1, w\<lparr>os := set_errno e (os w)\<rparr>)"
    unfolding e_def
    using assms(2) rd.rejected [OF assms(1), of s L] wr.rejected [OF assms(1), of s L]
      dr.rejected [OF assms(1), of s L] cl.rejected [OF assms(1), of s L]
    by (cases c) auto
  moreover have "mcon_session_detach L w s = Some (-1, w\<lparr>os := set_errno e (os w)\<rparr>)"
    unfolding e_def using assms(2) detach_rejected [OF assms(1), of s L] by blast
  ultimately show ?thesis by blast
qed

theorem unusable_sessions_refuse_witness:
  "mcon_session_close ref_libs (sample_world 0 0) 0 =
    Some (-1, (sample_world 0 0)\<lparr>os := set_errno EBUSY (sample_kernel 0 0)\<rparr>)"
proof -
  have inv: "mcon_inv ref_views (inst (sample_world 0 0))"
    by (simp add: sample_inv)
  have "socket_fd (sessions (inst (sample_world 0 0)) ! unat (0 :: u32)) = -1"
    "\<not> cfg_session_count (configuration (inst (sample_world 0 0))) \<le> 0"
    by (simp_all add: sample_mcon_def sample_config_def session_init_def)
  then show ?thesis
    using unusable_sessions_refuse [OF inv, of 0 ref_libs Request_close] by simp
qed

text \<open>C21. Detaching an idle active session takes its socket out of the interest list, without closing
  it, and makes the session free under the next generation; no other session and no pending request
  is touched.\<close>

theorem detach_frees_session:
  assumes "libs_ok L V" "mcon_inv V (inst w)" "s < cfg_session_count (configuration (inst w))"
    and "socket_fd (sessions (inst w) ! unat s) \<noteq> -1"
    and "sess_state (sessions (inst w) ! unat s) AND 11 = 0"
  defines "call \<equiv> Epoll_ctl (epoll_fd (inst w)) EPOLL_CTL_DEL
      (socket_fd (sessions (inst w) ! unat s)) None"
  assumes "rv (answer (os w) call) = 0"
  shows "\<exists>w'. mcon_session_detach L w s = Some (0, w') \<and>
    trace (os w') = trace (os w) @ [(call, answer (os w) call)] \<and>
    vw_items V (session_free_stack (inst w')) = s # vw_items V (session_free_stack (inst w)) \<and>
    sessions (inst w') = (sessions (inst w))[unat s := (sessions (inst w) ! unat s)\<lparr>
      socket_fd := -1, generation := generation (sessions (inst w) ! unat s) + 1\<rparr>] \<and>
    pending V (inst w') = pending V (inst w)"
proof (rule detach_runs [OF assms(1-5)], goal_cases)
  case (1 w' st)
  note r = assms(7) [unfolded call_def]
  from 1(7) [OF r] obtain m where
    "inst w' = (if is_shutting_down (m_state m) \<and> mcon_active_session_count L m = 0
      then mcon_complete_shutdown m else m)"
    "m = (inst w)\<lparr>session_free_stack := st, sessions := (sessions (inst w))[unat s :=
        (sessions (inst w) ! unat s)\<lparr>socket_fd := -1,
           generation := next_generation (generation (sessions (inst w) ! unat s))\<rparr>]\<rparr>"
    by blast
  then show ?case
    using 1(1,2,5) r
    by (auto simp: call_def mcon_complete_shutdown_def next_generation_plus_one pending_def)
qed

theorem detach_frees_session_witness:
  "\<exists>w'. mcon_session_detach ref_libs (sample_world 0 0) 1 = Some (0, w') \<and>
    snd (session_free_stack (inst w')) = [1, 0]"
proof -
  have inv: "mcon_inv ref_views (inst (sample_world 0 0))"
    by (simp add: sample_inv)
  have "(1 :: u32) < cfg_session_count (configuration (inst (sample_world 0 0)))"
    "socket_fd (sessions (inst (sample_world 0 0)) ! unat (1 :: u32)) \<noteq> -1"
    "sess_state (sessions (inst (sample_world 0 0)) ! unat (1 :: u32)) AND 11 = 0"
    by (simp_all add: sample_mcon_def sample_config_def)
  from detach_frees_session [OF ref_libs_ok inv this] show ?thesis
    by (auto simp: answer_def sample_kernel_def) (auto simp: sample_mcon_def)
qed

text \<open>C22. When the kernel answers the removal with \<open>ENOENT\<close>, detach fails and leaves the session
  both in the free stack and active: the index can be handed to a new client while its old socket is
  still recorded, and the invariant is lost. Every other failure puts the index back where it was on
  the free stack. In both cases no other field of the instance changes, the events are left alone, and
  the only call made is the removal.\<close>

theorem detach_failure_outcome:
  assumes "libs_ok L V" "mcon_inv V (inst w)" "s < cfg_session_count (configuration (inst w))"
    and "socket_fd (sessions (inst w) ! unat s) \<noteq> -1"
    and "sess_state (sessions (inst w) ! unat s) AND 11 = 0"
  defines "call \<equiv> Epoll_ctl (epoll_fd (inst w)) EPOLL_CTL_DEL
      (socket_fd (sessions (inst w) ! unat s)) None"
  defines "r \<equiv> answer (os w) call"
  assumes "rv r < 0"
  shows "\<exists>fs w'. mcon_session_detach L w s = Some (-1, w') \<and>
    inst w' = (inst w)\<lparr>session_free_stack := fs\<rparr> \<and> evbuf w' = evbuf w \<and>
    trace (os w') = trace (os w) @ [(call, r)] \<and> errno (os w') = rerr r \<and>
    vw_cap V fs = vw_cap V (session_free_stack (inst w)) \<and>
    (if rerr r = ENOENT
     then vw_items V fs = s # vw_items V (session_free_stack (inst w)) \<and>
       socket_fd (sessions (inst w') ! unat s) \<noteq> -1 \<and> \<not> mcon_inv V (inst w')
     else vw_items V fs = vw_items V (session_free_stack (inst w)) \<and> mcon_inv V (inst w'))"
proof (rule detach_runs [OF assms(1-5)], goal_cases)
  case (1 w' st)
  note r = assms(8) [unfolded r_def call_def]
  have inst: "inst w' = (inst w)\<lparr>session_free_stack := st\<rparr>"
    using 1(6) r by simp
  have idx: "unat s < length (sessions (inst w'))"
    using mcon_inv_index [OF assms(2)] assms(3) by (simp add: inst)
  show ?case
  proof (cases "rerr r = ENOENT")
    case True
    then have "vw_items V st = s # vw_items V (session_free_stack (inst w))"
      using 1(2,5) r by (simp add: r_def call_def)
    then show ?thesis
      using 1(1-4) r True assms(4) inst mcon_inv_free_iff [OF _ idx, of V]
      by (intro exI [of _ st] exI [of _ w']) (auto simp: r_def call_def)
  next
    case False
    then have "vw_items V st = vw_items V (session_free_stack (inst w))"
      using 1(2,5) r by (simp add: r_def call_def)
    then show ?thesis
      using 1(1-4) r False assms(2) inst
      by (intro exI [of _ st] exI [of _ w']) (auto simp: r_def call_def mcon_inv_def)
  qed
qed

theorem detach_failure_outcome_witness:
  "\<exists>w'. mcon_session_detach ref_libs (sample_world (-1) ENOENT) 1 = Some (-1, w') \<and>
    1 \<in> set (snd (session_free_stack (inst w'))) \<and> socket_fd (sessions (inst w') ! 1) \<noteq> -1"
proof -
  have inv: "mcon_inv ref_views (inst (sample_world (-1) ENOENT))"
    by (simp add: sample_inv)
  have "(1 :: u32) < cfg_session_count (configuration (inst (sample_world (-1) ENOENT)))"
    "socket_fd (sessions (inst (sample_world (-1) ENOENT)) ! unat (1 :: u32)) \<noteq> -1"
    "sess_state (sessions (inst (sample_world (-1) ENOENT)) ! unat (1 :: u32)) AND 11 = 0"
    by (simp_all add: sample_mcon_def sample_config_def)
  from detach_failure_outcome [OF ref_libs_ok inv this] show ?thesis
    by (auto simp: answer_def sample_kernel_def)
qed

text \<open>For an index beyond the configured sessions \<open>mcon_session_is_active\<close> answers true: its
  error return \<open>-1\<close> is converted to the boolean result.\<close>

theorem out_of_range_reported_active:
  assumes "cfg_session_count (configuration m) \<le> s"
  shows "mcon_session_is_active m s k = Some (True, set_errno EINVAL k)"
  using assms by (simp add: mcon_session_is_active_def)

theorem out_of_range_reported_active_witness:
  "mcon_session_is_active sample_mcon 2 (sample_kernel 0 0) =
     Some (True, set_errno EINVAL (sample_kernel 0 0))"
  by (rule out_of_range_reported_active) (simp add: sample_mcon_def sample_config_def)

end
