(* ===== verification/Session_Events.thy ===== *)
theory Session_Events
  imports Ref_Instance
begin

text \<open>
  Epoll events of the listening socket and of client sockets: \<open>src/mcon/event_processing.c\<close> and
  \<open>src/mcon/event_processing_session.c\<close>. The functional result lists the events produced for a set
  of flags and shows that the capacity check, a population count, bounds them.
\<close>

definition MCON_CLIENT_SOCKET_SUBSCRIBED_EVENTS :: u32 where
  "MCON_CLIENT_SOCKET_SUBSCRIBED_EVENTS = EPOLLIN OR EPOLLHUP OR EPOLLRDHUP OR EPOLLERR"

subsection \<open>The listening socket\<close>

definition mcon_process_server_socket_event ::
  "('s, 'q, 'r) world \<Rightarrow> u32 \<Rightarrow> int \<times> ('s, 'q, 'r) world" where
  "mcon_process_server_socket_event w epoll_events =
     (0, if epoll_events AND EPOLLIN \<noteq> 0
         then w\<lparr>inst := (inst w)\<lparr>m_state := (m_state (inst w))\<lparr>accepts_requested := True\<rparr>\<rparr>\<rparr>
         else w)"

subsection \<open>Client sockets\<close>

text \<open>\<open>events[i] = (struct mcon_event){...}\<close> on the caller's array.\<close>

definition put_event ::
  "nat \<Rightarrow> mcon_event \<Rightarrow> ('s, 'q, 'r) world \<Rightarrow> ('s, 'q, 'r) world option" where
  "put_event i e w = do { b \<leftarrow> arr_put (evbuf w) i e; Some (w\<lparr>evbuf := b\<rparr>) }"

text \<open>\<open>events[events_produced++] = ...\<close>: the new count and the array.\<close>

definition emit_event ::
  "nat \<Rightarrow> mcon_event \<Rightarrow> ('s, 'q, 'r) world \<Rightarrow> (nat \<times> ('s, 'q, 'r) world) option" where
  "emit_event n e w = do { w' \<leftarrow> put_event n e w; Some (n + 1, w') }"

definition mcon_process_session_event ::
  "('s, 'q, 'r) world \<Rightarrow> u32 \<Rightarrow> mcon_epoll_entry \<Rightarrow> u32 \<Rightarrow>
   (int \<times> ('s, 'q, 'r) world) option" where
  "mcon_process_session_event w epoll_events epoll_data max_events =
    (let m = inst w;
         session = ee_session epoll_data;
         valid_events = (epoll_events AND NOT MCON_CLIENT_SOCKET_SUBSCRIBED_EVENTS = 0);
         valid_index_value = (session < cfg_session_count (configuration m));
         num_events = stdc_count_ones epoll_events
     in if \<not> valid_events \<or> \<not> valid_index_value then Some (-1, w\<lparr>os := set_errno EINVAL (os w)\<rparr>)
        else if max_events < num_events then Some (-1, w\<lparr>os := set_errno ENOBUFS (os w)\<rparr>)
        else do {
          s \<leftarrow> arr_get (sessions m) (unat session);
          if ee_generation epoll_data \<noteq> generation s then Some (0, w)
          else do {
            (n1, w1) \<leftarrow> (if epoll_events AND EPOLLIN \<noteq> 0
              then emit_event 0 \<lparr>ev_result = 0, ev_session = session,
                     ev_type = MCON_EVENT_READ_RDY\<rparr> w
              else Some (0, w));
            (n2, w2) \<leftarrow> (if epoll_events AND EPOLLHUP \<noteq> 0
              then emit_event n1 \<lparr>ev_result = 0, ev_session = session,
                     ev_type = MCON_EVENT_READ_SHUTDOWN\<rparr> w1
              else Some (n1, w1));
            (n3, w3) \<leftarrow> (if epoll_events AND EPOLLRDHUP \<noteq> 0
              then do { s \<leftarrow> arr_get (sessions (inst w2)) (unat session);
                        (n', w') \<leftarrow> (if sess_state s AND MCON_SESSION_STATE_RDHUP = 0
                          then emit_event n2 \<lparr>ev_result = 0, ev_session = session,
                                 ev_type = MCON_EVENT_REMOTE_HANGUP\<rparr> w2
                          else Some (n2, w2));
                        m' \<leftarrow> upd_session (\<lambda>s. s\<lparr>sess_state := sess_state s OR
                          MCON_SESSION_STATE_RDHUP\<rparr>) session (inst w');
                        Some (n', w'\<lparr>inst := m'\<rparr>) }
              else Some (n2, w2));
            (n4, return_code, w4) \<leftarrow> (if epoll_events AND EPOLLERR \<noteq> 0
              then do { s \<leftarrow> arr_get (sessions (inst w3)) (unat session);
                        let (r, k) = syscall (Getsockopt (socket_fd s) SO_ERROR) (os w3);
                        (n', w') \<leftarrow> emit_event n3 \<lparr>ev_result = rout r, ev_session = session,
                          ev_type = MCON_EVENT_CLIENT_ERROR\<rparr> (w3\<lparr>os := k\<rparr>);
                        Some (n', rv r, w') }
              else Some (n3, 0, w3));
            Some (if return_code = 0 then int n4 else return_code, w4) } })"

subsection \<open>The events of a set of flags\<close>

lemma epoll_flag_tests [bit_facts]:
  "e AND EPOLLIN = 0 \<longleftrightarrow> \<not> bit e 0" "e AND EPOLLERR = 0 \<longleftrightarrow> \<not> bit e 3"
  "e AND EPOLLHUP = 0 \<longleftrightarrow> \<not> bit e 4" "e AND EPOLLRDHUP = 0 \<longleftrightarrow> \<not> bit e 13"
  using and_exp_eq_0_iff_not_bit [of e 0] and_exp_eq_0_iff_not_bit [of e 3]
    and_exp_eq_0_iff_not_bit [of e 4] and_exp_eq_0_iff_not_bit [of e 13]
  by (simp_all add: EPOLLIN_def EPOLLERR_def EPOLLHUP_def EPOLLRDHUP_def del: and_exp_eq_0_iff_not_bit)

text \<open>
  The reference: what the flags \<open>e\<close> mean for a session in state \<open>st\<close>, in the order the code
  reports them.
\<close>

definition flag_event ::
  "u32 \<Rightarrow> nat \<Rightarrow> int \<Rightarrow> mcon_session_idx \<Rightarrow> mcon_event_type \<Rightarrow> mcon_event list" where
  "flag_event e b res s t =
     (if bit e b then [\<lparr>ev_result = res, ev_session = s, ev_type = t\<rparr>] else [])"

definition session_events :: "u32 \<Rightarrow> u8 \<Rightarrow> mcon_session_idx \<Rightarrow> int \<Rightarrow> mcon_event list" where
  "session_events e st s err =
     flag_event e 0 0 s MCON_EVENT_READ_RDY @
     flag_event e 4 0 s MCON_EVENT_READ_SHUTDOWN @
     (if bit st 2 then [] else flag_event e 13 0 s MCON_EVENT_REMOTE_HANGUP) @
     flag_event e 3 err s MCON_EVENT_CLIENT_ERROR"

lemma flag_event_length: "length (flag_event e b res s t) = of_bool (bit e b)"
  by (simp add: flag_event_def)

lemma length_filter_upt: "length (filter P [0..<n]) = (\<Sum>i<n. of_bool (P i))"
  by (induction n) auto

lemma session_events_le_ones: "length (session_events e st s err) \<le> unat (stdc_count_ones e)"
proof -
  have "length (session_events e st s err) \<le> (\<Sum>i\<in>{0, 3, 4, 13}. of_bool (bit e i))"
    by (simp add: session_events_def flag_event_length)
  also have "\<dots> \<le> (\<Sum>i\<in>{..<32}. of_bool (bit e i))"
    by (rule sum_mono2) auto
  also have "\<dots> = unat (stdc_count_ones e)"
    unfolding unat_stdc_count_ones by (rule length_filter_upt [symmetric])
  finally show ?thesis .
qed

text \<open>\<open>w\<close> with the events \<open>xs\<close> written over the start of the array \<open>buf\<close>.\<close>

definition reported ::
  "('s, 'q, 'r) world \<Rightarrow> mcon_event list \<Rightarrow> mcon_event list \<Rightarrow> ('s, 'q, 'r) world" where
  "reported w buf xs = w\<lparr>evbuf := xs @ drop (length xs) buf\<rparr>"

lemma reported_sel [simp]:
  "inst (reported w buf xs) = inst w" "os (reported w buf xs) = os w"
  "evbuf (reported w buf xs) = xs @ drop (length xs) buf"
  by (simp_all add: reported_def)

lemma reported_none: "reported w (evbuf w) [] = w"
  by (simp add: reported_def)

lemma emit_event_at:
  assumes "evbuf v = xs @ drop (length xs) buf" "length xs < length buf"
  shows "emit_event (length xs) x v =
    Some (length (xs @ [x]), v\<lparr>evbuf := (xs @ [x]) @ drop (length (xs @ [x])) buf\<rparr>)"
proof -
  have "(xs @ drop (length xs) buf)[length xs := x] = (xs @ [x]) @ drop (Suc (length xs)) buf"
    using assms(2) by (simp add: list_update_append Cons_nth_drop_Suc [symmetric])
  then show ?thesis
    using assms by (simp add: emit_event_def put_event_def)
qed

lemma emit_event_reported:
  "length xs < length buf \<Longrightarrow> emit_event (length xs) x (reported w buf xs) =
    Some (length (xs @ [x]), reported w buf (xs @ [x]))"
  by (subst emit_event_at [of _ _ buf]) (simp_all add: reported_def)

lemma report_flag:
  assumes "length (xs @ flag_event e b res s t) \<le> length buf"
  shows "(if bit e b then emit_event (length xs)
        \<lparr>ev_result = res, ev_session = s, ev_type = t\<rparr> (reported w buf xs)
      else Some (length xs, reported w buf xs)) =
    Some (length (xs @ flag_event e b res s t), reported w buf (xs @ flag_event e b res s t))"
  using assms emit_event_reported [of xs buf "\<lparr>ev_result = res, ev_session = s, ev_type = t\<rparr>" w]
  by (cases "bit e b") (simp_all add: flag_event_def)

text \<open>The whole handler on a valid event of the current generation.\<close>

lemma session_event_runs:
  fixes w :: "('s, 'q, 'r) world"
  assumes valid: "e AND NOT MCON_CLIENT_SOCKET_SUBSCRIBED_EVENTS = 0"
    "ee_session d < cfg_session_count (configuration (inst w))"
    "unat (ee_session d) < length (sessions (inst w))"
    and room: "stdc_count_ones e \<le> max_events" "unat max_events \<le> length (evbuf w)"
    and current: "ee_generation d = generation (sessions (inst w) ! unat (ee_session d))"
  defines "s \<equiv> sessions (inst w) ! unat (ee_session d)"
  defines "q \<equiv> Getsockopt (socket_fd s) SO_ERROR"
  defines "r \<equiv> answer (os w) q"
  defines "evs \<equiv> session_events e (sess_state s) (ee_session d) (rout r)"
  shows "mcon_process_session_event w e d max_events =
    Some (if bit e 3 \<and> rv r \<noteq> 0 then rv r else int (length evs),
      (reported w (evbuf w) evs)\<lparr>
        inst := (inst w)\<lparr>sessions := (sessions (inst w))[unat (ee_session d) :=
            s\<lparr>sess_state := (if bit e 13 then sess_state s OR 4 else sess_state s)\<rparr>]\<rparr>,
        os := (if bit e 3 then snd (syscall q (os w)) else os w)\<rparr>)"
proof -
  let ?i = "ee_session d" and ?R = "reported w (evbuf w)"
  define y1 y2 y3 y4
    where "y1 = flag_event e 0 0 ?i MCON_EVENT_READ_RDY"
      and "y2 = flag_event e 4 0 ?i MCON_EVENT_READ_SHUTDOWN"
      and "y3 = (if bit (sess_state s) 2 then [] else flag_event e 13 0 ?i MCON_EVENT_REMOTE_HANGUP)"
      and "y4 = flag_event e 3 (rout r) ?i MCON_EVENT_CLIENT_ERROR"
  have evs: "evs = y1 @ y2 @ y3 @ y4"
    by (simp add: evs_def session_events_def y1_def y2_def y3_def y4_def)
  have len: "length (y1 @ y2 @ y3 @ y4) \<le> length (evbuf w)"
    using session_events_le_ones [of e "sess_state s" ?i "rout r"] room
    by (simp add: evs [symmetric] evs_def word_le_nat_alt)
  define w3 where "w3 = (?R (y1 @ y2 @ y3))\<lparr>inst := (inst w)\<lparr>sessions := (sessions (inst w))[unat ?i :=
      s\<lparr>sess_state := (if bit e 13 then sess_state s OR 4 else sess_state s)\<rparr>]\<rparr>\<rparr>"
  have s1: "(if bit e 0 then emit_event 0 \<lparr>ev_result = 0, ev_session = ?i,
       ev_type = MCON_EVENT_READ_RDY\<rparr> w else Some (0, w)) = Some (length y1, ?R y1)"
    using report_flag [of "[]" e 0 0 ?i MCON_EVENT_READ_RDY "evbuf w" w] len
    by (simp only: reported_none y1_def [symmetric] append.simps list.size length_append)
  have s2: "(if bit e 4 then emit_event (length y1) \<lparr>ev_result = 0, ev_session = ?i,
       ev_type = MCON_EVENT_READ_SHUTDOWN\<rparr> (?R y1) else Some (length y1, ?R y1)) =
      Some (length (y1 @ y2), ?R (y1 @ y2))"
    unfolding y2_def by (rule report_flag) (use len in \<open>simp add: y2_def\<close>)
  have s3: "emit_event (length y1 + length y2) \<lparr>ev_result = 0, ev_session = ?i,
         ev_type = MCON_EVENT_REMOTE_HANGUP\<rparr> (?R (y1 @ y2)) =
       Some (length y1 + (length y2 + length y3), ?R (y1 @ y2 @ y3))"
    if "bit e 13" "\<not> bit (sess_state s) 2"
    using that len emit_event_reported [of "y1 @ y2" "evbuf w"
        "\<lparr>ev_result = 0, ev_session = ?i, ev_type = MCON_EVENT_REMOTE_HANGUP\<rparr>" w]
    by (simp add: y3_def flag_event_def)
  have y3: "y3 = []" if "\<not> (bit e 13 \<and> \<not> bit (sess_state s) 2)"
    using that by (auto simp: y3_def flag_event_def)
  have buf3: "evbuf w3 = (y1 @ y2 @ y3) @ drop (length (y1 @ y2 @ y3)) (evbuf w)"
    by (simp add: w3_def)
  have s4: "bit e 3 \<Longrightarrow> emit_event (length y1 + (length y2 + length y3)) \<lparr>ev_result = rout r, ev_session = ?i,
       ev_type = MCON_EVENT_CLIENT_ERROR\<rparr> (w3\<lparr>os := k\<rparr>) =
      Some (length evs, w3\<lparr>os := k, evbuf := evs @ drop (length evs) (evbuf w)\<rparr>)" for k
    using emit_event_at [of "w3\<lparr>os := k\<rparr>" "y1 @ y2 @ y3" "evbuf w"
        "\<lparr>ev_result = rout r, ev_session = ?i, ev_type = MCON_EVENT_CLIENT_ERROR\<rparr>"] len buf3
    by (simp add: y4_def flag_event_def evs)
  have s4b: "emit_event (length y1 + length y2) \<lparr>ev_result = rout r, ev_session = ?i,
       ev_type = MCON_EVENT_CLIENT_ERROR\<rparr> (w3\<lparr>os := k\<rparr>) =
      Some (length evs, w3\<lparr>os := k, evbuf := evs @ drop (length evs) (evbuf w)\<rparr>)"
    if "y3 = []" "bit e 3" for k
    using s4 [OF that(2), of k] that(1) by simp
  have s4': "\<not> bit e 3 \<Longrightarrow> y4 = []"
    by (simp add: y4_def flag_event_def)
  have q: "Getsockopt (socket_fd s) SO_ERROR = q" "answer (os w) q = r"
    by (simp_all add: q_def r_def)
  have w3_sym: "(?R ys)\<lparr>inst := (inst w)\<lparr>sessions := (sessions (inst w))[unat ?i :=
      s\<lparr>sess_state := sess_state s OR 4\<rparr>]\<rparr>\<rparr> = w3" if "bit e 13" "ys = y1 @ y2 @ y3" for ys
    using that by (simp add: w3_def)
  have w3'_sym: "?R ys = w3" if "\<not> bit e 13" "ys = y1 @ y2 @ y3" for ys
    using that by (simp add: w3_def s_def reported_def)
  have fd: "socket_fd (sessions (inst w3) ! unat ?i) = socket_fd s"
    "unat ?i < length (sessions (inst w3))" "os w3 = os w"
    using valid(3) by (simp_all add: w3_def)
  have w3_id: "w3\<lparr>os := os w, evbuf := y1 @ y2 @ y3 @ drop (length y1 + (length y2 + length y3)) (evbuf w)\<rparr> = w3"
    by (simp add: w3_def reported_def)
  have w3_id': "y3 = [] \<Longrightarrow>
      w3\<lparr>os := os w, evbuf := y1 @ y2 @ drop (length y1 + length y2) (evbuf w)\<rparr> = w3"
    using w3_id by simp
  have "mcon_process_session_event w e d max_events =
    Some (if bit e 3 \<and> rv r \<noteq> 0 then rv r else int (length evs),
      w3\<lparr>os := (if bit e 3 then snd (syscall q (os w)) else os w),
         evbuf := evs @ drop (length evs) (evbuf w)\<rparr>)"
    using valid room current
    by (cases "bit e 13"; cases "bit (sess_state s) 2"; cases "bit e 3")
      (simp_all add: mcon_process_session_event_def Let_def bit_facts s1 s2 s3
        y3 [simplified] w3_sym w3'_sym s4 s4b s4' w3_id w3_id' fd rt_simps
        not_le [THEN iffD2, OF valid(2)] leD [OF room(1)] q evs s_def [symmetric])
  then show ?thesis
    by (simp add: w3_def reported_def)
qed

lemma session_event_keeps_inv:
  assumes inv: "mcon_inv V (inst w)" and room: "unat max_events \<le> length (evbuf w)"
  shows "\<exists>rc w'. mcon_process_session_event w e d max_events = Some (rc, w') \<and>
    mcon_inv V (inst w') \<and> answers (os w') = answers (os w) \<and>
    length (evbuf w') = length (evbuf w) \<and> configuration (inst w') = configuration (inst w)"
proof (cases "e AND NOT MCON_CLIENT_SOCKET_SUBSCRIBED_EVENTS = 0 \<and>
    ee_session d < cfg_session_count (configuration (inst w)) \<and> stdc_count_ones e \<le> max_events \<and>
    ee_generation d = generation (sessions (inst w) ! unat (ee_session d))")
  case False
  then show ?thesis
    using inv mcon_inv_index [OF inv, of "ee_session d"]
    by (auto simp: mcon_process_session_event_def Let_def not_le)
next
  case True
  have idx: "unat (ee_session d) < length (sessions (inst w))"
    using True mcon_inv_index [OF inv] by simp
  let ?s = "sessions (inst w) ! unat (ee_session d)"
  have len: "length (session_events e (sess_state ?s) (ee_session d) err) \<le> length (evbuf w)" for err
    using session_events_le_ones [of e "sess_state ?s" "ee_session d" err] True room
    by (simp add: word_le_nat_alt)
  have "mcon_inv V ((inst w)\<lparr>sessions := (sessions (inst w))[unat (ee_session d) := ?s\<lparr>sess_state :=
      (if bit e 13 then sess_state ?s OR 4 else sess_state ?s)\<rparr>]\<rparr>)"
    using inv idx by (auto simp: mcon_inv_def bit_facts intro!: proto_inv_mark)
  then show ?thesis
    using session_event_runs [of e d w max_events] True idx room len
    by (auto simp: rt_simps)
qed

lemma session_event_core:
  fixes w :: "('s, 'q, 'r) world" and d :: mcon_epoll_entry and e :: u32
  assumes "mcon_inv V (inst w)" "unat max_events \<le> length (evbuf w)"
  defines "s \<equiv> sessions (inst w) ! unat (ee_session d)"
  defines "r \<equiv> answer (os w) (Getsockopt (socket_fd s) SO_ERROR)"
  defines "evs \<equiv> session_events e (sess_state s) (ee_session d) (rout r)"
  shows "\<exists>rc w'. mcon_process_session_event w e d max_events = Some (rc, w') \<and>
    (if e AND NOT MCON_CLIENT_SOCKET_SUBSCRIBED_EVENTS \<noteq> 0 \<or>
        cfg_session_count (configuration (inst w)) \<le> ee_session d
     then rc = -1 \<and> w' = w\<lparr>os := set_errno EINVAL (os w)\<rparr>
     else if max_events < stdc_count_ones e
     then rc = -1 \<and> w' = w\<lparr>os := set_errno ENOBUFS (os w)\<rparr>
     else if ee_generation d \<noteq> generation s then rc = 0 \<and> w' = w
     else rc = (if bit e 3 \<and> rv r \<noteq> 0 then rv r else int (length evs)) \<and>
       evbuf w' = evs @ drop (length evs) (evbuf w) \<and>
       inst w' = (inst w)\<lparr>sessions := (sessions (inst w))[unat (ee_session d) :=
         s\<lparr>sess_state := (if bit e 13 then sess_state s OR 4 else sess_state s)\<rparr>]\<rparr>)"
proof -
  consider (invalid) "e AND NOT MCON_CLIENT_SOCKET_SUBSCRIBED_EVENTS \<noteq> 0 \<or>
      cfg_session_count (configuration (inst w)) \<le> ee_session d"
    | (valid) "e AND NOT MCON_CLIENT_SOCKET_SUBSCRIBED_EVENTS = 0"
      "ee_session d < cfg_session_count (configuration (inst w))"
    by force
  then show ?thesis
  proof cases
    case invalid
    then show ?thesis
      by (auto simp: mcon_process_session_event_def Let_def)
  next
    case valid
    have idx: "unat (ee_session d) < length (sessions (inst w))"
      using valid(2) mcon_inv_index [OF assms(1)] by simp
    show ?thesis
      using valid idx session_event_runs [OF valid idx _ assms(2)]
      by (cases "max_events < stdc_count_ones e"; cases "ee_generation d = generation s")
        (auto simp: mcon_process_session_event_def Let_def s_def r_def evs_def not_le not_less)
  qed
qed

lemma session_event_result:
  assumes "mcon_inv V (inst w)" "unat max_events \<le> length (evbuf w)"
    and "mcon_process_session_event w e d max_events = Some (rc, w')"
  obtains (nothing) "rc \<le> 0"
  | (reported) st err fd where "unat (stdc_count_ones e) \<le> unat max_events"
      "rc = int (length (session_events e st (ee_session d) err)) \<or>
       rc = rv (answer (os w) (Getsockopt fd SO_ERROR))"
  using session_event_core [OF assms(1,2), of e d] assms(3)
  by (auto simp: not_less word_le_nat_alt split: if_splits)

lemma session_event_bound:
  assumes "mcon_inv V (inst w)" "unat max_events \<le> length (evbuf w)"
    and "mcon_process_session_event w e d max_events = Some (rc, w')"
    and "\<And>fd. rv (answer (os w) (Getsockopt fd SO_ERROR)) \<le> 0"
  shows "rc \<le> int (unat max_events)"
proof (rule session_event_result [OF assms(1-3)], goal_cases)
  case (2 st err fd)
  then show ?case
    using session_events_le_ones [of e st "ee_session d" err] assms(4) [of fd]
    by (auto simp del: of_nat_unat)
qed (simp add: order.trans)

subsection \<open>Properties\<close>

text \<open>C26. The four outcomes of an epoll event on a client socket, on every instance that satisfies the
  invariant: flags outside the subscribed ones or an index outside the configuration fail with
  \<open>EINVAL\<close>; an array with fewer places than the event has flags fails with \<open>ENOBUFS\<close>; an event of an
  earlier generation of the session is consumed without effect; any other event reports exactly the
  listed events in the first places of the array and records a remote hang-up.\<close>

theorem session_event_outcome:
  fixes w :: "('s, 'q, 'r) world" and d :: mcon_epoll_entry and e :: u32
  assumes "mcon_inv V (inst w)" "unat max_events \<le> length (evbuf w)"
  defines "s \<equiv> sessions (inst w) ! unat (ee_session d)"
  defines "r \<equiv> answer (os w) (Getsockopt (socket_fd s) SO_ERROR)"
  defines "evs \<equiv> session_events e (sess_state s) (ee_session d) (rout r)"
  shows "\<exists>rc w'. mcon_process_session_event w e d max_events = Some (rc, w') \<and>
    (if e AND NOT MCON_CLIENT_SOCKET_SUBSCRIBED_EVENTS \<noteq> 0 \<or>
        cfg_session_count (configuration (inst w)) \<le> ee_session d
     then rc = -1 \<and> w' = w\<lparr>os := set_errno EINVAL (os w)\<rparr>
     else if max_events < stdc_count_ones e
     then rc = -1 \<and> w' = w\<lparr>os := set_errno ENOBUFS (os w)\<rparr>
     else if ee_generation d \<noteq> generation s then rc = 0 \<and> w' = w
     else rc = (if bit e 3 \<and> rv r \<noteq> 0 then rv r else int (length evs)) \<and>
       evbuf w' = evs @ drop (length evs) (evbuf w) \<and>
       inst w' = (inst w)\<lparr>sessions := (sessions (inst w))[unat (ee_session d) :=
         s\<lparr>sess_state := (if bit e 13 then sess_state s OR 4 else sess_state s)\<rparr>]\<rparr>)"
  unfolding s_def r_def evs_def by (rule session_event_core [OF assms(1,2)])

lemma epoll_flag_bits [bit_facts]:
  "bit EPOLLIN i \<longleftrightarrow> i = 0" "bit EPOLLERR i \<longleftrightarrow> i = 3"
  "bit EPOLLHUP i \<longleftrightarrow> i = 4" "bit EPOLLRDHUP i \<longleftrightarrow> i = 13"
  using bit_exp_iff [where 'a = u32, of 3 i] bit_exp_iff [where 'a = u32, of 4 i]
    bit_exp_iff [where 'a = u32, of 13 i]
  by (auto simp: EPOLLIN_def EPOLLERR_def EPOLLHUP_def EPOLLRDHUP_def bit_1_iff)

lemma epoll_flags_subscribed:
  "EPOLLRDHUP AND NOT MCON_CLIENT_SOCKET_SUBSCRIBED_EVENTS = 0"
  "EPOLLHUP AND NOT MCON_CLIENT_SOCKET_SUBSCRIBED_EVENTS = 0"
  by (simp_all add: MCON_CLIENT_SOCKET_SUBSCRIBED_EVENTS_def EPOLLIN_def EPOLLHUP_def
      EPOLLRDHUP_def EPOLLERR_def)

definition sample_session_entry :: mcon_epoll_entry where
  "sample_session_entry = \<lparr>ee_instance_id = 1, ee_generation = 0,
     ee_source = MCON_EPOLL_SOURCE_SESSION, ee_session = 1, ee_reserved = 0\<rparr>"

lemma sample_session_entry_facts [simp]:
  "sessions sample_mcon ! unat (ee_session sample_session_entry) =
     \<lparr>socket_fd = 7, generation = 0, sess_state = 0\<rparr>"
  "1 < cfg_session_count (configuration sample_mcon)"
  "\<not> cfg_session_count (configuration sample_mcon) \<le> 1"
  "ee_generation sample_session_entry = 0" "ee_session sample_session_entry = 1"
  "length (sessions sample_mcon) = 2" "sessions sample_mcon ! 1 = \<lparr>socket_fd = 7, generation = 0, sess_state = 0\<rparr>"
  "sessions sample_mcon ! Suc 0 = \<lparr>socket_fd = 7, generation = 0, sess_state = 0\<rparr>"
  by (simp_all add: sample_mcon_def sample_config_def sample_session_entry_def word_le_nat_alt)

lemma sample_evbuf_length: "unat (4 :: u32) \<le> length (evbuf (sample_world ret err))"
  by (simp add: sample_world_def)

lemma stdc_count_ones_sample:
  "stdc_count_ones EPOLLRDHUP = 1" "stdc_count_ones EPOLLHUP = 1" "stdc_count_ones (EPOLLIN OR EPOLLERR) = 2"
  by (simp_all add: stdc_count_ones_def upt_rec EPOLLIN_def EPOLLERR_def EPOLLRDHUP_def EPOLLHUP_def)

theorem session_event_outcome_witness:
  "\<exists>w'. mcon_process_session_event (sample_world 0 0) EPOLLRDHUP sample_session_entry 4 =
      Some (1, w') \<and>
    evbuf w' ! 0 = \<lparr>ev_result = 0, ev_session = 1, ev_type = MCON_EVENT_REMOTE_HANGUP\<rparr> \<and>
    sess_state (sessions (inst w') ! 1) = 4"
proof -
  have inv: "mcon_inv ref_views (inst (sample_world 0 0))"
    by (simp add: sample_inv)
  note facts = session_event_outcome [OF inv sample_evbuf_length, of EPOLLRDHUP
      sample_session_entry]
  obtain rc w' where run: "mcon_process_session_event (sample_world 0 0) EPOLLRDHUP
      sample_session_entry 4 = Some (rc, w')" and res: "rc = 1"
    "evbuf w' = \<lparr>ev_result = 0, ev_session = 1, ev_type = MCON_EVENT_REMOTE_HANGUP\<rparr> #
      drop 1 (evbuf (sample_world 0 0))"
    and i: "inst w' = sample_mcon\<lparr>sessions := (sessions sample_mcon)[1 :=
      \<lparr>socket_fd = 7, generation = 0, sess_state = 4\<rparr>]\<rparr>"
    using facts
    by (auto simp: stdc_count_ones_sample session_events_def flag_event_def epoll_flags_subscribed
        bit_facts)
  then show ?thesis by simp
qed

text \<open>Whatever the flags, the datum and the kernel, the handler returns, writes only inside the
  array it was given, reports at most \<open>max_events\<close> events and keeps the invariant.\<close>

theorem session_event_safe:
  assumes "mcon_inv V (inst w)" "unat max_events \<le> length (evbuf w)"
    and "\<And>fd. rv (answer (os w) (Getsockopt fd SO_ERROR)) \<le> 0"
  shows "\<exists>rc w'. mcon_process_session_event w e d max_events = Some (rc, w') \<and>
    mcon_inv V (inst w') \<and> length (evbuf w') = length (evbuf w) \<and> rc \<le> int (unat max_events)"
proof -
  obtain rc w' where run: "mcon_process_session_event w e d max_events = Some (rc, w')"
    "mcon_inv V (inst w')" "length (evbuf w') = length (evbuf w)"
    using session_event_keeps_inv [OF assms(1,2)] by blast
  have "rc \<le> int (unat max_events)"
    using session_event_bound [OF assms(1,2) run(1) assms(3)] .
  with run show ?thesis by blast
qed

theorem session_event_safe_witness:
  "\<exists>rc w'. mcon_process_session_event (sample_world (-1) 9) (EPOLLIN OR EPOLLERR)
      sample_session_entry 4 = Some (rc, w') \<and> rc \<le> 4"
proof -
  have inv: "mcon_inv ref_views (inst (sample_world (-1) 9))"
    by (simp add: sample_inv)
  from session_event_safe [OF inv sample_evbuf_length, of "EPOLLIN OR EPOLLERR" sample_session_entry]
  show ?thesis
    by (auto simp: answer_def sample_kernel_def)
qed

text \<open>When the socket is in error and \<open>getsockopt\<close> fails, the caller is told of no event at all,
  yet a remote hang-up in the same event has been recorded in the session.\<close>

lemma failed_getsockopt_records_hangup:
  fixes w :: "('s, 'q, 'r) world" and d :: mcon_epoll_entry and e :: u32
  assumes "mcon_inv V (inst w)" "unat max_events \<le> length (evbuf w)"
    and "e AND NOT MCON_CLIENT_SOCKET_SUBSCRIBED_EVENTS = 0" "stdc_count_ones e \<le> max_events"
    and "ee_session d < cfg_session_count (configuration (inst w))"
    and "ee_generation d = generation (sessions (inst w) ! unat (ee_session d))"
    and "bit e 3" "bit e 13"
    and "rv (answer (os w) (Getsockopt (socket_fd (sessions (inst w) ! unat (ee_session d)))
          SO_ERROR)) < 0"
  shows "\<exists>rc w'. mcon_process_session_event w e d max_events = Some (rc, w') \<and> rc < 0 \<and>
    bit (sess_state (sessions (inst w') ! unat (ee_session d))) 2"
proof -
  have idx: "unat (ee_session d) < length (sessions (inst w))"
    using assms(5) mcon_inv_index [OF assms(1)] by simp
  from session_event_core [OF assms(1,2), of e d] show ?thesis
    using assms(3-) idx by (auto simp: bit_facts)
qed

lemma hangup_flags:
  "(EPOLLRDHUP OR EPOLLERR) AND NOT MCON_CLIENT_SOCKET_SUBSCRIBED_EVENTS = 0"
  "stdc_count_ones (EPOLLRDHUP OR EPOLLERR) = 2"
  "bit (EPOLLRDHUP OR EPOLLERR) 3" "bit (EPOLLRDHUP OR EPOLLERR) 13"
  by (simp_all add: MCON_CLIENT_SOCKET_SUBSCRIBED_EVENTS_def EPOLLIN_def EPOLLHUP_def
      EPOLLRDHUP_def EPOLLERR_def stdc_count_ones_def upt_rec)

text \<open>A peer that has only finished sending (\<open>EPOLLRDHUP\<close>) is reported as
  \<open>MCON_EVENT_REMOTE_HANGUP\<close>, and a connection closed in both directions (\<open>EPOLLHUP\<close>) as
  \<open>MCON_EVENT_READ_SHUTDOWN\<close>: the reverse of what the comments in \<open>event.h\<close> say of the two events.\<close>

theorem hangup_events_are_swapped:
  fixes w :: "('s, 'q, 'r) world" and d :: mcon_epoll_entry
  assumes "mcon_inv V (inst w)" "0 < unat max_events" "unat max_events \<le> length (evbuf w)"
    and "ee_session d < cfg_session_count (configuration (inst w))"
    and "ee_generation d = generation (sessions (inst w) ! unat (ee_session d))"
    and "\<not> bit (sess_state (sessions (inst w) ! unat (ee_session d))) 2"
    and "(e, t) \<in> {(EPOLLRDHUP, MCON_EVENT_REMOTE_HANGUP), (EPOLLHUP, MCON_EVENT_READ_SHUTDOWN)}"
  shows "\<exists>w'. mcon_process_session_event w e d max_events = Some (1, w') \<and>
    ev_type (evbuf w' ! 0) = t \<and> ev_session (evbuf w' ! 0) = ee_session d"
proof -
  have "\<not> max_events < 1"
    using assms(2) by (simp add: word_less_nat_alt)
  moreover have "e AND NOT MCON_CLIENT_SOCKET_SUBSCRIBED_EVENTS = 0" "stdc_count_ones e = 1"
    using assms(7) by (auto simp: stdc_count_ones_sample epoll_flags_subscribed)
  ultimately show ?thesis
    using session_event_core [OF assms(1,3), of e d] assms(4-)
    by (auto simp: session_events_def flag_event_def bit_facts not_le not_less)
qed

theorem hangup_events_are_swapped_witness:
  "\<exists>w'. mcon_process_session_event (sample_world 0 0) EPOLLRDHUP sample_session_entry 4 =
      Some (1, w') \<and> ev_type (evbuf w' ! 0) = MCON_EVENT_REMOTE_HANGUP"
proof -
  have inv: "mcon_inv ref_views (inst (sample_world 0 0))"
    by (simp add: sample_inv)
  show ?thesis
    using hangup_events_are_swapped [OF inv _ sample_evbuf_length, of sample_session_entry
        EPOLLRDHUP MCON_EVENT_REMOTE_HANGUP]
    by auto
qed

end
