(* ===== verification/Ring_Events.thy ===== *)
theory Ring_Events
  imports Session_Events
begin

text \<open>
  Completions of the ring: \<open>src/mcon/event_processing_io_uring.c\<close>. One handler per operation, the
  dispatch over the operation named by the user datum, and the loop that runs while completions and
  places for events are left. The completion handlers of read, write and drain share the contract
  \<open>completion_handler\<close>. The loop is a \<open>partial_function (option)\<close>: that it ends is proved, not
  assumed, from the number of submitted requests, which every round lowers.
\<close>

subsection \<open>The handlers\<close>

text \<open>
  A handler gets the address \<open>cqe\<close> of the completion and the index \<open>base\<close> of the event it may
  write, \<open>events = &events[event_count]\<close> in the C code. \<open>io_uring_cqe_seen\<close>:
\<close>

definition cqe_seen :: "('s, 'q, 'r) libs \<Rightarrow> u64 \<Rightarrow> ('s, 'q, 'r) world \<Rightarrow> ('s, 'q, 'r) world" where
  "cqe_seen L cqe w = w\<lparr>inst := (inst w)\<lparr>ring := ur_cqe_seen (urg L) (ring (inst w)) cqe\<rparr>\<rparr>"

definition process_accept ::
  "('s, 'q, 'r) libs \<Rightarrow> ('s, 'q, 'r) world \<Rightarrow> u64 \<Rightarrow> nat \<Rightarrow> u32 \<Rightarrow>
   (int \<times> ('s, 'q, 'r) world) option" where
  "process_accept L w cqe base max_events =
    (if ur_cqe_res (urg L) (ring (inst w)) cqe = - EAGAIN then
       (let w1 = cqe_seen L cqe w; st = m_state (inst w1)
        in Some (0, w1\<lparr>inst := (inst w1)\<lparr>m_state := st\<lparr>accepts_live := accepts_live st - 1\<rparr>\<rparr>\<rparr>))
     else if max_events < 1 then Some (0, w)
     else
       (let w1 = cqe_seen L cqe w; st = m_state (inst w1);
            m = (inst w1)\<lparr>m_state := st\<lparr>accepts_live := accepts_live st - 1,
                                     accepts_requested := True\<rparr>\<rparr>;
            res = ur_cqe_res (urg L) (ring m) cqe
        in if res < 0 then
             do { w2 \<leftarrow> put_event base \<lparr>ev_result = res, ev_session = MCON_NO_SESSION,
                    ev_type = MCON_EVENT_NEW_CONNECTION\<rparr> (w1\<lparr>inst := m\<rparr>);
                  Some (1, w2) }
           else
             (let socket_fd = res in
              case st_pop (stk L) (session_free_stack m) of
                (None, fs) \<Rightarrow> Some (-1, w1\<lparr>inst := m\<lparr>session_free_stack := fs\<rparr>\<rparr>)
              | (Some new_session, fs) \<Rightarrow> do {
                  let m1 = m\<lparr>session_free_stack := fs\<rparr>;
                  s \<leftarrow> arr_get (sessions m1) (unat new_session);
                  let (r, k) = syscall (Epoll_ctl (epoll_fd m1) EPOLL_CTL_ADD socket_fd
                    (Some \<lparr>ep_events = MCON_CLIENT_SOCKET_SUBSCRIBED_EVENTS OR
                             (if cfg_edge_triggered_client_events (configuration m1)
                              then EPOLLET else 0),
                           ep_data = mcon_encode_epoll_entry
                             \<lparr>ee_instance_id = instance_id m1, ee_generation = generation s,
                              ee_source = MCON_EPOLL_SOURCE_SESSION, ee_session = new_session,
                              ee_reserved = 0\<rparr>\<rparr>)) (os w1);
                  if rv r \<noteq> 0 then
                    (let (_, fs1) = st_push (stk L) fs new_session;
                         (_, k1) = syscall (Close socket_fd) k
                     in Some (-1, w1\<lparr>inst := m1\<lparr>session_free_stack := fs1\<rparr>, os := k1\<rparr>))
                  else do {
                    m2 \<leftarrow> session_prep_for_new_client m1 new_session socket_fd;
                    w2 \<leftarrow> put_event base \<lparr>ev_result = ur_cqe_res (urg L) (ring m2) cqe,
                      ev_session = new_session, ev_type = MCON_EVENT_NEW_CONNECTION\<rparr>
                      (w1\<lparr>inst := m2, os := k\<rparr>);
                    Some (1, w2) } })))"

definition process_read ::
  "('s, 'q, 'r) libs \<Rightarrow> ('s, 'q, 'r) world \<Rightarrow> u64 \<Rightarrow> mcon_io_uring_entry \<Rightarrow> nat \<Rightarrow> u32 \<Rightarrow>
   (int \<times> ('s, 'q, 'r) world) option" where
  "process_read L w cqe entry base max_events =
    (if max_events < 1 then Some (0, w)
     else do {
       w1 \<leftarrow> put_event base \<lparr>ev_result = ur_cqe_res (urg L) (ring (inst w)) cqe,
         ev_session = io_session entry, ev_type = MCON_EVENT_READ_COMPLETE\<rparr> w;
       let w2 = cqe_seen L cqe w1;
       m \<leftarrow> upd_session (\<lambda>s. s\<lparr>sess_state := sess_state s AND NOT MCON_SESSION_STATE_READING\<rparr>)
         (io_session entry) (inst w2);
       Some (1, w2\<lparr>inst := m\<rparr>) })"

definition process_write ::
  "('s, 'q, 'r) libs \<Rightarrow> ('s, 'q, 'r) world \<Rightarrow> u64 \<Rightarrow> mcon_io_uring_entry \<Rightarrow> nat \<Rightarrow> u32 \<Rightarrow>
   (int \<times> ('s, 'q, 'r) world) option" where
  "process_write L w cqe entry base max_events =
    (if max_events < 1 then Some (0, w)
     else do {
       w1 \<leftarrow> put_event base \<lparr>ev_result = ur_cqe_res (urg L) (ring (inst w)) cqe,
         ev_session = io_session entry, ev_type = MCON_EVENT_WRITE_COMPLETE\<rparr> w;
       let w2 = cqe_seen L cqe w1;
       m \<leftarrow> upd_session (\<lambda>s. s\<lparr>sess_state := sess_state s AND NOT MCON_SESSION_STATE_WRITING\<rparr>)
         (io_session entry) (inst w2);
       Some (1, w2\<lparr>inst := m\<rparr>) })"

definition process_drain ::
  "('s, 'q, 'r) libs \<Rightarrow> ('s, 'q, 'r) world \<Rightarrow> u64 \<Rightarrow> mcon_io_uring_entry \<Rightarrow> nat \<Rightarrow> u32 \<Rightarrow>
   (int \<times> ('s, 'q, 'r) world) option" where
  "process_drain L w cqe entry base max_events =
    (if max_events < 1 then Some (0, w)
     else do {
       w1 \<leftarrow> put_event base \<lparr>ev_result = ur_cqe_res (urg L) (ring (inst w)) cqe,
         ev_session = io_session entry, ev_type = MCON_EVENT_DRAIN_COMPLETE\<rparr> w;
       let w2 = cqe_seen L cqe w1;
       m \<leftarrow> upd_session (\<lambda>s. s\<lparr>sess_state := sess_state s AND NOT MCON_SESSION_STATE_READING\<rparr>)
         (io_session entry) (inst w2);
       Some (1, w2\<lparr>inst := m\<rparr>) })"

definition process_close ::
  "('s, 'q, 'r) libs \<Rightarrow> ('s, 'q, 'r) world \<Rightarrow> u64 \<Rightarrow> mcon_io_uring_entry \<Rightarrow> nat \<Rightarrow> u32 \<Rightarrow>
   (int \<times> ('s, 'q, 'r) world) option" where
  "process_close L w cqe entry base max_events =
    (if max_events < 1 then Some (-1, w\<lparr>os := set_errno ENOBUFS (os w)\<rparr>)
     else do {
       w1 \<leftarrow> put_event base \<lparr>ev_result = ur_cqe_res (urg L) (ring (inst w)) cqe,
         ev_session = io_session entry, ev_type = MCON_EVENT_CLOSE_COMPLETE\<rparr> w;
       let (rc, fs) = st_push (stk L) (session_free_stack (inst w1)) (io_session entry);
       let m1 = (inst w1)\<lparr>session_free_stack := fs\<rparr>;
       if rc \<noteq> 0 then Some (-1, w1\<lparr>inst := m1\<rparr>)
       else do {
         m2 \<leftarrow> session_reset_after_close m1 (io_session entry);
         let w2 = cqe_seen L cqe (w1\<lparr>inst := m2\<rparr>);
         m3 \<leftarrow> upd_session (\<lambda>s. s\<lparr>sess_state := sess_state s AND NOT MCON_SESSION_STATE_CLOSING\<rparr>)
           (io_session entry) (inst w2);
         let m4 = (if is_shutting_down (m_state m3) \<and> mcon_active_session_count L m3 = 0
                   then mcon_complete_shutdown m3 else m3);
         Some (1, w2\<lparr>inst := m4\<rparr>) } })"

subsection \<open>Dispatch and loop\<close>

text \<open>The \<open>switch\<close>; an operation with no case leaves \<open>err\<close> at \<open>-1\<close>.\<close>

definition process_cqe ::
  "('s, 'q, 'r) libs \<Rightarrow> ('s, 'q, 'r) world \<Rightarrow> u64 \<Rightarrow> u32 \<Rightarrow> u32 \<Rightarrow>
   (int \<times> ('s, 'q, 'r) world) option" where
  "process_cqe L w cqe event_count max_events =
    (let cqe_data = io_uring_entry_of_data (ur_cqe_data (urg L) (ring (inst w)) cqe);
         base = unat event_count; room = max_events - event_count
     in case io_operation cqe_data of
          MCON_IO_SESSION_ACCEPT \<Rightarrow> process_accept L w cqe base room
        | MCON_IO_SESSION_READ \<Rightarrow> process_read L w cqe cqe_data base room
        | MCON_IO_SESSION_WRITE \<Rightarrow> process_write L w cqe cqe_data base room
        | MCON_IO_SESSION_DRAIN \<Rightarrow> process_drain L w cqe cqe_data base room
        | MCON_IO_SESSION_CLOSE \<Rightarrow> process_close L w cqe cqe_data base room
        | _ \<Rightarrow> Some (-1, w))"

text \<open>\<open>io_uring_peek_cqe(&mcon->ring, &cqe)\<close>: the return code, the pointer, the ring after it.\<close>

definition peek_cqe ::
  "('s, 'q, 'r) libs \<Rightarrow> ('s, 'q, 'r) world \<Rightarrow> int \<times> u64 \<times> ('s, 'q, 'r) world" where
  "peek_cqe L w =
     (case ur_peek_cqe (urg L) (ring (inst w)) of
        (rc, cqe, r) \<Rightarrow> (rc, cqe, w\<lparr>inst := (inst w)\<lparr>ring := r\<rparr>\<rparr>))"

text \<open>The bookkeeping that ends a round: \<open>sqe_in_flight -= cqe != next_cqe\<close>.\<close>

definition count_consumed ::
  "('s, 'q, 'r) libs \<Rightarrow> u64 \<Rightarrow> ('s, 'q, 'r) world \<Rightarrow> ('s, 'q, 'r) world" where
  "count_consumed L cqe w =
     (case peek_cqe L w of (_, next_cqe, w1) \<Rightarrow>
        w1\<lparr>inst := (inst w1)\<lparr>m_state := (m_state (inst w1))\<lparr>sqe_in_flight :=
          sqe_in_flight (m_state (inst w1)) - of_bool (cqe \<noteq> next_cqe)\<rparr>\<rparr>\<rparr>)"

partial_function (option) ring_loop ::
  "('s, 'q, 'r) libs \<Rightarrow> u32 \<Rightarrow> u32 \<Rightarrow> u32 \<Rightarrow> ('s, 'q, 'r) world \<Rightarrow>
   (u32 \<times> u32 \<times> ('s, 'q, 'r) world) option" where
  "ring_loop L max_events event_count iteration_count w =
     (case peek_cqe L w of (rc, cqe, w1) \<Rightarrow>
        if event_count < max_events \<and> rc = 0 then
          Option.bind (process_cqe L w1 cqe event_count max_events) (\<lambda>(err, w2).
            if err < 0 then Some (event_count, iteration_count, w2)
            else ring_loop L max_events (event_count + word_of_int err) (iteration_count + 1)
                   (count_consumed L cqe w2))
        else Some (event_count, iteration_count, w1))"

declare ring_loop.simps [code]

text \<open>Clearing the eventfd, and raising it again for a completion that came meanwhile.\<close>

definition clear_eventfd ::
  "('s, 'q, 'r) libs \<Rightarrow> ('s, 'q, 'r) world \<Rightarrow> ('s, 'q, 'r) world" where
  "clear_eventfd L w =
     (let (_, k) = syscall (Read_fd (io_uring_eventfd (inst w))) (os w)
      in if ur_cq_ready (urg L) (ring (inst w)) \<noteq> 0
         then w\<lparr>os := snd (syscall (Write_fd (io_uring_eventfd (inst w)) 1) k)\<rparr>
         else w\<lparr>os := k\<rparr>)"

definition mcon_process_io_uring_event ::
  "('s, 'q, 'r) libs \<Rightarrow> ('s, 'q, 'r) world \<Rightarrow> u32 \<Rightarrow> (int \<times> ('s, 'q, 'r) world) option" where
  "mcon_process_io_uring_event L w max_events =
     do { (event_count, iteration_count, w1) \<leftarrow> ring_loop L max_events 0 0 w;
          Some (sint event_count, if iteration_count = 0 then clear_eventfd L w1 else w1) }"

subsection \<open>What every handler does to the instance\<close>

text \<open>
  The frame of a handler: it consumes the completion, writes no event but the one it was given, and
  leaves the counter of submitted requests and the configuration alone.
\<close>

definition handled ::
  "('s, 'q, 'r) libs \<Rightarrow> u64 \<Rightarrow> nat \<Rightarrow> ('s, 'q, 'r) world \<Rightarrow> int \<Rightarrow> ('s, 'q, 'r) world \<Rightarrow> bool" where
  "handled L cqe base w err w' \<longleftrightarrow>
     ring (inst w') = ur_cqe_seen (urg L) (ring (inst w)) cqe \<and>
     sqe_in_flight (m_state (inst w')) = sqe_in_flight (m_state (inst w)) \<and>
     configuration (inst w') = configuration (inst w) \<and> answers (os w') = answers (os w) \<and>
     ((err = -1 \<or> err = 0) \<and> evbuf w' = evbuf w \<or>
      err = 1 \<and> (\<exists>e. evbuf w' = (evbuf w)[base := e]))"

text \<open>A peeked completion of an entry: the premises the handlers share.\<close>

definition peeked ::
  "('s, 'q, 'r) libs \<Rightarrow> u64 \<Rightarrow> ('s, 'q, 'r) world \<Rightarrow> mcon_io_uring_entry \<Rightarrow> bool" where
  "peeked L cqe w e \<longleftrightarrow> (\<exists>r0. ur_peek_cqe (urg L) r0 = (0, cqe, ring (inst w))) \<and>
     io_uring_entry_of_data (ur_cqe_data (urg L) (ring (inst w)) cqe) = e"

lemma pending_consumed:
  assumes "libs_ok L V" "peeked L cqe w e"
    and "ring m' = ur_cqe_seen (urg L) (ring (inst w)) cqe" "m_io_queue m' = m_io_queue (inst w)"
  shows "pending V m' = pending V (inst w) - {# e #}" "e \<in># pending V (inst w)"
proof -
  obtain r0 where peek: "ur_peek_cqe (urg L) r0 = (0, cqe, ring (inst w))"
    and e: "io_uring_entry_of_data (ur_cqe_data (urg L) (ring (inst w)) cqe) = e"
    using assms(2) by (auto simp: peeked_def)
  show "e \<in># pending V (inst w)"
    using pending_seen(1) [OF assms(1) peek] by (simp add: e)
  show "pending V m' = pending V (inst w) - {# e #}"
    using pending_seen(2) [OF assms(1) peek] assms(3,4) by (simp add: e pending_def)
qed

lemma completed_session:
  assumes "libs_ok L V" "peeked L cqe w (io_entry oper i)" "mcon_inv V (inst w)"
    and "oper \<noteq> MCON_IO_SESSION_ACCEPT"
  shows "unat i < length (sessions (inst w))"
    "bit (sess_state (sessions (inst w) ! unat i)) (request_bit oper)"
    "socket_fd (sessions (inst w) ! unat i) \<noteq> -1"
  using proto_inv_pending_bit [of "pending V (inst w)" _ _ _ _ oper i] assms(3,4)
    pending_consumed(2) [OF assms(1,2), of "(inst w)\<lparr>ring := ur_cqe_seen (urg L) (ring (inst w)) cqe\<rparr>"]
  by (auto simp: mcon_inv_def)

subsection \<open>The contract of read, write and drain completions\<close>

locale completion_handler =
  fixes handle :: "('s, 'q, 'r) libs \<Rightarrow> ('s, 'q, 'r) world \<Rightarrow> u64 \<Rightarrow> mcon_io_uring_entry \<Rightarrow> nat \<Rightarrow>
      u32 \<Rightarrow> (int \<times> ('s, 'q, 'r) world) option"
    and oper :: mcon_io_uring_operation and flag :: u8 and reported_as :: mcon_event_type
  assumes no_room: "mx < 1 \<Longrightarrow> handle L w p e base mx = Some (0, w)"
    and completes: "\<not> mx < 1 \<Longrightarrow> base < length (evbuf w) \<Longrightarrow>
      unat (io_session e) < length (sessions (inst w)) \<Longrightarrow>
      handle L w p e base mx = Some (1, w\<lparr>
        inst := (inst w)\<lparr>sessions := (sessions (inst w))[unat (io_session e) :=
            (sessions (inst w) ! unat (io_session e))\<lparr>sess_state :=
              sess_state (sessions (inst w) ! unat (io_session e)) AND NOT flag\<rparr>],
          ring := ur_cqe_seen (urg L) (ring (inst w)) p\<rparr>,
        evbuf := (evbuf w)[base := \<lparr>ev_result = ur_cqe_res (urg L) (ring (inst w)) p,
          ev_session = io_session e, ev_type = reported_as\<rparr>]\<rparr>)"
    and oper_kind: "oper \<in> {MCON_IO_SESSION_READ, MCON_IO_SESSION_WRITE, MCON_IO_SESSION_DRAIN}"
    and clears: "bit (x AND NOT flag) b \<longleftrightarrow> bit x b \<and> b \<noteq> request_bit oper"
begin

lemma keeps_inv:
  assumes laws: "libs_ok L V" and inv: "mcon_inv V (inst w)"
    and e: "peeked L p w (io_entry oper i)"
    and room: "\<not> mx < 1" "base < length (evbuf w)"
  shows "\<exists>err w'. handle L w p (io_entry oper i) base mx = Some (err, w') \<and>
    handled L p base w err w' \<and> mcon_inv V (inst w')"
proof -
  have not_accept: "oper \<noteq> MCON_IO_SESSION_ACCEPT"
    using oper_kind by auto
  note s = completed_session [OF laws e inv not_accept]
  let ?s = "sessions (inst w) ! unat i"
  let ?s' = "?s\<lparr>sess_state := sess_state ?s AND NOT flag\<rparr>"
  note run = completes [OF room, of "io_entry oper i" L p, unfolded io_entry_sel, OF s(1)]
  let ?m = "(inst w)\<lparr>sessions := (sessions (inst w))[unat i := ?s'],
    ring := ur_cqe_seen (urg L) (ring (inst w)) p\<rparr>"
  note pend = pending_consumed [OF laws e, of ?m]
  have "proto_inv (pending V (inst w) - {# io_entry oper i #}) (vw_items V (session_free_stack (inst w)))
      ((sessions (inst w))[unat i := ?s']) (accepts_live (m_state (inst w))) (configuration (inst w))"
    using inv pend(2) oper_kind
    by (intro proto_inv_complete) (auto simp: mcon_inv_def clears)
  then have "mcon_inv V ?m"
    using inv pend(1) by (simp add: mcon_inv_def)
  then show ?thesis
    using run by (auto simp: handled_def)
qed

end

interpretation rdc: completion_handler process_read MCON_IO_SESSION_READ 1 MCON_EVENT_READ_COMPLETE
  by unfold_locales
    (auto simp: process_read_def put_event_def cqe_seen_def bit_facts request_bit_def)

interpretation wrc: completion_handler process_write MCON_IO_SESSION_WRITE 2 MCON_EVENT_WRITE_COMPLETE
  by unfold_locales
    (auto simp: process_write_def put_event_def cqe_seen_def bit_facts request_bit_def)

interpretation drc: completion_handler process_drain MCON_IO_SESSION_DRAIN 1 MCON_EVENT_DRAIN_COMPLETE
  by unfold_locales
    (auto simp: process_drain_def put_event_def cqe_seen_def bit_facts request_bit_def)

text \<open>One order for the updates of independent fields.\<close>

lemma update_order:
  "m\<lparr>ring := r, sessions := ss\<rparr> = m\<lparr>sessions := ss, ring := r\<rparr>"
  "w\<lparr>evbuf := b, inst := m\<rparr> = w\<lparr>inst := m, evbuf := b\<rparr>"
  by simp_all

subsection \<open>A close completion\<close>

lemma proto_inv_outside:
  assumes "proto_inv P free ss acc c" "unat i < length ss" "socket_fd (ss ! unat i) \<noteq> -1"
  shows "i \<notin> set free" "length free < length ss"
proof -
  have "session_ok P free i (ss ! unat i)"
    using assms(1,2) by (auto simp: proto_inv_def)
  with assms(3) show "i \<notin> set free"
    by (simp add: session_ok_def)
  with assms(1,2) show "length free < length ss"
    by (rule proto_inv_room)
qed

lemma process_close_runs:
  assumes laws: "libs_ok L V" and inv: "mcon_inv V (inst w)"
    and e: "peeked L p w (io_entry MCON_IO_SESSION_CLOSE i)"
    and room: "\<not> mx < 1" "base < length (evbuf w)"
  defines "s \<equiv> sessions (inst w) ! unat i"
  obtains fs m w' where
    "process_close L w p (io_entry MCON_IO_SESSION_CLOSE i) base mx = Some (1, w')"
    "vw_items V fs = i # vw_items V (session_free_stack (inst w))"
    "m = (inst w)\<lparr>session_free_stack := fs, sessions := (sessions (inst w))[unat i :=
        s\<lparr>socket_fd := -1, generation := generation s + 1, sess_state := sess_state s AND NOT 8\<rparr>],
      ring := ur_cqe_seen (urg L) (ring (inst w)) p\<rparr>"
    "inst w' = (if is_shutting_down (m_state m) \<and> mcon_active_session_count L m = 0
        then mcon_complete_shutdown m else m)"
    "os w' = os w"
    "evbuf w' = (evbuf w)[base := \<lparr>ev_result = ur_cqe_res (urg L) (ring (inst w)) p, ev_session = i,
        ev_type = MCON_EVENT_CLOSE_COMPLETE\<rparr>]"
    "mcon_inv V m"
proof -
  note sess = completed_session [OF laws e inv, simplified]
  have "length (vw_items V (session_free_stack (inst w))) < vw_cap V (session_free_stack (inst w))"
    using proto_inv_outside(2) [OF _ sess(1,3)] inv by (auto simp: mcon_inv_def)
  moreover obtain rc fs where push: "st_push (stk L) (session_free_stack (inst w)) i = (rc, fs)"
    by force
  ultimately have fs: "rc = 0" "vw_items V fs = i # vw_items V (session_free_stack (inst w))"
    "vw_cap V fs = vw_cap V (session_free_stack (inst w))"
    using libs_push_room [OF laws push] by auto
  define s' where "s' = s\<lparr>socket_fd := -1, generation := generation s + 1,
    sess_state := sess_state s AND NOT 8\<rparr>"
  define m where "m = (inst w)\<lparr>session_free_stack := fs, sessions := (sessions (inst w))[unat i := s'],
      ring := ur_cqe_seen (urg L) (ring (inst w)) p\<rparr>"
  note pend = pending_consumed [OF laws e, of m]
  have "proto_inv (pending V (inst w) - {# io_entry MCON_IO_SESSION_CLOSE i #})
      (i # vw_items V (session_free_stack (inst w))) ((sessions (inst w))[unat i := s'])
      (accepts_live (m_state (inst w))) (configuration (inst w))"
    using inv pend(2)
    by (intro proto_inv_close_complete) (auto simp: mcon_inv_def m_def s'_def s_def bit_facts)
  then have inv': "mcon_inv V m"
    using inv pend(1) fs by (simp add: mcon_inv_def m_def)
  define w' where "w' = w\<lparr>inst := (if is_shutting_down (m_state m) \<and> mcon_active_session_count L m = 0
      then mcon_complete_shutdown m else m),
    evbuf := (evbuf w)[base := \<lparr>ev_result = ur_cqe_res (urg L) (ring (inst w)) p, ev_session = i,
        ev_type = MCON_EVENT_CLOSE_COMPLETE\<rparr>]\<rparr>"
  have "process_close L w p (io_entry MCON_IO_SESSION_CLOSE i) base mx = Some (1, w')"
    using push fs(1) room sess(1)
    by (simp add: process_close_def put_event_def cqe_seen_def Let_def w'_def m_def s'_def s_def
        session_reset_after_close_def next_generation_plus_one mcon_active_session_count_def update_order)
  from that [OF this fs(2) m_def [unfolded s'_def] _ _ _ inv'] show ?thesis
    by (simp add: w'_def)
qed

subsection \<open>An accept completion\<close>

definition accept_call :: "('s, 'q, 'r) mcon \<Rightarrow> int \<Rightarrow> mcon_session_idx \<Rightarrow> ecall" where
  "accept_call m fd i = Epoll_ctl (epoll_fd m) EPOLL_CTL_ADD fd
     (Some \<lparr>ep_events = MCON_CLIENT_SOCKET_SUBSCRIBED_EVENTS OR
         (if cfg_edge_triggered_client_events (configuration m) then EPOLLET else 0),
       ep_data = mcon_encode_epoll_entry \<lparr>ee_instance_id = instance_id m,
         ee_generation = generation (sessions m ! unat i),
         ee_source = MCON_EPOLL_SOURCE_SESSION, ee_session = i, ee_reserved = 0\<rparr>\<rparr>)"

text \<open>The instance once the accept request is consumed and counted.\<close>

definition accept_consumed ::
  "('s, 'q, 'r) libs \<Rightarrow> u64 \<Rightarrow> bool \<Rightarrow> ('s, 'q, 'r) mcon \<Rightarrow> ('s, 'q, 'r) mcon" where
  "accept_consumed L cqe requested m = m\<lparr>ring := ur_cqe_seen (urg L) (ring m) cqe,
     m_state := (m_state m)\<lparr>accepts_live := accepts_live (m_state m) - 1,
       accepts_requested := requested\<rparr>\<rparr>"

lemma accept_consumed_sel [simp]:
  "ring (accept_consumed L p b m) = ur_cqe_seen (urg L) (ring m) p"
  "sessions (accept_consumed L p b m) = sessions m"
  "session_free_stack (accept_consumed L p b m) = session_free_stack m"
  "configuration (accept_consumed L p b m) = configuration m"
  "epoll_fd (accept_consumed L p b m) = epoll_fd m"
  "instance_id (accept_consumed L p b m) = instance_id m"
  "m_io_queue (accept_consumed L p b m) = m_io_queue m"
  "sqe_in_flight (m_state (accept_consumed L p b m)) = sqe_in_flight (m_state m)"
  "accepts_live (m_state (accept_consumed L p b m)) = accepts_live (m_state m) - 1"
  by (simp_all add: accept_consumed_def)

lemma accepts_requested_unchanged:
  "st\<lparr>accepts_live := a, accepts_requested := accepts_requested st\<rparr> = st\<lparr>accepts_live := a\<rparr>"
  by simp

text \<open>An accept in flight has reserved a free session.\<close>

lemma accept_finds_session:
  assumes laws: "libs_ok L V" and inv: "mcon_inv V (inst w)"
    and e: "peeked L p w accept_entry"
    and m: "m = accept_consumed L p b (inst w)"
  shows "mcon_inv V m" "unat (accepts_live (m_state m)) < length (vw_items V (session_free_stack m))"
proof -
  note pend = pending_consumed [OF laws e, of m]
  have "proto_inv (pending V (inst w)) (vw_items V (session_free_stack (inst w)))
      (sessions (inst w)) (accepts_live (m_state (inst w))) (configuration (inst w))"
    using inv by (simp add: mcon_inv_def)
  from proto_inv_accept_done [OF this pend(2)]
  show "mcon_inv V m" "unat (accepts_live (m_state m)) < length (vw_items V (session_free_stack m))"
    using inv pend(1) by (auto simp: mcon_inv_def m)
qed

lemma process_accept_cases:
  assumes laws: "libs_ok L V" and inv: "mcon_inv V (inst w)"
    and e: "peeked L p w accept_entry"
    and room: "\<not> mx < 1" "base < length (evbuf w)"
  defines "m \<equiv> accept_consumed L p True (inst w)"
  defines "res \<equiv> ur_cqe_res (urg L) (ur_cqe_seen (urg L) (ring (inst w)) p) p"
  obtains (nothing) w' where
      "ur_cqe_res (urg L) (ring (inst w)) p = - EAGAIN"
      "process_accept L w p base mx = Some (0, w')"
      "inst w' = accept_consumed L p (accepts_requested (m_state (inst w))) (inst w)"
      "os w' = os w" "evbuf w' = evbuf w" "mcon_inv V (inst w')"
  | (failed) w' where
      "ur_cqe_res (urg L) (ring (inst w)) p \<noteq> - EAGAIN" "res < 0"
      "process_accept L w p base mx = Some (1, w')" "inst w' = m" "os w' = os w"
      "evbuf w' = (evbuf w)[base := \<lparr>ev_result = res, ev_session = MCON_NO_SESSION,
         ev_type = MCON_EVENT_NEW_CONNECTION\<rparr>]" "mcon_inv V (inst w')"
  | (refused) i free fs w' where
      "ur_cqe_res (urg L) (ring (inst w)) p \<noteq> - EAGAIN" "0 \<le> res"
      "vw_items V (session_free_stack (inst w)) = i # free"
      "rv (answer (os w) (accept_call (inst w) res i)) \<noteq> 0"
      "process_accept L w p base mx = Some (-1, w')"
      "inst w' = m\<lparr>session_free_stack := fs\<rparr>" "vw_items V fs = i # free"
      "answers (os w') = answers (os w)" "evbuf w' = evbuf w" "mcon_inv V (inst w')"
      "\<exists>r. trace (os w') = trace (os w) @
        [(accept_call (inst w) res i, answer (os w) (accept_call (inst w) res i)), (Close res, r)]"
  | (connected) i free fs w' where
      "ur_cqe_res (urg L) (ring (inst w)) p \<noteq> - EAGAIN" "0 \<le> res"
      "vw_items V (session_free_stack (inst w)) = i # free"
      "rv (answer (os w) (accept_call (inst w) res i)) = 0"
      "process_accept L w p base mx = Some (1, w')"
      "inst w' = m\<lparr>session_free_stack := fs, sessions := (sessions (inst w))[unat i :=
         (sessions (inst w) ! unat i)\<lparr>socket_fd := res, sess_state := 0\<rparr>]\<rparr>"
      "vw_items V fs = free"
      "answers (os w') = answers (os w)"
      "evbuf w' = (evbuf w)[base := \<lparr>ev_result = res, ev_session = i,
         ev_type = MCON_EVENT_NEW_CONNECTION\<rparr>]" "mcon_inv V (inst w')"
      "trace (os w') = trace (os w) @
        [(accept_call (inst w) res i, answer (os w) (accept_call (inst w) res i))]"
proof -
  note m_inv = accept_finds_session(1) [OF laws inv e m_def [THEN meta_eq_to_obj_eq]]
  note room' = accept_finds_session(2) [OF laws inv e m_def [THEN meta_eq_to_obj_eq]]
  obtain popped fs where pop: "st_pop (stk L) (session_free_stack (inst w)) = (popped, fs)"
    by force
  obtain i free where items: "vw_items V (session_free_stack (inst w)) = i # free"
    using room' by (cases "vw_items V (session_free_stack (inst w))") (auto simp: m_def)
  then have fs: "popped = Some i" "vw_items V fs = free"
    "vw_cap V fs = vw_cap V (session_free_stack (inst w))"
    using libs_pop [OF laws pop] by auto
  obtain rc1 fs1 where push: "st_push (stk L) fs i = (rc1, fs1)"
    by force
  have room1: "length (vw_items V fs) < vw_cap V fs"
    using proto_inv_free_bound [of "pending V m" "i # free" "sessions m" "accepts_live (m_state m)"
        "configuration m"] m_inv items fs
    by (simp add: mcon_inv_def m_def)
  then have fs1: "vw_items V fs1 = i # free" "vw_cap V fs1 = vw_cap V (session_free_stack (inst w))"
    using libs_push_room [OF laws push] fs by auto
  have i: "unat i < length (sessions (inst w))"
    using inv items by (auto simp: mcon_inv_def proto_inv_def)
  let ?call = "accept_call (inst w) res i"
  consider (1) "ur_cqe_res (urg L) (ring (inst w)) p = - EAGAIN"
    | (2) "ur_cqe_res (urg L) (ring (inst w)) p \<noteq> - EAGAIN" "res < 0"
    | (3) "ur_cqe_res (urg L) (ring (inst w)) p \<noteq> - EAGAIN" "0 \<le> res" "rv (answer (os w) ?call) \<noteq> 0"
    | (4) "ur_cqe_res (urg L) (ring (inst w)) p \<noteq> - EAGAIN" "0 \<le> res" "rv (answer (os w) ?call) = 0"
    by force
  then show ?thesis
  proof cases
    case 1
    have run: "process_accept L w p base mx = Some (0, w\<lparr>inst :=
        accept_consumed L p (accepts_requested (m_state (inst w))) (inst w)\<rparr>)"
      using 1 by (simp add: process_accept_def Let_def cqe_seen_def accept_consumed_def
          accepts_requested_unchanged)
    show ?thesis
    proof (rule that(1) [OF 1 run])
    qed (use accept_finds_session(1) [OF laws inv e refl] in simp_all)
  next
    case 2
    have run: "process_accept L w p base mx = Some (1, w\<lparr>inst := m,
        evbuf := (evbuf w)[base := \<lparr>ev_result = res, ev_session = MCON_NO_SESSION,
          ev_type = MCON_EVENT_NEW_CONNECTION\<rparr>]\<rparr>)"
      using 2 room by (simp add: process_accept_def Let_def cqe_seen_def put_event_def
          res_def m_def accept_consumed_def)
    show ?thesis
      by (rule that(2) [OF 2 run]) (use m_inv in auto)
  next
    case 3
    have inv': "mcon_inv V (m\<lparr>session_free_stack := fs1\<rparr>)"
      using m_inv fs1 items by (simp add: mcon_inv_def m_def)
    define k1 where "k1 = snd (syscall ?call (os w))"
    have run: "process_accept L w p base mx = Some (-1, w\<lparr>inst := m\<lparr>session_free_stack := fs1\<rparr>,
        os := snd (syscall (Close res) k1)\<rparr>)"
      using 3 room pop push fs(1) i
      by (simp add: process_accept_def Let_def cqe_seen_def res_def m_def accept_consumed_def
          k1_def rt_simps accept_call_def)
    show ?thesis
      by (rule that(3) [OF 3(1,2) items 3(3) run _ fs1(1)])
        (use inv' in \<open>auto simp: k1_def rt_simps\<close>)
  next
    case 4
    let ?s' = "(sessions (inst w) ! unat i)\<lparr>socket_fd := res, sess_state := 0\<rparr>"
    let ?m = "m\<lparr>session_free_stack := fs, sessions := (sessions (inst w))[unat i := ?s']\<rparr>"
    have "proto_inv (pending V m) free ((sessions m)[unat i := ?s']) (accepts_live (m_state m))
        (configuration m)"
      using m_inv room' items 4(2)
      by (intro proto_inv_open [of _ i]) (auto simp: mcon_inv_def m_def)
    then have inv': "mcon_inv V ?m"
      using m_inv fs by (simp add: mcon_inv_def m_def)
    have run: "process_accept L w p base mx = Some (1, w\<lparr>inst := ?m,
        os := snd (syscall ?call (os w)), evbuf := (evbuf w)[base := \<lparr>ev_result = res,
          ev_session = i, ev_type = MCON_EVENT_NEW_CONNECTION\<rparr>]\<rparr>)"
      using 4 room pop fs(1) i
      by (simp add: process_accept_def Let_def cqe_seen_def res_def m_def accept_consumed_def
          rt_simps accept_call_def session_prep_for_new_client_def put_event_def)
    show ?thesis
      by (rule that(4) [OF 4(1,2) items 4(3) run _ fs(2)]) (use inv' in \<open>auto simp: rt_simps\<close>)
  qed
qed

subsection \<open>Every handler keeps the invariant\<close>

lemma mcon_complete_shutdown_sel [simp]:
  "ring (mcon_complete_shutdown m) = ring m" "sessions (mcon_complete_shutdown m) = sessions m"
  "session_free_stack (mcon_complete_shutdown m) = session_free_stack m"
  "configuration (mcon_complete_shutdown m) = configuration m"
  "sqe_in_flight (m_state (mcon_complete_shutdown m)) = sqe_in_flight (m_state m)"
  "accepts_live (m_state (mcon_complete_shutdown m)) = accepts_live (m_state m)"
  "io_uring_eventfd (mcon_complete_shutdown m) = io_uring_eventfd m"
  "m_io_queue (mcon_complete_shutdown m) = m_io_queue m"
  by (simp_all add: mcon_complete_shutdown_def)

lemma process_accept_keeps_inv:
  assumes "libs_ok L V" "mcon_inv V (inst w)" "peeked L p w accept_entry"
    and "\<not> mx < 1" "base < length (evbuf w)"
  shows "\<exists>err w'. process_accept L w p base mx = Some (err, w') \<and>
    handled L p base w err w' \<and> mcon_inv V (inst w')"
  by (cases rule: process_accept_cases [OF assms]) (auto simp: handled_def)

lemma process_close_keeps_inv:
  assumes "libs_ok L V" "mcon_inv V (inst w)" "peeked L p w (io_entry MCON_IO_SESSION_CLOSE i)"
    and "\<not> mx < 1" "base < length (evbuf w)"
  shows "\<exists>err w'. process_close L w p (io_entry MCON_IO_SESSION_CLOSE i) base mx = Some (err, w') \<and>
    handled L p base w err w' \<and> mcon_inv V (inst w')"
  by (rule process_close_runs [OF assms]) (auto simp: handled_def frame)

text \<open>A completion the loop has peeked belongs to an accept or to a request of a session.\<close>

lemma peeked_completion:
  assumes laws: "libs_ok L V" and inv: "mcon_inv V (inst w)"
    and peek: "ur_peek_cqe (urg L) r0 = (0, p, ring (inst w))"
    and room: "ec < mx" "unat mx \<le> length (evbuf w)"
  obtains (accept) "peeked L p w accept_entry" "\<not> mx - ec < 1" "unat ec < length (evbuf w)"
      "process_cqe L w p ec mx = process_accept L w p (unat ec) (mx - ec)"
  | (session) oper i where "peeked L p w (io_entry oper i)" "\<not> mx - ec < 1"
      "unat ec < length (evbuf w)"
      "(oper, process_cqe L w p ec mx) \<in>
        {(MCON_IO_SESSION_READ, process_read L w p (io_entry oper i) (unat ec) (mx - ec)),
         (MCON_IO_SESSION_WRITE, process_write L w p (io_entry oper i) (unat ec) (mx - ec)),
         (MCON_IO_SESSION_DRAIN, process_drain L w p (io_entry oper i) (unat ec) (mx - ec)),
         (MCON_IO_SESSION_CLOSE, process_close L w p (io_entry oper i) (unat ec) (mx - ec))}"
proof -
  define e where "e = io_uring_entry_of_data (ur_cqe_data (urg L) (ring (inst w)) p)"
  have pk: "peeked L p w e"
    using peek by (auto simp: peeked_def e_def)
  have base: "unat ec < length (evbuf w)"
    using room by (simp add: word_less_nat_alt)
  have mx: "\<not> mx - ec < 1"
    using room(1) by (auto simp: word_less_1)
  have "e \<in># pending V (inst w)"
    using pending_consumed(2) [OF laws pk, of "(inst w)\<lparr>ring := ur_cqe_seen (urg L) (ring (inst w)) p\<rparr>"]
    by simp
  then consider "e = accept_entry" | (entry) "session_entry (length (sessions (inst w))) e"
    using inv by (auto simp: mcon_inv_def proto_inv_def)
  then show ?thesis
  proof cases
    case 1
    then show ?thesis
      using accept [OF _ mx base] pk
      by (simp add: process_cqe_def e_def [symmetric] Let_def accept_entry_def)
  next
    case entry
    obtain oper i where e: "e = io_entry oper i"
      using io_entry_collapse [of e] by metis
    show ?thesis
      using session [OF _ mx base, of oper i] entry pk
      by (auto simp: session_entry_def process_cqe_def e_def [symmetric] Let_def e)
  qed
qed

lemma process_cqe_keeps_inv:
  assumes laws: "libs_ok L V" and inv: "mcon_inv V (inst w)"
    and peek: "ur_peek_cqe (urg L) r0 = (0, p, ring (inst w))"
    and room: "ec < mx" "unat mx \<le> length (evbuf w)"
  shows "\<exists>err w'. process_cqe L w p ec mx = Some (err, w') \<and>
    handled L p (unat ec) w err w' \<and> mcon_inv V (inst w')"
proof (rule peeked_completion [OF assms], goal_cases)
  case 1
  then show ?case
    using process_accept_keeps_inv [OF laws inv 1(1-3)] by simp
next
  case (2 oper i)
  then show ?case
    using rdc.keeps_inv [OF laws inv _ 2(2,3), of p i] wrc.keeps_inv [OF laws inv _ 2(2,3), of p i]
      drc.keeps_inv [OF laws inv _ 2(2,3), of p i]
      process_close_keeps_inv [OF laws inv _ 2(2,3), of p i]
    by auto
qed

subsection \<open>The loop\<close>

lemma peek_cqe_frame:
  assumes "libs_ok L V" "peek_cqe L w = (rc, p, w')"
  shows "pending V (inst w') = pending V (inst w)" "mcon_inv V (inst w') = mcon_inv V (inst w)"
    "sessions (inst w') = sessions (inst w)" "m_state (inst w') = m_state (inst w)"
    "configuration (inst w') = configuration (inst w)"
    "vw_live V (ring (inst w')) = vw_live V (ring (inst w))"
    "os w' = os w" "evbuf w' = evbuf w"
    "rc = 0 \<Longrightarrow> \<exists>r0. ur_peek_cqe (urg L) r0 = (0, p, ring (inst w'))"
proof -
  obtain r where peek: "ur_peek_cqe (urg L) (ring (inst w)) = (rc, p, r)"
    and w': "w' = w\<lparr>inst := (inst w)\<lparr>ring := r\<rparr>\<rparr>"
    using assms(2) by (auto simp: peek_cqe_def split: prod.splits)
  note law = libs_peek [OF assms(1) peek]
  have pend: "pending V (inst w') = pending V (inst w)"
    using law w' by (simp add: pending_ring_same)
  then show "pending V (inst w') = pending V (inst w)" "mcon_inv V (inst w') = mcon_inv V (inst w)"
    "sessions (inst w') = sessions (inst w)" "m_state (inst w') = m_state (inst w)"
    "configuration (inst w') = configuration (inst w)"
    "vw_live V (ring (inst w')) = vw_live V (ring (inst w))"
    "os w' = os w" "evbuf w' = evbuf w"
    using w' law by (simp_all add: mcon_inv_def)
  show "\<exists>r0. ur_peek_cqe (urg L) r0 = (0, p, ring (inst w'))" if "rc = 0"
    using peek w' that by auto
qed

text \<open>A consumed completion is not the next one, so the round lowers the counter by one.\<close>

lemma count_consumed_seen:
  assumes laws: "libs_ok L V" and peek: "ur_peek_cqe (urg L) r0 = (0, p, ring (inst v))"
    and seen: "ring (inst w) = ur_cqe_seen (urg L) (ring (inst v)) p"
  defines "w' \<equiv> count_consumed L p w"
  shows "m_state (inst w') = (m_state (inst w))\<lparr>sqe_in_flight := sqe_in_flight (m_state (inst w)) - 1\<rparr>"
    "mcon_inv V (inst w') = mcon_inv V (inst w)" "sessions (inst w') = sessions (inst w)"
    "configuration (inst w') = configuration (inst w)" "os w' = os w" "evbuf w' = evbuf w"
    "vw_live V (ring (inst w')) = vw_live V (ring (inst w))"
proof -
  obtain rc p' w1 where pk: "peek_cqe L w = (rc, p', w1)"
    by (cases "peek_cqe L w") auto
  obtain r where "ur_peek_cqe (urg L) (ur_cqe_seen (urg L) (ring (inst v)) p) = (rc, p', r)"
    using pk seen by (auto simp: peek_cqe_def split: prod.splits)
  then have "p \<noteq> p'"
    using libs_peek_found(5) [OF laws peek] by blast
  then show "m_state (inst w') =
      (m_state (inst w))\<lparr>sqe_in_flight := sqe_in_flight (m_state (inst w)) - 1\<rparr>"
    "mcon_inv V (inst w') = mcon_inv V (inst w)" "sessions (inst w') = sessions (inst w)"
    "configuration (inst w') = configuration (inst w)" "os w' = os w" "evbuf w' = evbuf w"
    "vw_live V (ring (inst w')) = vw_live V (ring (inst w))"
    using peek_cqe_frame [OF laws pk] pk by (simp_all add: w'_def count_consumed_def mcon_inv_def)
qed

lemma handled_live:
  assumes laws: "libs_ok L V" and peek: "ur_peek_cqe (urg L) r0 = (0, p, ring (inst v))"
    and h: "handled L p base v err w"
  shows "Suc (size (vw_live V (ring (inst w)))) = size (vw_live V (ring (inst v)))"
proof -
  have "ur_cqe_data (urg L) (ring (inst v)) p \<in># vw_live V (ring (inst v))"
    by (rule libs_peek_found(2) [OF laws peek])
  then show ?thesis
    using libs_peek_found(4) [OF laws peek] h by (simp add: handled_def size_Suc_Diff1)
qed

text \<open>
  The loop ends, keeps the invariant and stays below the capacity. It leaves the events of earlier
  calls alone, and it counts every completion it consumed but the one of a failing accept.
\<close>

definition loop_result ::
  "('s, 'q, 'r) views \<Rightarrow> u32 \<Rightarrow> u32 \<Rightarrow> ('s, 'q, 'r) world \<Rightarrow> u32 \<Rightarrow> ('s, 'q, 'r) world \<Rightarrow> bool" where
  "loop_result V mx ec w ec' w' \<longleftrightarrow> mcon_inv V (inst w') \<and>
     unat ec \<le> unat ec' \<and> unat ec' \<le> unat mx \<and> answers (os w') = answers (os w) \<and>
     configuration (inst w') = configuration (inst w) \<and>
     length (evbuf w') = length (evbuf w) \<and> take (unat ec) (evbuf w') = take (unat ec) (evbuf w) \<and>
     drop (unat ec') (evbuf w') = drop (unat ec') (evbuf w) \<and>
     (\<exists>n leak. leak \<le> 1 \<and> size (vw_live V (ring (inst w))) = size (vw_live V (ring (inst w'))) + n + leak \<and>
        sqe_in_flight (m_state (inst w')) = sqe_in_flight (m_state (inst w)) - of_nat n \<and>
        unat ec' - unat ec \<le> n)"

lemma loop_resultI:
  assumes "mcon_inv V (inst w')" "unat ec \<le> unat ec'" "unat ec' \<le> unat mx"
    "answers (os w') = answers (os w)" "configuration (inst w') = configuration (inst w)"
    "length (evbuf w') = length (evbuf w)" "take (unat ec) (evbuf w') = take (unat ec) (evbuf w)"
    "drop (unat ec') (evbuf w') = drop (unat ec') (evbuf w)" "leak \<le> 1"
    "size (vw_live V (ring (inst w))) = size (vw_live V (ring (inst w'))) + n + leak"
    "sqe_in_flight (m_state (inst w')) = sqe_in_flight (m_state (inst w)) - of_nat n"
    "unat ec' - unat ec \<le> n"
  shows "loop_result V mx ec w ec' w'"
  using assms unfolding loop_result_def by blast

lemma ring_loop_runs:
  assumes laws: "libs_ok L V" and "mcon_inv V (inst w)"
    and "unat ec \<le> unat mx" "unat mx \<le> length (evbuf w)"
  shows "\<exists>ec' ic' w'. ring_loop L mx ec ic w = Some (ec', ic', w') \<and> loop_result V mx ec w ec' w'"
  using assms(2-)
proof (induction "size (vw_live V (ring (inst w)))" arbitrary: w ec ic rule: less_induct)
  case less
  obtain rc p w1 where pk: "peek_cqe L w = (rc, p, w1)"
    by (cases "peek_cqe L w") auto
  note same = peek_cqe_frame [OF laws pk]
  show ?case
  proof (cases "ec < mx \<and> rc = 0")
    case False
    have "loop_result V mx ec w ec w1"
      using less.prems same by (auto simp: loop_result_def intro!: exI [of _ 0])
    with False pk show ?thesis
      by (subst ring_loop.simps) auto
  next
    case True
    then obtain r0 where peek: "ur_peek_cqe (urg L) r0 = (0, p, ring (inst w1))"
      using same(9) by blast
    from True obtain err w2 where run: "process_cqe L w1 p ec mx = Some (err, w2)"
      and h: "handled L p (unat ec) w1 err w2" and inv2: "mcon_inv V (inst w2)"
      using process_cqe_keeps_inv [OF laws _ peek] less.prems same by fastforce
    note live = handled_live [OF laws peek h]
    show ?thesis
    proof (cases "err < 0")
      case err: True
      have "loop_result V mx ec w ec w2"
        by (rule loop_resultI [where n = 0 and leak = 1])
          (use less.prems same h inv2 live err in \<open>auto simp: handled_def\<close>)
      with True err pk run show ?thesis
        by (subst ring_loop.simps) auto
    next
      case err: False
      let ?w3 = "count_consumed L p w2" and ?ec = "ec + word_of_int err"
      have "ring (inst w2) = ur_cqe_seen (urg L) (ring (inst w1)) p"
        using h by (simp add: handled_def)
      note cnt = count_consumed_seen [OF laws peek this]
      have ec: "unat ?ec = unat ec + nat err" "err = 0 \<or> err = 1" "unat ?ec \<le> unat mx"
        using True err h unat_plus_one [of ec mx]
        by (auto simp: handled_def word_less_nat_alt)
      have buf: "length (evbuf w2) = length (evbuf w)" "take (unat ec) (evbuf w2) = take (unat ec) (evbuf w)"
        "drop (unat ?ec) (evbuf w2) = drop (unat ?ec) (evbuf w)"
        using h ec same by (auto simp: handled_def)
      obtain ec' ic' w' where rec: "ring_loop L mx ?ec (ic + 1) ?w3 = Some (ec', ic', w')"
        and res: "loop_result V mx ?ec ?w3 ec' w'"
        using less.hyps [of ?w3 ?ec "ic + 1"] less.prems live same cnt inv2 ec buf by auto
      obtain n leak where n: "leak \<le> 1"
        "size (vw_live V (ring (inst ?w3))) = size (vw_live V (ring (inst w'))) + n + leak"
        "sqe_in_flight (m_state (inst w')) = sqe_in_flight (m_state (inst ?w3)) - of_nat n"
        "unat ec' - unat ?ec \<le> n"
        using res by (auto simp: loop_result_def)
      have count: "size (vw_live V (ring (inst w))) = size (vw_live V (ring (inst w'))) + Suc n + leak"
        "sqe_in_flight (m_state (inst w')) = sqe_in_flight (m_state (inst w)) - of_nat (Suc n)"
        "unat ec' - unat ec \<le> Suc n"
        using n live same cnt h ec by (auto simp: handled_def)
      have le: "unat ec \<le> unat ?ec" "unat ?ec \<le> unat ec'"
        using ec res by (auto simp: loop_result_def)
      have "take (unat ec) (evbuf w') = take (unat ec) (take (unat ?ec) (evbuf w'))"
        using le by (simp add: min_def)
      also have "\<dots> = take (unat ec) (evbuf w)"
        using res le cnt buf by (simp add: loop_result_def min_def)
      finally have front: "take (unat ec) (evbuf w') = take (unat ec) (evbuf w)" .
      have "drop (unat ec') (evbuf w2) = drop (unat ec' - unat ?ec) (drop (unat ?ec) (evbuf w2))"
        using le by simp
      then have rear: "drop (unat ec') (evbuf w2) = drop (unat ec') (evbuf w)"
        using le buf by simp
      have "loop_result V mx ec w ec' w'"
        by (rule loop_resultI [OF _ _ _ _ _ _ front _ n(1) count])
          (use res rear le cnt buf h same in \<open>auto simp: loop_result_def handled_def\<close>)
      with True err pk run rec show ?thesis
        by (subst ring_loop.simps) auto
    qed
  qed
qed

subsection \<open>The event of the ring\<close>

lemma clear_eventfd_frame [simp]:
  "inst (clear_eventfd L w) = inst w" "evbuf (clear_eventfd L w) = evbuf w"
  "answers (os (clear_eventfd L w)) = answers (os w)"
  by (simp_all add: clear_eventfd_def rt_simps)

lemma io_uring_event_runs:
  assumes "libs_ok L V" "mcon_inv V (inst w)" "unat mx \<le> length (evbuf w)"
  shows "\<exists>ec w'. mcon_process_io_uring_event L w mx = Some (sint ec, w') \<and>
    loop_result V mx 0 w ec w'"
proof -
  obtain ec ic w' where "ring_loop L mx 0 0 w = Some (ec, ic, w')" "loop_result V mx 0 w ec w'"
    using ring_loop_runs [OF assms(1,2), of 0 mx 0] assms(3) by auto
  then show ?thesis
    by (auto simp: mcon_process_io_uring_event_def loop_result_def)
qed

lemma sint_nonneg: "unat x < 2 ^ 31 \<Longrightarrow> sint x = int (unat x)" for x :: u32
proof -
  assume "unat x < 2 ^ 31"
  then have "int (unat x) < int (2 ^ 31)"
    by (simp only: of_nat_less_iff)
  then have "uint x < 2 ^ 31"
    by simp
  then have "signed_take_bit 31 (uint x) = uint x"
    by (intro signed_take_bit_int_eq_self) (auto intro: order.trans [of _ 0])
  then show ?thesis by (simp add: sint_uint)
qed

text \<open>The first round of the loop.\<close>

lemma ring_loop_step:
  assumes "peek_cqe L w = (0, p, w1)" "ec < mx" "process_cqe L w1 p ec mx = Some (err, w2)"
  shows "ring_loop L mx ec ic w = (if err < 0 then Some (ec, ic, w2)
    else ring_loop L mx (ec + word_of_int err) (ic + 1) (count_consumed L p w2))"
  using assms by (subst ring_loop.simps) simp

subsection \<open>A concrete ring\<close>

text \<open>
  The sample instance with one request of session 1, or one accept, completed: the request, the state
  byte of the session, the number of live accepts and the result of the completion.
\<close>

definition sample_completed ::
  "mcon_io_uring_entry \<Rightarrow> u8 \<Rightarrow> u16 \<Rightarrow> int \<Rightarrow> ref_mcon" where
  "sample_completed e st acc res = sample_mcon\<lparr>
     sessions := [session_init, \<lparr>socket_fd = 7, generation = 0, sess_state = st\<rparr>],
     ring := (ur_new ref_uring_ops 4)\<lparr>rr_done := [(io_uring_data_of_entry e, res)]\<rparr>,
     m_state := sample_state\<lparr>sqe_in_flight := 1, accepts_live := acc\<rparr>\<rparr>"

definition completed_world ::
  "int \<Rightarrow> int \<Rightarrow> mcon_io_uring_entry \<Rightarrow> u8 \<Rightarrow> u16 \<Rightarrow> int \<Rightarrow> ref_world" where
  "completed_world ret err e st acc res = (sample_world ret err)\<lparr>inst := sample_completed e st acc res\<rparr>"

lemma completed_world_sel [simp]:
  "inst (completed_world ret err e st acc res) = sample_completed e st acc res"
  "os (completed_world ret err e st acc res) = sample_kernel ret err"
  "length (evbuf (completed_world ret err e st acc res)) = 4"
  by (simp_all add: completed_world_def sample_world_def)

lemma sample_completed_sel [simp]:
  "configuration (sample_completed e st acc res) = sample_config"
  "session_free_stack (sample_completed e st acc res) = (2, [0])"
  "sessions (sample_completed e st acc res) =
     [session_init, \<lparr>socket_fd = 7, generation = 0, sess_state = st\<rparr>]"
  "m_state (sample_completed e st acc res) = sample_state\<lparr>sqe_in_flight := 1, accepts_live := acc\<rparr>"
  by (simp_all add: sample_completed_def sample_mcon_def)

lemma pending_sample_completed:
  "io_entry_proper e \<Longrightarrow> pending ref_views (sample_completed e st acc res) = {# e #}"
  by (simp add: pending_def sample_completed_def sample_mcon_def io_queue_waiting_def
      io_queue_contents_def ref_live_def concat_eq_Nil_conv io_codec.dec_enc)

lemma io_entry_proper_sample:
  "oper \<in> {MCON_IO_SESSION_ACCEPT, MCON_IO_SESSION_READ, MCON_IO_SESSION_WRITE,
     MCON_IO_SESSION_DRAIN, MCON_IO_SESSION_CLOSE} \<Longrightarrow> io_entry_proper (io_entry oper s)"
  by (auto simp: io_entry_proper_def operation_of_code_def)

lemma sample_completed_peeked:
  "io_entry_proper e \<Longrightarrow> peeked ref_libs (ref_slot 0) (completed_world ret err e st acc res) e"
  by (auto simp: peeked_def ref_uring_ops_def ref_load_def sample_completed_def io_codec.dec_enc
      intro!: exI [of _ "ring (sample_completed e st acc res)"])

lemma sample_completed_inv:
  "mcon_inv ref_views (sample_completed accept_entry 0 1 res)"
  "mcon_inv ref_views (sample_completed (io_entry MCON_IO_SESSION_READ 1) 1 0 res)"
  "mcon_inv ref_views (sample_completed (io_entry MCON_IO_SESSION_CLOSE 1) 8 0 res)"
  unfolding mcon_inv_def proto_inv_def
  by (auto simp: pending_sample_completed io_entry_proper_sample accept_entry_def sample_config_def
      session_init_def mcon_config_validate_def session_ok_def session_entry_def unat_less_2
      unat_less_2 [unfolded numeral_2_eq_2] bit_u8_powers bit_1_iff)

subsection \<open>Properties\<close>

text \<open>C8. On every instance that satisfies the invariant, and for every array of at least
  \<open>max_events\<close> places, processing the event of the ring returns: the loop consumes completions, at
  least one per reported event, until none is left, the array is full or an accept fails. It keeps
  the invariant, reports at most \<open>max_events\<close> events, writes no place of the array after them, and
  the counter of submitted requests falls by the number of completions consumed, or by one less.\<close>

theorem ring_event_terminates:
  assumes "libs_ok L V" "mcon_inv V (inst w)"
    and "unat max_events \<le> length (evbuf w)" "unat max_events < 2 ^ 31"
  shows "\<exists>n w'. mcon_process_io_uring_event L w max_events = Some (int n, w') \<and>
    mcon_inv V (inst w') \<and> n \<le> unat max_events \<and>
    length (evbuf w') = length (evbuf w) \<and> drop n (evbuf w') = drop n (evbuf w) \<and>
    (\<exists>counted leak. leak \<le> 1 \<and> n \<le> counted \<and>
      size (vw_live V (ring (inst w))) = size (vw_live V (ring (inst w'))) + counted + leak \<and>
      sqe_in_flight (m_state (inst w')) = sqe_in_flight (m_state (inst w)) - of_nat counted)"
proof -
  obtain ec w' where run: "mcon_process_io_uring_event L w max_events = Some (sint ec, w')"
    and res: "loop_result V max_events 0 w ec w'"
    using io_uring_event_runs [OF assms(1-3)] by blast
  have "sint ec = int (unat ec)"
    using res assms(4) by (intro sint_nonneg) (simp add: loop_result_def)
  then show ?thesis
    using run res by (intro exI [of _ "unat ec"] exI [of _ w']) (auto simp: loop_result_def)
qed

theorem ring_event_terminates_witness:
  "\<exists>n w'. mcon_process_io_uring_event ref_libs (completed_world 0 0 accept_entry 0 1 9) 4 =
      Some (int n, w') \<and> mcon_inv ref_views (inst w') \<and> n \<le> 4"
  using ring_event_terminates [OF ref_libs_ok, of "completed_world 0 0 accept_entry 0 1 9" 4]
    sample_completed_inv(1) [of 9]
  by auto

text \<open>C10. A completed accept with a connection always finds a free session. Whatever comes of it, the
  completion is consumed, one live accept less is counted and accepts are requested again; the number
  of submitted requests is left to the loop. When the kernel adds the socket to the interest list,
  under a datum that names the instance, the generation and the session, the session is active on
  that socket with a clear state byte, and exactly one event \<open>NEW_CONNECTION\<close> names it. When the kernel
  refuses, the call fails with no event, the index is back on the stack and the socket is closed.
  Nothing else of the instance changes. The code reads \<open>cqe->res\<close> before and after it marks the
  completion as seen: the first reading only decides whether there was a connection, the second is the
  descriptor.\<close>

theorem accepted_connection_outcome:
  assumes "libs_ok L V" "mcon_inv V (inst w)" "peeked L cqe w accept_entry"
    and "0 < unat max_events" "base < length (evbuf w)"
    and "ur_cqe_res (urg L) (ring (inst w)) cqe \<noteq> - EAGAIN"
  defines "fd \<equiv> ur_cqe_res (urg L) (ur_cqe_seen (urg L) (ring (inst w)) cqe) cqe"
  defines "st \<equiv> m_state (inst w)"
  assumes fd: "0 \<le> fd"
  shows "\<exists>i free fs rc w'. vw_items V (session_free_stack (inst w)) = i # free \<and>
    process_accept L w cqe base max_events = Some (rc, w') \<and> mcon_inv V (inst w') \<and>
    pending V (inst w') = pending V (inst w) - {# accept_entry #} \<and>
    unat (accepts_live (m_state (inst w'))) + 1 = unat (accepts_live st) \<and>
    (let call = Epoll_ctl (epoll_fd (inst w)) EPOLL_CTL_ADD fd
       (Some \<lparr>ep_events = MCON_CLIENT_SOCKET_SUBSCRIBED_EVENTS OR
           (if cfg_edge_triggered_client_events (configuration (inst w)) then EPOLLET else 0),
         ep_data = mcon_encode_epoll_entry \<lparr>ee_instance_id = instance_id (inst w),
           ee_generation = generation (sessions (inst w) ! unat i),
           ee_source = MCON_EPOLL_SOURCE_SESSION, ee_session = i, ee_reserved = 0\<rparr>\<rparr>);
       r = answer (os w) call;
       s = sessions (inst w) ! unat i
     in inst w' = (inst w)\<lparr>session_free_stack := fs,
          sessions := (if rv r = 0
            then (sessions (inst w))[unat i := s\<lparr>socket_fd := fd, sess_state := 0\<rparr>]
            else sessions (inst w)),
          ring := ur_cqe_seen (urg L) (ring (inst w)) cqe,
          m_state := st\<lparr>accepts_live := accepts_live st - 1, accepts_requested := True\<rparr>\<rparr> \<and>
        (if rv r = 0
         then rc = 1 \<and> vw_items V fs = free \<and> trace (os w') = trace (os w) @ [(call, r)] \<and>
           evbuf w' = (evbuf w)[base := \<lparr>ev_result = fd, ev_session = i,
             ev_type = MCON_EVENT_NEW_CONNECTION\<rparr>]
         else rc = -1 \<and> vw_items V fs = i # free \<and> evbuf w' = evbuf w \<and>
           (\<exists>r'. trace (os w') = trace (os w) @ [(call, r), (Close fd, r')])))"
proof -
  have room: "\<not> max_events < 1"
    using assms(4) by (simp add: word_less_nat_alt)
  have "proto_inv (pending V (inst w)) (vw_items V (session_free_stack (inst w)))
      (sessions (inst w)) (accepts_live (m_state (inst w))) (configuration (inst w))"
    using assms(2) by (simp add: mcon_inv_def)
  note live = proto_inv_accept_done [OF this pending_consumed(2) [OF assms(1,3), of
      "(inst w)\<lparr>ring := ur_cqe_seen (urg L) (ring (inst w)) cqe\<rparr>", simplified]]
  show ?thesis
  proof (rule process_accept_cases [OF assms(1-3) room assms(5)], goal_cases)
    case (3 i free fs w')
    then show ?case
      using pending_consumed(1) [OF assms(1,3), of "inst w'"] live
      by (intro exI [of _ i] exI [of _ free] exI [of _ fs] exI [of _ "-1"] exI [of _ w'])
        (simp add: fd_def st_def accept_call_def accept_consumed_def Let_def)
  next
    case (4 i free fs w')
    then show ?case
      using pending_consumed(1) [OF assms(1,3), of "inst w'"] live
      by (intro exI [of _ i] exI [of _ free] exI [of _ fs] exI [of _ 1] exI [of _ w'])
        (simp add: fd_def st_def accept_call_def accept_consumed_def Let_def)
  qed (use assms(6) fd in \<open>simp_all add: fd_def\<close>)
qed

lemmas sample_accept_peeked = sample_completed_peeked [of accept_entry, unfolded accept_entry_def,
    OF io_entry_proper_sample, folded accept_entry_def, simplified]

lemma sample_completed_cqe:
  "ur_cqe_res ref_uring_ops (ring (sample_completed e st acc res)) (ref_slot 0) = res"
  "ur_cqe_res ref_uring_ops (ur_cqe_seen ref_uring_ops (ring (sample_completed e st acc res))
     (ref_slot 0)) (ref_slot 0) = res"
  by (simp_all add: sample_completed_def ref_uring_ops_def ref_load_def)

theorem accepted_connection_outcome_witness:
  "\<exists>w'. process_accept ref_libs (completed_world 0 0 accept_entry 0 1 9) (ref_slot 0) 0 4 =
      Some (1, w') \<and> socket_fd (sessions (inst w') ! 0) = 9 \<and>
    evbuf w' ! 0 = \<lparr>ev_result = 9, ev_session = 0, ev_type = MCON_EVENT_NEW_CONNECTION\<rparr>"
proof -
  let ?w = "completed_world 0 0 accept_entry 0 1 9"
  have inv: "mcon_inv ref_views (inst ?w)"
    by (simp add: sample_completed_inv)
  from accepted_connection_outcome [OF ref_libs_ok inv sample_accept_peeked, of 4 0]
  show ?thesis
    by (auto simp: sample_completed_cqe answer_def sample_kernel_def Let_def completed_world_def
        sample_world_def)
qed

text \<open>C30. When the loop meets a completed accept whose session cannot be registered with epoll, the
  completion is consumed and the call ends, but the counter of submitted requests is not lowered: it
  stays one too high for good, which lowers the number of requests later submissions may hand over.\<close>

theorem refused_accept_leaks_counter:
  assumes "libs_ok L V" "mcon_inv V (inst w)" "peek_cqe L w = (0, cqe, w1)"
    and "peeked L cqe w1 accept_entry" "0 < unat max_events" "unat max_events \<le> length (evbuf w)"
    and "ur_cqe_res (urg L) (ring (inst w1)) cqe \<noteq> - EAGAIN"
    and "0 \<le> ur_cqe_res (urg L) (ur_cqe_seen (urg L) (ring (inst w1)) cqe) cqe"
    and refuses: "\<And>fd e. rv (answer (os w) (Epoll_ctl (epoll_fd (inst w1)) EPOLL_CTL_ADD fd e)) \<noteq> 0"
  shows "\<exists>w'. mcon_process_io_uring_event L w max_events = Some (0, w') \<and>
    size (vw_live V (ring (inst w))) = Suc (size (vw_live V (ring (inst w')))) \<and>
    sqe_in_flight (m_state (inst w')) = sqe_in_flight (m_state (inst w))"
proof -
  note same = peek_cqe_frame [OF assms(1,3)]
  obtain r0 where peek: "ur_peek_cqe (urg L) r0 = (0, cqe, ring (inst w1))"
    using same(9) by blast
  have base: "0 < length (evbuf w1)" and room: "\<not> max_events < 1" and lt: "0 < max_events"
    using assms(5,6) same by (auto simp: word_less_nat_alt)
  have "mcon_inv V (inst w1)"
    using same assms(2) by simp
  then obtain w' where run: "process_accept L w1 cqe 0 max_events = Some (-1, w')"
    and h: "handled L cqe 0 w1 (-1) w'"
    using assms(7-9) same
    by (cases rule: process_accept_cases [OF assms(1) _ assms(4) room base])
      (auto simp: accept_call_def handled_def)
  have "process_cqe L w1 cqe 0 max_events = Some (-1, w')"
    using assms(4) run by (simp add: process_cqe_def Let_def peeked_def accept_entry_def)
  from ring_loop_step [OF assms(3) lt this]
  have "mcon_process_io_uring_event L w max_events = Some (0, clear_eventfd L w')"
    by (simp add: mcon_process_io_uring_event_def)
  then show ?thesis
    using h same handled_live [OF assms(1) peek h] by (simp add: handled_def)
qed

theorem refused_accept_leaks_counter_witness:
  "\<exists>w'. mcon_process_io_uring_event ref_libs (completed_world (-1) 12 accept_entry 0 1 9) 4 =
      Some (0, w') \<and> ref_live (ring (inst w')) = {#} \<and> sqe_in_flight (m_state (inst w')) = 1"
proof -
  let ?w = "completed_world (-1) 12 accept_entry 0 1 9"
  have inv: "mcon_inv ref_views (inst ?w)"
    by (simp add: sample_completed_inv)
  have pk: "peek_cqe ref_libs ?w = (0, ref_slot 0, ?w)"
    by (simp add: peek_cqe_def ref_uring_ops_def sample_completed_def completed_world_def)
  have "size (ref_live (ring (inst ?w))) = 1"
    by (simp add: ref_live_def sample_completed_def)
  with refused_accept_leaks_counter [OF ref_libs_ok inv pk sample_accept_peeked, of 4]
  show ?thesis
    by (auto simp: sample_completed_cqe answer_def sample_kernel_def sample_state_def)
qed

text \<open>A failed accept is reported as \<open>MCON_EVENT_NEW_CONNECTION\<close> with the error as its result and
  \<open>MCON_NO_SESSION\<close> as its session; the event type \<open>MCON_EVENT_NEW_CONNECTION_FAILED\<close> that exists
  for it is never produced. No session is taken and the accept is no longer counted as live.\<close>

theorem failed_accept_reported_as_connection:
  assumes "libs_ok L V" "mcon_inv V (inst w)" "peeked L cqe w accept_entry"
    and "0 < unat max_events" "base < length (evbuf w)"
    and stable: "ur_cqe_res (urg L) (ur_cqe_seen (urg L) (ring (inst w)) cqe) cqe =
      ur_cqe_res (urg L) (ring (inst w)) cqe"
    and "ur_cqe_res (urg L) (ring (inst w)) cqe < 0"
    and "ur_cqe_res (urg L) (ring (inst w)) cqe \<noteq> - EAGAIN"
  shows "\<exists>w'. process_accept L w cqe base max_events = Some (1, w') \<and>
    evbuf w' ! base = \<lparr>ev_result = ur_cqe_res (urg L) (ring (inst w)) cqe,
      ev_session = MCON_NO_SESSION, ev_type = MCON_EVENT_NEW_CONNECTION\<rparr> \<and>
    session_free_stack (inst w') = session_free_stack (inst w) \<and>
    sessions (inst w') = sessions (inst w) \<and>
    unat (accepts_live (m_state (inst w'))) + 1 = unat (accepts_live (m_state (inst w)))"
proof -
  have room: "\<not> max_events < 1"
    using assms(4) by (simp add: word_less_nat_alt)
  have "proto_inv (pending V (inst w)) (vw_items V (session_free_stack (inst w)))
      (sessions (inst w)) (accepts_live (m_state (inst w))) (configuration (inst w))"
    using assms(2) by (simp add: mcon_inv_def)
  note live = proto_inv_accept_done [OF this pending_consumed(2) [OF assms(1,3), of
      "(inst w)\<lparr>ring := ur_cqe_seen (urg L) (ring (inst w)) cqe\<rparr>", simplified]]
  show ?thesis
    using assms(5-) live
    by (cases rule: process_accept_cases [OF assms(1-3) room assms(5)]) auto
qed

theorem failed_accept_reported_as_connection_witness:
  "\<exists>w'. process_accept ref_libs (completed_world 0 0 accept_entry 0 1 (-24)) (ref_slot 0) 0 4 =
      Some (1, w') \<and> ev_type (evbuf w' ! 0) = MCON_EVENT_NEW_CONNECTION \<and>
    ev_session (evbuf w' ! 0) = MCON_NO_SESSION"
proof -
  let ?w = "completed_world 0 0 accept_entry 0 1 (-24)"
  have inv: "mcon_inv ref_views (inst ?w)"
    by (simp add: sample_completed_inv)
  from failed_accept_reported_as_connection [OF ref_libs_ok inv sample_accept_peeked, of 4 0]
  show ?thesis
    by (auto simp: sample_completed_cqe)
qed

text \<open>C12. A completed read, write or drain is reported once, with the kernel's result, for the session
  it was queued for; it clears exactly the bit its request set, leaves every other session alone and
  is no longer pending.\<close>

theorem completion_reported_and_cleared:
  assumes "libs_ok L V" "mcon_inv V (inst w)" "peeked L cqe w (io_entry oper i)"
    and "unat event_count < unat max_events" "unat max_events \<le> length (evbuf w)"
    and "(oper, t, b) \<in> {(MCON_IO_SESSION_READ, MCON_EVENT_READ_COMPLETE, 0),
      (MCON_IO_SESSION_WRITE, MCON_EVENT_WRITE_COMPLETE, 1),
      (MCON_IO_SESSION_DRAIN, MCON_EVENT_DRAIN_COMPLETE, 0)}"
  shows "\<exists>w'. process_cqe L w cqe event_count max_events = Some (1, w') \<and>
    evbuf w' = (evbuf w)[unat event_count :=
      \<lparr>ev_result = ur_cqe_res (urg L) (ring (inst w)) cqe, ev_session = i, ev_type = t\<rparr>] \<and>
    (\<forall>j. j \<noteq> unat i \<longrightarrow> sessions (inst w') ! j = sessions (inst w) ! j) \<and>
    (\<forall>c. bit (sess_state (sessions (inst w') ! unat i)) c \<longleftrightarrow>
      bit (sess_state (sessions (inst w) ! unat i)) c \<and> c \<noteq> b) \<and>
    pending V (inst w') = pending V (inst w) - {# io_entry oper i #} \<and>
    mcon_inv V (inst w')"
proof -
  have "event_count < max_events"
    using assms(4) by (simp add: word_less_nat_alt)
  then have mx: "\<not> max_events - event_count < 1"
    by (auto simp: word_less_1)
  have base: "unat event_count < length (evbuf w)"
    using assms(4,5) by simp
  have "oper \<noteq> MCON_IO_SESSION_ACCEPT"
    using assms(6) by auto
  note s = completed_session [OF assms(1,3,2) this]
  note run = rdc.completes [OF mx base, of "io_entry oper i" L cqe, unfolded io_entry_sel, OF s(1)]
    wrc.completes [OF mx base, of "io_entry oper i" L cqe, unfolded io_entry_sel, OF s(1)]
    drc.completes [OF mx base, of "io_entry oper i" L cqe, unfolded io_entry_sel, OF s(1)]
  have "\<exists>w'. process_cqe L w cqe event_count max_events = Some (1, w') \<and> mcon_inv V (inst w')"
    using rdc.keeps_inv [OF assms(1,2) _ mx base, of cqe i]
      wrc.keeps_inv [OF assms(1,2) _ mx base, of cqe i]
      drc.keeps_inv [OF assms(1,2) _ mx base, of cqe i] run assms(3,6)
    by (auto simp: process_cqe_def Let_def peeked_def)
  then show ?thesis
    using run assms(3,6) s(1) base pending_consumed(1) [OF assms(1,3)]
    by (auto simp: process_cqe_def Let_def peeked_def bit_facts)
qed

theorem completion_reported_and_cleared_witness:
  "\<exists>w'. process_cqe ref_libs (completed_world 0 0 (io_entry MCON_IO_SESSION_READ 1) 1 0 64)
      (ref_slot 0) 0 4 = Some (1, w') \<and>
    evbuf w' ! 0 = \<lparr>ev_result = 64, ev_session = 1, ev_type = MCON_EVENT_READ_COMPLETE\<rparr>"
proof -
  let ?e = "io_entry MCON_IO_SESSION_READ 1"
  let ?w = "completed_world 0 0 ?e 1 0 64"
  have inv: "mcon_inv ref_views (inst ?w)"
    by (simp add: sample_completed_inv)
  have "peeked ref_libs (ref_slot 0) ?w ?e"
    by (intro sample_completed_peeked io_entry_proper_sample) simp
  from completion_reported_and_cleared [OF ref_libs_ok inv this, of 0 4 MCON_EVENT_READ_COMPLETE 0]
  show ?thesis
    by (auto simp: sample_completed_cqe)
qed

text \<open>C11. A completed close always finds room on the free stack. The session is reported closed, loses
  its socket and its closing bit, advances its generation and can be taken again. When the instance is
  shutting down and no other session is active, the shutdown completes: both descriptors are reset and
  the flag is cleared; otherwise they are left alone.\<close>

theorem close_completion_releases_session:
  assumes "libs_ok L V" "mcon_inv V (inst w)"
    and "peeked L cqe w (io_entry MCON_IO_SESSION_CLOSE i)"
    and "unat event_count < unat max_events" "unat max_events \<le> length (evbuf w)"
  defines "s \<equiv> sessions (inst w) ! unat i"
  defines "last_one \<equiv> is_shutting_down (m_state (inst w)) \<and>
    length (sessions (inst w)) = Suc (length (vw_items V (session_free_stack (inst w))))"
  shows "\<exists>w'. process_cqe L w cqe event_count max_events = Some (1, w') \<and> mcon_inv V (inst w') \<and>
    evbuf w' = (evbuf w)[unat event_count := \<lparr>ev_result = ur_cqe_res (urg L) (ring (inst w)) cqe,
      ev_session = i, ev_type = MCON_EVENT_CLOSE_COMPLETE\<rparr>] \<and>
    sessions (inst w') = (sessions (inst w))[unat i := s\<lparr>socket_fd := -1,
      generation := generation s + 1,
      sess_state := sess_state s AND NOT MCON_SESSION_STATE_CLOSING\<rparr>] \<and>
    vw_items V (session_free_stack (inst w')) = i # vw_items V (session_free_stack (inst w)) \<and>
    (if last_one then epoll_fd (inst w') = -1 \<and> server_socket_fd (inst w') = -1 \<and>
       \<not> is_shutting_down (m_state (inst w'))
     else epoll_fd (inst w') = epoll_fd (inst w) \<and>
       server_socket_fd (inst w') = server_socket_fd (inst w) \<and>
       is_shutting_down (m_state (inst w')) = is_shutting_down (m_state (inst w)))"
proof -
  have "event_count < max_events"
    using assms(4) by (simp add: word_less_nat_alt)
  then have mx: "\<not> max_events - event_count < 1"
    by (auto simp: word_less_1)
  have base: "unat event_count < length (evbuf w)"
    using assms(4,5) by simp
  show ?thesis
  proof (rule process_close_runs [OF assms(1-3) mx base], goal_cases)
    case (1 fs m w')
    have run: "process_cqe L w cqe event_count max_events = Some (1, w')"
      using 1(1) assms(3) by (simp add: process_cqe_def Let_def peeked_def)
    have inv': "mcon_inv V (inst w')"
      using 1(4,7) by (simp add: frame)
    have "length (vw_items V fs) \<le> length (sessions m)"
      using mcon_inv_free_le [OF 1(7)] 1(3) by simp
    then have "mcon_active_session_count L m = 0 \<longleftrightarrow>
        length (sessions (inst w)) = Suc (length (vw_items V (session_free_stack (inst w))))"
      using active_count_eq [OF assms(1) 1(7)] 1(2,3)
        unat_eq_iff [of "mcon_active_session_count L m" 0] by auto
    then show ?case
      using run inv' 1(2-6)
      by (intro exI [of _ w']) (auto simp: s_def last_one_def mcon_complete_shutdown_def)
  qed
qed

theorem close_completion_releases_session_witness:
  "\<exists>w'. process_cqe ref_libs (completed_world 0 0 (io_entry MCON_IO_SESSION_CLOSE 1) 8 0 0)
      (ref_slot 0) 0 4 = Some (1, w') \<and> snd (session_free_stack (inst w')) = [1, 0] \<and>
    generation (sessions (inst w') ! 1) = 1 \<and> epoll_fd (inst w') = 4"
proof -
  let ?e = "io_entry MCON_IO_SESSION_CLOSE 1"
  let ?w = "completed_world 0 0 ?e 8 0 0"
  have inv: "mcon_inv ref_views (inst ?w)"
    by (simp add: sample_completed_inv)
  have "peeked ref_libs (ref_slot 0) ?w ?e"
    by (intro sample_completed_peeked io_entry_proper_sample) simp
  moreover have "epoll_fd (sample_completed ?e 8 0 0) = 4"
    by (simp add: sample_completed_def sample_mcon_def)
  ultimately show ?thesis
    using close_completion_releases_session [OF ref_libs_ok inv, of "ref_slot 0" 1 0 4]
    by (auto simp: sample_state_def)
qed

end
