(* ===== verification/Submission.thy ===== *)
theory Submission
  imports Ring_Events
begin

text \<open>
  Queueing accepts and submitting requests: \<open>src/mcon/io_uring_actions.c\<close> and \<open>mcon_submit\<close> of
  \<open>src/mcon/mcon.c\<close>. The invariant bounds the number of pending requests, so neither the accept loop
  nor the transfer into the ring can fail to end or trip the \<open>assert()\<close> of the transfer.
\<close>

subsection \<open>Operations\<close>

definition accept_sqe :: "int \<Rightarrow> io_uring_sqe" where
  "accept_sqe server_socket =
     sqe_initialized\<lparr>sqe_request := Prep_accept server_socket 0,
       sqe_ioprio := IORING_ACCEPT_DONTWAIT,
       sqe_user_data := io_uring_data_of_entry
         \<lparr>io_operation = MCON_IO_SESSION_ACCEPT, io_session = MCON_NO_SESSION\<rparr>\<rparr>"

definition enqueue_accept ::
  "('s, 'q, 'r) libs \<Rightarrow> ('s, 'q, 'r) world \<Rightarrow> int \<times> ('s, 'q, 'r) world" where
  "enqueue_accept L w =
     (let m = inst w
      in if st_size (stk L) (session_free_stack m) \<le> ucast (accepts_live (m_state m))
         then (-1, w\<lparr>os := set_errno ENOBUFS (os w)\<rparr>)
         else (case io_queue_push L (m_io_queue m) (accept_sqe (server_socket_fd m)) (os w) of
                 (rc, q, k) \<Rightarrow> (rc, w\<lparr>inst := m\<lparr>m_io_queue := q\<rparr>, os := k\<rparr>)))"

text \<open>The \<open>while\<close> loop of \<open>mcon_submit\<close>.\<close>

partial_function (option) accept_loop ::
  "('s, 'q, 'r) libs \<Rightarrow> ('s, 'q, 'r) world \<Rightarrow> ('s, 'q, 'r) world option" where
  "accept_loop L w =
     (let m = inst w
      in if ucast (accepts_live (m_state m)) < cfg_max_live_accept_sqes (configuration m)
         then (case enqueue_accept L w of (rc, w1) \<Rightarrow>
                 if rc \<noteq> 0 then Some w1
                 else (let st = m_state (inst w1)
                       in accept_loop L (w1\<lparr>inst := (inst w1)\<lparr>m_state := st\<lparr>
                            accepts_live := accepts_live st + 1, accepts_requested := False\<rparr>\<rparr>\<rparr>)))
         else Some w)"

declare accept_loop.simps [code]

definition mcon_submit ::
  "('s, 'q, 'r) libs \<Rightarrow> ('s, 'q, 'r) world \<Rightarrow> (int \<times> ('s, 'q, 'r) world) option" where
  "mcon_submit L w =
     do { w1 \<leftarrow> (if accepts_requested (m_state (inst w)) then accept_loop L w else Some w);
          let m = inst w1;
          let sqe_limit = ucast (cfg_io_uring_queue_size (configuration m)) -
            ucast (sqe_in_flight (m_state m));
          (sqes_popped, q, r) \<leftarrow> io_queue_pop_into_ring L (m_io_queue m) (ring m) sqe_limit;
          let m1 = m\<lparr>m_io_queue := q, ring := r\<rparr>;
          let (sqes_submitted, r1) = (if sqes_popped \<noteq> 0 then ur_submit (urg L) r else (0, r));
          let m2 = m1\<lparr>ring := r1\<rparr>;
          if sqes_submitted < 0
          then Some (-1, w1\<lparr>inst := m2, os := set_errno (- sqes_submitted) (os w1)\<rparr>)
          else Some (sqes_submitted, w1\<lparr>inst := m2\<lparr>m_state := (m_state m2)\<lparr>sqe_in_flight :=
                 sqe_in_flight (m_state m2) + word_of_int sqes_submitted\<rparr>\<rparr>\<rparr>) }"

subsection \<open>The invariant bounds the pending requests\<close>

lemma proto_inv_size:
  assumes "proto_inv P free ss acc c"
  shows "size P \<le> 4 * length ss + unat acc"
proof -
  let ?I = "{i :: mcon_session_idx. unat i < length ss}"
  let ?S = "(\<lambda>(oper, i). io_entry oper i) `
    ({MCON_IO_SESSION_READ, MCON_IO_SESSION_WRITE, MCON_IO_SESSION_DRAIN, MCON_IO_SESSION_CLOSE} \<times> ?I)"
  have "card ?I \<le> card {..<length ss}"
    by (rule card_inj_on_le [of unat]) (auto simp: inj_on_def unat_eq_iff)
  then have I: "card ?I \<le> length ss" by simp
  have "card ?S \<le> card ({MCON_IO_SESSION_READ, MCON_IO_SESSION_WRITE, MCON_IO_SESSION_DRAIN,
      MCON_IO_SESSION_CLOSE} \<times> ?I)"
    by (rule card_image_le) simp
  also have "\<dots> = 4 * card ?I"
    by (simp add: card_cartesian_product)
  also have "\<dots> \<le> 4 * length ss"
    using I by simp
  finally have S: "card ?S \<le> 4 * length ss" .
  have sub: "set_mset P \<subseteq> insert accept_entry ?S"
  proof
    fix e assume "e \<in># P"
    then have "e = accept_entry \<or> session_entry (length ss) e"
      using assms by (auto simp: proto_inv_def)
    then show "e \<in> insert accept_entry ?S"
      using io_entry_collapse [of e]
      by (auto simp: session_entry_def image_iff simp del: io_entry_collapse)
  qed
  have one: "count P e \<le> 1" if "e \<in> ?S - {accept_entry}" for e
    using that proto_inv_pending_bit [OF assms] by (cases "e \<in># P") (auto simp: not_in_iff)
  have "size P = sum (count P) (set_mset P)"
    by (rule size_multiset_overloaded_eq)
  also have "\<dots> \<le> sum (count P) (insert accept_entry (?S - {accept_entry}))"
    by (rule sum_mono2) (use sub in auto)
  also have "\<dots> = count P accept_entry + sum (count P) (?S - {accept_entry})"
    by (subst sum.insert) auto
  also have "\<dots> \<le> unat acc + card (?S - {accept_entry})"
    using assms sum_mono [of "?S - {accept_entry}" "count P" "\<lambda>_. 1"] one
    by (simp add: proto_inv_def)
  also have "\<dots> \<le> unat acc + 4 * length ss"
    using S card_mono [of ?S "?S - {accept_entry}"] by auto
  finally show ?thesis by simp
qed

lemma mcon_inv_waiting_bound:
  assumes "mcon_inv V m"
  shows "length (io_queue_contents V (m_io_queue m)) < 2 ^ 32"
proof -
  have "size (pending V m) \<le> 4 * length (sessions m) + unat (accepts_live (m_state m))"
    using assms by (auto simp: mcon_inv_def intro: proto_inv_size)
  moreover have "length (sessions m) \<le> 1048575"
    using mcon_inv_config [OF assms] validated_bounds(2) by metis
  moreover have "length (io_queue_contents V (m_io_queue m)) \<le> size (pending V m)"
    by (simp add: pending_def io_queue_waiting_def)
  ultimately show ?thesis
    using unat_u16_bound [of "accepts_live (m_state m)"] by simp
qed

subsection \<open>The accept loop\<close>

lemma accept_sqe_entry [simp]:
  "io_uring_entry_of_data (sqe_user_data (accept_sqe fd)) = accept_entry"
  using io_codec.dec_enc [of accept_entry]
  by (simp add: accept_sqe_def accept_entry_def io_entry_def io_entry_proper_def operation_of_code_def)

text \<open>What the loop leaves alone, and what it does.\<close>

definition accepts_queued ::
  "('s, 'q, 'r) libs \<Rightarrow> ('s, 'q, 'r) views \<Rightarrow> ('s, 'q, 'r) world \<Rightarrow> ('s, 'q, 'r) world \<Rightarrow> bool" where
  "accepts_queued L V w w' \<longleftrightarrow>
     (let m = inst w; m' = inst w'; st = m_state m; st' = m_state m'
      in sessions m' = sessions m \<and> session_free_stack m' = session_free_stack m \<and>
         ring m' = ring m \<and> configuration m' = configuration m \<and> evbuf w' = evbuf w \<and>
         answers (os w') = answers (os w) \<and> trace (os w') = trace (os w) \<and>
         sqe_in_flight st' = sqe_in_flight st \<and> is_shutting_down st' = is_shutting_down st \<and>
         unat (accepts_live st) \<le> unat (accepts_live st') \<and>
         pending V m' = pending V m +
           replicate_mset (unat (accepts_live st') - unat (accepts_live st)) accept_entry \<and>
         accepts_requested st' =
           (accepts_requested st \<and> accepts_live st' = accepts_live st))"

definition accepts_saturated ::
  "('s, 'q, 'r) libs \<Rightarrow> ('s, 'q, 'r) views \<Rightarrow> ('s, 'q, 'r) mcon \<Rightarrow> bool" where
  "accepts_saturated L V m \<longleftrightarrow>
     unat (accepts_live (m_state m)) =
       min (unat (cfg_max_live_accept_sqes (configuration m)))
           (length (vw_items V (session_free_stack m))) \<or>
     (\<exists>q rc k k'. io_queue_push L q (accept_sqe (server_socket_fd m)) k = (rc, m_io_queue m, k') \<and>
        rc \<noteq> 0)"

lemma free_count:
  assumes "libs_ok L V" "mcon_inv V m"
  shows "unat (st_size (stk L) (session_free_stack m)) = length (vw_items V (session_free_stack m))"
  using mcon_inv_free_le [OF assms(2)] mcon_inv_config(2) [OF assms(2)]
    unat_u32_bound [of "cfg_session_count (configuration m)"]
  by (simp add: libs_size [OF assms(1)] unat_of_nat)

lemma accept_step:
  assumes laws: "libs_ok L V" and inv: "mcon_inv V (inst w)"
    and less: "ucast (accepts_live (m_state (inst w))) < cfg_max_live_accept_sqes (configuration (inst w))"
    and run: "enqueue_accept L w = (rc, w1)"
  defines "m \<equiv> inst w"
  defines "w2 \<equiv> w1\<lparr>inst := (inst w1)\<lparr>m_state := (m_state (inst w1))\<lparr>
      accepts_live := accepts_live (m_state (inst w1)) + 1, accepts_requested := False\<rparr>\<rparr>\<rparr>"
  shows "rc \<noteq> 0 \<Longrightarrow> mcon_inv V (inst w1) \<and> accepts_queued L V w w1 \<and> accepts_saturated L V (inst w1)"
    "rc = 0 \<Longrightarrow> mcon_inv V (inst w2) \<and>
       unat (accepts_live (m_state (inst w2))) = Suc (unat (accepts_live (m_state m))) \<and>
       accepts_queued L V w w2 \<and> server_socket_fd (inst w2) = server_socket_fd m"
proof -
  let ?acc = "accepts_live (m_state m)"
  have p: "proto_inv (pending V m) (vw_items V (session_free_stack m)) (sessions m) ?acc
      (configuration m)"
    using inv by (simp add: mcon_inv_def m_def)
  have free: "unat (st_size (stk L) (session_free_stack m)) = length (vw_items V (session_free_stack m))"
    using free_count [OF laws inv] by (simp add: m_def)
  have max: "unat ?acc < unat (cfg_max_live_accept_sqes (configuration m))"
    using less by (simp add: word_less_nat_alt m_def)
  have acc: "unat ?acc \<le> length (vw_items V (session_free_stack m))"
    using p by (simp add: proto_inv_def)
  show "mcon_inv V (inst w1) \<and> accepts_queued L V w w1 \<and> accepts_saturated L V (inst w1)"
    if "rc \<noteq> 0"
  proof (cases "st_size (stk L) (session_free_stack m) \<le> ucast ?acc")
    case True
    then have "length (vw_items V (session_free_stack m)) \<le> unat ?acc"
      using free by (simp add: word_le_nat_alt)
    then show ?thesis
      using True run inv acc max
      by (auto simp: enqueue_accept_def Let_def accepts_queued_def accepts_saturated_def m_def)
  next
    case False
    then obtain q k where push: "io_queue_push L (m_io_queue m) (accept_sqe (server_socket_fd m)) (os w) =
        (rc, q, k)" and w1: "w1 = w\<lparr>inst := m\<lparr>m_io_queue := q\<rparr>, os := k\<rparr>"
      using run by (auto simp: enqueue_accept_def Let_def m_def split: prod.splits)
    have pend: "pending V (m\<lparr>m_io_queue := q\<rparr>) = pending V m"
      using pending_push [OF laws push] that by simp
    have "mcon_inv V (m\<lparr>m_io_queue := q\<rparr>)"
      using inv pend by (simp add: mcon_inv_def m_def)
    moreover have "\<exists>q0 rc k k'. io_queue_push L q0 (accept_sqe (server_socket_fd m)) k = (rc, q, k') \<and>
        rc \<noteq> 0"
      using push that by blast
    then have "accepts_saturated L V (m\<lparr>m_io_queue := q\<rparr>)"
      by (simp add: accepts_saturated_def)
    ultimately show ?thesis
      using w1 pend io_queue_push_kernel [OF push] by (auto simp: accepts_queued_def Let_def m_def)
  qed
  assume rc: "rc = 0"
  then have room: "unat ?acc < length (vw_items V (session_free_stack m))"
    using run free by (auto simp: enqueue_accept_def Let_def m_def word_le_nat_alt split: if_splits)
  obtain q k where push: "io_queue_push L (m_io_queue m) (accept_sqe (server_socket_fd m)) (os w) =
      (0, q, k)" and w1: "w1 = w\<lparr>inst := m\<lparr>m_io_queue := q\<rparr>, os := k\<rparr>"
    using run rc by (auto simp: enqueue_accept_def Let_def m_def split: prod.splits if_splits)
  have pend: "pending V (m\<lparr>m_io_queue := q\<rparr>) = add_mset accept_entry (pending V m)"
    using pending_push [OF laws push] by simp
  have inv': "proto_inv (add_mset accept_entry (pending V m)) (vw_items V (session_free_stack m))
      (sessions m) (?acc + 1) (configuration m)"
    by (rule proto_inv_request_accept [OF p room less [folded m_def]])
  have "unat (?acc + 1) = Suc (unat ?acc)"
    using max validated_bounds(4) [OF mcon_inv_config(1) [OF inv]]
    by (simp add: unat_word_ariths m_def)
  then show "mcon_inv V (inst w2) \<and> unat (accepts_live (m_state (inst w2))) = Suc (unat ?acc) \<and>
      accepts_queued L V w w2 \<and> server_socket_fd (inst w2) = server_socket_fd m"
    using inv' inv pend w1 io_queue_push_kernel [OF push]
    by (auto simp: w2_def mcon_inv_def accepts_queued_def Let_def m_def)
qed

lemma accepts_queued_trans:
  assumes "accepts_queued L V u v" "accepts_queued L V v w"
  shows "accepts_queued L V u w"
proof -
  let ?a = "\<lambda>x. unat (accepts_live (m_state (inst x)))"
  have "?a u \<le> ?a v" "?a v \<le> ?a w"
    using assms by (auto simp: accepts_queued_def Let_def)
  then have "replicate_mset (?a v - ?a u) accept_entry + replicate_mset (?a w - ?a v) accept_entry =
      replicate_mset (?a w - ?a u) accept_entry"
    by (intro multiset_eqI) simp
  moreover have "accepts_live (m_state (inst v)) = accepts_live (m_state (inst u))"
    if "accepts_live (m_state (inst w)) = accepts_live (m_state (inst u))"
    using that \<open>?a u \<le> ?a v\<close> \<open>?a v \<le> ?a w\<close> by (simp add: unat_eq_iff [symmetric])
  ultimately show ?thesis
    using assms by (auto simp: accepts_queued_def Let_def add.assoc)
qed

lemma accept_loop_runs:
  assumes laws: "libs_ok L V" and "mcon_inv V (inst w)"
  shows "\<exists>w'. accept_loop L w = Some w' \<and> mcon_inv V (inst w') \<and> accepts_queued L V w w' \<and>
    accepts_saturated L V (inst w')"
  using assms(2)
proof (induction "unat (cfg_max_live_accept_sqes (configuration (inst w))) -
    unat (accepts_live (m_state (inst w)))" arbitrary: w rule: less_induct)
  case less
  let ?max = "cfg_max_live_accept_sqes (configuration (inst w))"
  let ?acc = "accepts_live (m_state (inst w))"
  show ?case
  proof (cases "ucast ?acc < ?max")
    case False
    then have "accepts_saturated L V (inst w)"
      using less.prems
      by (auto simp: accepts_saturated_def mcon_inv_def proto_inv_def word_less_nat_alt)
    moreover have "accepts_queued L V w w"
      by (simp add: accepts_queued_def Let_def)
    ultimately show ?thesis
      using False less.prems by (subst accept_loop.simps) auto
  next
    case True
    obtain rc w1 where run: "enqueue_accept L w = (rc, w1)" by force
    note step = accept_step [OF laws less.prems True run]
    show ?thesis
    proof (cases "rc = 0")
      case False
      then show ?thesis
        using step(1) True run by (subst accept_loop.simps) (auto simp: Let_def)
    next
      case rc: True
      define w2 where "w2 = w1\<lparr>inst := (inst w1)\<lparr>m_state := (m_state (inst w1))\<lparr>
          accepts_live := accepts_live (m_state (inst w1)) + 1, accepts_requested := False\<rparr>\<rparr>\<rparr>"
      note step2 = step(2) [OF rc, folded w2_def]
      have "configuration (inst w2) = configuration (inst w)"
        using step2 unfolding accepts_queued_def Let_def by blast
      moreover have "unat ?max - Suc (unat ?acc) < unat ?max - unat ?acc"
        using True by (simp add: word_less_nat_alt diff_less_mono2)
      ultimately obtain w' where rec: "accept_loop L w2 = Some w'" "mcon_inv V (inst w')"
          "accepts_queued L V w2 w'" "accepts_saturated L V (inst w')"
        using less.hyps [of w2] step2 by auto
      then have "accepts_queued L V w w'"
        using step2 accepts_queued_trans by blast
      then show ?thesis
        using True run rc rec by (subst accept_loop.simps) (auto simp: Let_def w2_def)
    qed
  qed
qed

subsection \<open>Submitting\<close>

text \<open>
  The transfer and submission of a batch, from the state after the accept loop: the first \<open>n\<close>
  waiting entries join the entries staged in the ring, of which the kernel takes a prefix.
\<close>

definition sqe_limit :: "('s, 'q, 'r) mcon \<Rightarrow> u32" where
  "sqe_limit m = ucast (cfg_io_uring_queue_size (configuration m)) - ucast (sqe_in_flight (m_state m))"

definition submit_size :: "('s, 'q, 'r) libs \<Rightarrow> ('s, 'q, 'r) views \<Rightarrow> ('s, 'q, 'r) mcon \<Rightarrow> nat" where
  "submit_size L V m = min (unat (sqe_limit m))
     (min (unat (ur_space (urg L) (ring m))) (length (io_queue_contents V (m_io_queue m))))"

definition submitted ::
  "('s, 'q, 'r) libs \<Rightarrow> ('s, 'q, 'r) views \<Rightarrow> ('s, 'q, 'r) world \<Rightarrow> int \<Rightarrow> ('s, 'q, 'r) world \<Rightarrow> bool" where
  "submitted L V w rc w' \<longleftrightarrow>
     (let m = inst w; m' = inst w'; n = submit_size L V m; ws = io_queue_contents V (m_io_queue m);
          staged = vw_sq V (ring m) @ take n ws
      in sessions m' = sessions m \<and> session_free_stack m' = session_free_stack m \<and>
         configuration m' = configuration m \<and> evbuf w' = evbuf w \<and>
         answers (os w') = answers (os w) \<and>
         accepts_live (m_state m') = accepts_live (m_state m) \<and>
         is_shutting_down (m_state m') = is_shutting_down (m_state m) \<and>
         accepts_requested (m_state m') = accepts_requested (m_state m) \<and>
         io_queue_contents V (m_io_queue m') = drop n ws \<and>
         (\<exists>s r'. (if n = 0 then s = 0
                   else \<exists>r. vw_sq V r = staged \<and> ur_submit (urg L) r = (s, r')) \<and>
           (if s < 0
            then rc = -1 \<and> errno (os w') = - s \<and> vw_sq V (ring m') = staged \<and>
              vw_live V (ring m') = vw_live V (ring m) \<and>
              sqe_in_flight (m_state m') = sqe_in_flight (m_state m)
            else rc = s \<and> nat s \<le> length staged \<and> vw_sq V (ring m') = drop (nat s) staged \<and>
              vw_live V (ring m') = vw_live V (ring m) +
                mset (map sqe_user_data (take (nat s) staged)) \<and>
              sqe_in_flight (m_state m') = sqe_in_flight (m_state m) + word_of_int s)))"

lemma submit_runs:
  assumes laws: "libs_ok L V" and inv: "mcon_inv V (inst w)"
  obtains rc w1 w' where "mcon_submit L w = Some (rc, w')" "mcon_inv V (inst w1)"
    "accepts_queued L V w w1"
    "accepts_requested (m_state (inst w)) \<Longrightarrow> accepts_saturated L V (inst w1)"
    "\<not> accepts_requested (m_state (inst w)) \<Longrightarrow> w1 = w"
    "submitted L V w1 rc w'" "accepts_requested (m_state (inst w)) \<Longrightarrow> accept_loop L w = Some w1"
    "mcon_inv V (inst w')" "pending V (inst w') = pending V (inst w1)"
proof -
  obtain w1 where first: "(if accepts_requested (m_state (inst w)) then accept_loop L w else Some w) =
      Some w1" "mcon_inv V (inst w1)" "accepts_queued L V w w1"
    "accepts_requested (m_state (inst w)) \<Longrightarrow> accepts_saturated L V (inst w1)"
    "\<not> accepts_requested (m_state (inst w)) \<Longrightarrow> w1 = w"
  proof (cases "accepts_requested (m_state (inst w))")
    case True
    then show ?thesis
      using accept_loop_runs [OF laws inv] that by auto
  next
    case False
    then show ?thesis
      using that [of w] inv by (simp add: accepts_queued_def Let_def)
  qed
  let ?m = "inst w1"
  let ?ws = "io_queue_contents V (m_io_queue ?m)"
  define n where "n = submit_size L V ?m"
  have bound: "length ?ws < 2 ^ 32"
    by (rule mcon_inv_waiting_bound [OF first(2)])
  obtain q r where pop: "io_queue_pop_into_ring L (m_io_queue ?m) (ring ?m) (sqe_limit ?m) =
      Some (of_nat n, q, r)"
    and r: "vw_sq V r = vw_sq V (ring ?m) @ take n ?ws" "vw_live V r = vw_live V (ring ?m)"
    and q: "io_queue_contents V q = drop n ?ws"
    using io_queue_pop_spec [OF laws bound, of n "sqe_limit ?m" "ring ?m"]
    by (auto simp: n_def submit_size_def)
  have "n < 2 ^ 32"
    using bound by (simp add: n_def submit_size_def min_def)
  then have zero: "(of_nat n :: u32) = 0 \<longleftrightarrow> n = 0"
    by (simp add: word_of_nat_eq_0_iff dvd_imp_le nat_dvd_not_less) (metis dvd_0_right gr0I nat_dvd_not_less)
  obtain s r1 where sub: "(if of_nat n \<noteq> (0 :: u32) then ur_submit (urg L) r else (0, r)) = (s, r1)"
    by force
  have law: "if s < 0 then vw_sq V r1 = vw_sq V r \<and> vw_live V r1 = vw_live V r
     else nat s \<le> length (vw_sq V r) \<and> vw_sq V r1 = drop (nat s) (vw_sq V r) \<and>
       vw_live V r1 = vw_live V r + mset (map sqe_user_data (take (nat s) (vw_sq V r)))"
    using libs_submit [OF laws, of r s r1] sub by (cases "of_nat n \<noteq> (0 :: u32)") auto
  define w' where "w' = (if s < 0
    then w1\<lparr>inst := ?m\<lparr>m_io_queue := q, ring := r1\<rparr>, os := set_errno (- s) (os w1)\<rparr>
    else w1\<lparr>inst := ?m\<lparr>m_io_queue := q, ring := r1, m_state := (m_state ?m)\<lparr>sqe_in_flight :=
      sqe_in_flight (m_state ?m) + word_of_int s\<rparr>\<rparr>\<rparr>)"
  have run: "mcon_submit L w = Some (if s < 0 then -1 else s, w')"
    using first(1) pop sub by (simp add: mcon_submit_def sqe_limit_def [symmetric] w'_def Let_def)
  have split: "mset (map sqe_user_data ?ws) =
      mset (map sqe_user_data (take n ?ws)) + mset (map sqe_user_data (drop n ?ws))"
    by (metis append_take_drop_id map_append mset_append)
  have split': "mset (map sqe_user_data (vw_sq V r)) = mset (map sqe_user_data (take (nat s) (vw_sq V r))) +
      mset (map sqe_user_data (drop (nat s) (vw_sq V r)))"
    by (metis append_take_drop_id map_append mset_append)
  let ?d = "\<lambda>es. mset (map sqe_user_data es)"
  have staged: "?d (vw_sq V r) = ?d (vw_sq V (ring ?m)) + ?d (take n ?ws)"
    by (simp add: r)
  have "?d (vw_sq V r1) + vw_live V r1 = ?d (vw_sq V r) + vw_live V r"
    using law split' by (simp add: ac_simps split: if_splits)
  then have "io_queue_waiting V q + ?d (vw_sq V r1) + vw_live V r1 =
      ?d (drop n ?ws) + (?d (vw_sq V r) + vw_live V r)"
    by (simp add: io_queue_waiting_def q ac_simps)
  also have "\<dots> = io_queue_waiting V (m_io_queue ?m) + ?d (vw_sq V (ring ?m)) + vw_live V (ring ?m)"
    unfolding staged r(2) io_queue_waiting_def split by (simp add: ac_simps)
  finally have same: "io_queue_waiting V q + ?d (vw_sq V r1) + vw_live V r1 =
      io_queue_waiting V (m_io_queue ?m) + ?d (vw_sq V (ring ?m)) + vw_live V (ring ?m)" .
  have "m_io_queue (inst w') = q" "ring (inst w') = r1"
    by (simp_all add: w'_def)
  then have pend: "pending V (inst w') = pending V ?m"
    unfolding pending_def using same by simp
  have "mcon_inv V (inst w')"
    using first(2) pend by (auto simp: mcon_inv_def w'_def)
  moreover have "submitted L V w1 (if s < 0 then -1 else s) w'"
    using law sub zero q r unfolding submitted_def Let_def n_def [symmetric]
    by (intro conjI exI [of _ s] exI [of _ r1]) (auto simp: w'_def split: if_splits)
  ultimately show ?thesis
    by (intro that [OF run first(2-5) _ _ _ pend]) (use first(1) in simp_all)
qed

lemma accepts_queued_waiting:
  assumes "accepts_queued L V w w1"
  shows "io_queue_waiting V (m_io_queue (inst w1)) = io_queue_waiting V (m_io_queue (inst w)) +
    replicate_mset (unat (accepts_live (m_state (inst w1))) - unat (accepts_live (m_state (inst w))))
      (io_uring_data_of_entry accept_entry)"
proof -
  let ?n = "unat (accepts_live (m_state (inst w1))) - unat (accepts_live (m_state (inst w)))"
  let ?R = "mset (map sqe_user_data (vw_sq V (ring (inst w)))) + vw_live V (ring (inst w))"
  have inj: "inj (image_mset io_uring_entry_of_data)"
    by (intro multiset.inj_map injI) (simp add: io_codec.dec_eq_iff)
  have "io_uring_entry_of_data (io_uring_data_of_entry accept_entry) = accept_entry"
    by (rule io_codec.dec_enc) (simp add: accept_entry_def io_entry_proper_def operation_of_code_def)
  have ring: "ring (inst w1) = ring (inst w)" and
    more: "pending V (inst w1) = pending V (inst w) + replicate_mset ?n accept_entry"
    using assms by (simp_all add: accepts_queued_def Let_def)
  note pend = more [unfolded pending_def ring]
  from pend \<open>io_uring_entry_of_data _ = _\<close>
  have "image_mset io_uring_entry_of_data (io_queue_waiting V (m_io_queue (inst w1)) + ?R) =
      image_mset io_uring_entry_of_data (io_queue_waiting V (m_io_queue (inst w)) +
        replicate_mset ?n (io_uring_data_of_entry accept_entry) + ?R)"
    by simp
  then have "io_queue_waiting V (m_io_queue (inst w1)) + ?R = io_queue_waiting V (m_io_queue (inst w)) +
      replicate_mset ?n (io_uring_data_of_entry accept_entry) + ?R"
    by (rule injD [OF inj])
  then show ?thesis by simp
qed

lemma accept_loop_first:
  assumes laws: "libs_ok L V" and inv: "mcon_inv V (inst w)"
    and free: "unat (accepts_live (m_state (inst w))) < length (vw_items V (session_free_stack (inst w)))"
    and max: "unat (accepts_live (m_state (inst w))) <
      unat (cfg_max_live_accept_sqes (configuration (inst w)))"
    and push: "fst (io_queue_push L (m_io_queue (inst w)) (accept_sqe (server_socket_fd (inst w))) (os w)) = 0"
    and run: "accept_loop L w = Some w'"
  shows "unat (accepts_live (m_state (inst w))) < unat (accepts_live (m_state (inst w')))"
proof -
  have less: "ucast (accepts_live (m_state (inst w))) < cfg_max_live_accept_sqes (configuration (inst w))"
    using max by (simp add: word_less_nat_alt)
  have "unat (st_size (stk L) (session_free_stack (inst w))) =
      length (vw_items V (session_free_stack (inst w)))"
    by (rule free_count [OF laws inv])
  then obtain w1 where enq: "enqueue_accept L w = (0, w1)"
    using free push by (cases "enqueue_accept L w")
      (auto simp: enqueue_accept_def Let_def word_le_nat_alt split: prod.splits if_splits)
  define w2 where "w2 = w1\<lparr>inst := (inst w1)\<lparr>m_state := (m_state (inst w1))\<lparr>
      accepts_live := accepts_live (m_state (inst w1)) + 1, accepts_requested := False\<rparr>\<rparr>\<rparr>"
  note step = accept_step(2) [OF laws inv less enq refl, folded w2_def]
  have rec: "accept_loop L w2 = Some w'"
    using run enq less by (subst (asm) accept_loop.simps) (simp add: Let_def w2_def)
  then have "accepts_queued L V w2 w'"
    using accept_loop_runs [OF laws, of w2] step by auto
  then show ?thesis
    using step by (auto simp: accepts_queued_def Let_def)
qed

text \<open>The sample instance with accepts requested, shutting down or not.\<close>

definition requesting_world :: "bool \<Rightarrow> ref_world" where
  "requesting_world down = (sample_world 0 0)\<lparr>inst := sample_mcon\<lparr>m_state := sample_state\<lparr>
     accepts_requested := True, is_shutting_down := down\<rparr>\<rparr>\<rparr>"

lemma requesting_inv: "mcon_inv ref_views (inst (requesting_world down))"
  using sample_inv
  by (simp add: requesting_world_def mcon_inv_def sample_mcon_def sample_state_def pending_def)

text \<open>A ring that takes every staged entry takes all that \<open>mcon_submit\<close> moved there.\<close>

lemma submitted_in_full:
  assumes sub: "submitted L V w rc w'" and empty: "vw_sq V (ring (inst w)) = []"
    and full: "\<And>r. fst (ur_submit (urg L) r) = int (length (vw_sq V r))"
  shows "rc = int (submit_size L V (inst w)) \<and> vw_sq V (ring (inst w')) = [] \<and>
    vw_live V (ring (inst w')) = vw_live V (ring (inst w)) +
      mset (map sqe_user_data (take (submit_size L V (inst w)) (io_queue_contents V (m_io_queue (inst w))))) \<and>
    sqe_in_flight (m_state (inst w')) = sqe_in_flight (m_state (inst w)) + of_nat (submit_size L V (inst w)) \<and>
    configuration (inst w') = configuration (inst w)"
proof -
  let ?ws = "io_queue_contents V (m_io_queue (inst w))"
  define n where "n = submit_size L V (inst w)"
  note sub [unfolded submitted_def Let_def n_def [symmetric] empty append_Nil]
  then obtain s r' where s: "if n = 0 then s = 0
      else \<exists>r. vw_sq V r = take n ?ws \<and> ur_submit (urg L) r = (s, r')"
    and out: "if s < 0
      then rc = -1 \<and> errno (os w') = - s \<and> vw_sq V (ring (inst w')) = take n ?ws \<and>
        vw_live V (ring (inst w')) = vw_live V (ring (inst w)) \<and>
        sqe_in_flight (m_state (inst w')) = sqe_in_flight (m_state (inst w))
      else rc = s \<and> nat s \<le> length (take n ?ws) \<and>
        vw_sq V (ring (inst w')) = drop (nat s) (take n ?ws) \<and>
        vw_live V (ring (inst w')) = vw_live V (ring (inst w)) +
          mset (map sqe_user_data (take (nat s) (take n ?ws))) \<and>
        sqe_in_flight (m_state (inst w')) = sqe_in_flight (m_state (inst w)) + word_of_int s"
    and cfg: "configuration (inst w') = configuration (inst w)"
    by blast
  have len: "length (take n ?ws) = n"
    by (simp add: n_def submit_size_def)
  have "s = int n"
  proof (cases "n = 0")
    case False
    with s obtain r where "vw_sq V r = take n ?ws" "ur_submit (urg L) r = (s, r')" by auto
    then show ?thesis
      using full [of r] len by simp
  qed (use s in simp)
  then show ?thesis
    using out len cfg unfolding n_def [symmetric] by auto
qed

subsection \<open>Properties\<close>

text \<open>C14. On every instance that satisfies the invariant \<open>mcon_submit\<close> returns: the accept loop ends
  and the transfer never meets a full ring. No request is lost or made up: the pending requests are
  those before plus one accept for each accept newly counted as live, and no session changes.\<close>

theorem submit_preserves_requests:
  assumes "libs_ok L V" "mcon_inv V (inst w)"
  shows "\<exists>rc w'. mcon_submit L w = Some (rc, w') \<and> mcon_inv V (inst w') \<and>
    unat (accepts_live (m_state (inst w))) \<le> unat (accepts_live (m_state (inst w'))) \<and>
    pending V (inst w') = pending V (inst w) +
      replicate_mset (unat (accepts_live (m_state (inst w'))) - unat (accepts_live (m_state (inst w))))
        accept_entry \<and>
    sessions (inst w') = sessions (inst w) \<and> evbuf w' = evbuf w"
  by (rule submit_runs [OF assms]) (auto simp: accepts_queued_def submitted_def Let_def)

theorem submit_preserves_requests_witness:
  "\<exists>rc w'. mcon_submit ref_libs (sample_world 0 0) = Some (rc, w') \<and>
    sessions (inst w') = sessions sample_mcon"
  using submit_preserves_requests [OF ref_libs_ok, of "sample_world 0 0"] sample_inv by auto

text \<open>When accepts are requested, submitting brings the number of live accepts up to the smaller
  of the configured maximum and the number of free sessions. It stops short only if the queue refuses
  an accept, holding then what it held before the call and the accepts queued by it.\<close>

theorem submit_saturates_accepts:
  assumes "libs_ok L V" "mcon_inv V (inst w)" "accepts_requested (m_state (inst w))"
  shows "\<exists>rc w'. mcon_submit L w = Some (rc, w') \<and>
    (unat (accepts_live (m_state (inst w'))) =
       min (unat (cfg_max_live_accept_sqes (configuration (inst w'))))
         (length (vw_items V (session_free_stack (inst w')))) \<or>
     (\<exists>q fd e q' k k'. io_queue_push L q (accept_sqe fd) k = (e, q', k') \<and> e \<noteq> 0 \<and>
        io_queue_waiting V q = io_queue_waiting V (m_io_queue (inst w)) +
          replicate_mset (unat (accepts_live (m_state (inst w'))) -
            unat (accepts_live (m_state (inst w)))) (io_uring_data_of_entry accept_entry)))"
proof (rule submit_runs [OF assms(1,2)], goal_cases)
  case (1 rc w1 w')
  have same: "accepts_live (m_state (inst w')) = accepts_live (m_state (inst w1))"
    "configuration (inst w') = configuration (inst w1)"
    "session_free_stack (inst w') = session_free_stack (inst w1)"
    using 1(6) by (auto simp: submitted_def Let_def)
  from 1(4) [OF assms(3)] consider
    (full) "unat (accepts_live (m_state (inst w1))) =
       min (unat (cfg_max_live_accept_sqes (configuration (inst w1))))
         (length (vw_items V (session_free_stack (inst w1))))"
    | (refused) q e k k' where "io_queue_push L q (accept_sqe (server_socket_fd (inst w1))) k =
        (e, m_io_queue (inst w1), k')" "e \<noteq> 0"
    unfolding accepts_saturated_def by blast
  then show ?case
  proof cases
    case full
    with 1(1) same show ?thesis by auto
  next
    case refused
    have "io_queue_waiting V q = io_queue_waiting V (m_io_queue (inst w)) +
        replicate_mset (unat (accepts_live (m_state (inst w'))) -
          unat (accepts_live (m_state (inst w)))) (io_uring_data_of_entry accept_entry)"
      using ioq.push_refused [OF assms(1) refused] accepts_queued_waiting [OF 1(3)] same by simp
    with refused 1(1) show ?thesis by blast
  qed
qed

theorem submit_saturates_accepts_witness:
  "\<exists>rc w'. mcon_submit ref_libs (requesting_world False) = Some (rc, w')"
  using submit_saturates_accepts [OF ref_libs_ok, of "requesting_world False"] requesting_inv
  by (auto simp: requesting_world_def)

text \<open>Shutting down does not stop the accept cycle: while accepts are requested and a session and
  a place in the queue are free, submitting on an instance that is shutting down still queues an
  accept on the listening socket, so a new connection can be established.\<close>

theorem shutdown_does_not_stop_accepts:
  assumes "libs_ok L V" "mcon_inv V (inst w)"
    and "is_shutting_down (m_state (inst w))" "accepts_requested (m_state (inst w))"
    and "unat (accepts_live (m_state (inst w))) < length (vw_items V (session_free_stack (inst w)))"
    and "unat (accepts_live (m_state (inst w))) < unat (cfg_max_live_accept_sqes (configuration (inst w)))"
    and "fst (io_queue_push L (m_io_queue (inst w)) (accept_sqe (server_socket_fd (inst w))) (os w)) = 0"
  shows "\<exists>rc w'. mcon_submit L w = Some (rc, w') \<and> is_shutting_down (m_state (inst w')) \<and>
    count (pending V (inst w)) accept_entry < count (pending V (inst w')) accept_entry"
proof (rule submit_runs [OF assms(1,2)], goal_cases)
  case (1 rc w1 w')
  have more: "unat (accepts_live (m_state (inst w))) < unat (accepts_live (m_state (inst w1)))"
    using accept_loop_first [OF assms(1,2,5,6,7)] 1(7) assms(4) by simp
  have "is_shutting_down (m_state (inst w'))" "pending V (inst w') = pending V (inst w1)"
    using 1 assms(3) by (auto simp: submitted_def accepts_queued_def Let_def)
  with 1(1,3) more show ?case
    by (auto simp: accepts_queued_def Let_def)
qed

theorem shutdown_does_not_stop_accepts_witness:
  "\<exists>rc w'. mcon_submit ref_libs (requesting_world True) = Some (rc, w') \<and>
    is_shutting_down (m_state (inst w')) \<and> accept_entry \<in># pending ref_views (inst w')"
proof -
  have "io_priority (io_operation accept_entry) = Some 4"
    by (simp add: accept_entry_def)
  then have "fst (io_queue_push ref_libs (m_io_queue (inst (requesting_world True)))
      (accept_sqe (server_socket_fd (inst (requesting_world True)))) (os (requesting_world True))) = 0"
    by (simp add: io_queue_push_def Let_def ref_kqueue_ops_def requesting_world_def sample_mcon_def
        sum_list_sum_nth)
  then obtain rc w' where "mcon_submit ref_libs (requesting_world True) = Some (rc, w')"
    "is_shutting_down (m_state (inst w'))"
    and more: "count (pending ref_views (inst (requesting_world True))) accept_entry <
      count (pending ref_views (inst w')) accept_entry"
    using shutdown_does_not_stop_accepts [OF ref_libs_ok requesting_inv, of True]
    by (auto simp: requesting_world_def sample_mcon_def sample_state_def sample_config_def)
  moreover have "accept_entry \<in># pending ref_views (inst w')"
    using more by (metis count_greater_zero_iff gr_zeroI not_less_zero)
  ultimately show ?thesis by blast
qed

text \<open>C19. Given that nothing is held back in the ring, that the counter of submitted requests is at
  most the size of the submission queue and that the kernel takes all that is staged, a submission
  hands over the first entries of the queue, the accepts it has just queued included, as many as the
  counter, the ring and the queue allow; it returns their number, where the header promises 0, and adds
  it to the counter without wrap-around, so that the three conditions hold again after it.\<close>

theorem submit_respects_ring_size:
  assumes "libs_ok L V" "mcon_inv V (inst w)" "vw_sq V (ring (inst w)) = []"
    and "sqe_in_flight (m_state (inst w)) \<le> cfg_io_uring_queue_size (configuration (inst w))"
    and full: "\<And>r. fst (ur_submit (urg L) r) = int (length (vw_sq V r))"
  shows "\<exists>n ws w'. mcon_submit L w = Some (int n, w') \<and>
    mset (map sqe_user_data ws) = io_queue_waiting V (m_io_queue (inst w)) + replicate_mset
      (unat (accepts_live (m_state (inst w'))) - unat (accepts_live (m_state (inst w))))
      (io_uring_data_of_entry accept_entry) \<and>
    (\<not> accepts_requested (m_state (inst w)) \<longrightarrow> ws = io_queue_contents V (m_io_queue (inst w))) \<and>
    n = min (unat (cfg_io_uring_queue_size (configuration (inst w))) -
             unat (sqe_in_flight (m_state (inst w))))
         (min (unat (ur_space (urg L) (ring (inst w)))) (length ws)) \<and>
    vw_live V (ring (inst w')) = vw_live V (ring (inst w)) + mset (map sqe_user_data (take n ws)) \<and>
    io_queue_contents V (m_io_queue (inst w')) = drop n ws \<and>
    vw_sq V (ring (inst w')) = [] \<and>
    unat (sqe_in_flight (m_state (inst w'))) = unat (sqe_in_flight (m_state (inst w))) + n \<and>
    unat (sqe_in_flight (m_state (inst w'))) \<le>
      unat (cfg_io_uring_queue_size (configuration (inst w')))"
proof (rule submit_runs [OF assms(1,2)], goal_cases)
  case (1 rc w1 w')
  let ?m = "inst w" and ?ws = "io_queue_contents V (m_io_queue (inst w1))"
  let ?size = "cfg_io_uring_queue_size (configuration ?m)" and ?fl = "sqe_in_flight (m_state ?m)"
  define n where "n = submit_size L V (inst w1)"
  have same: "ring (inst w1) = ring ?m" "configuration (inst w1) = configuration ?m"
    "sqe_in_flight (m_state (inst w1)) = ?fl"
    using 1(3) by (auto simp: accepts_queued_def Let_def)
  have "unat (sqe_limit (inst w1)) = unat ?size - unat ?fl"
    using assms(4) by (simp add: sqe_limit_def same unat_sub word_le_nat_alt)
  then have n: "n = min (unat ?size - unat ?fl) (min (unat (ur_space (urg L) (ring ?m))) (length ?ws))"
    by (simp add: n_def submit_size_def same)
  have sq: "vw_sq V (ring (inst w1)) = []"
    using assms(3) by (simp add: same)
  have res: "rc = int n" "vw_sq V (ring (inst w')) = []"
    "vw_live V (ring (inst w')) = vw_live V (ring ?m) + mset (map sqe_user_data (take n ?ws))"
    "sqe_in_flight (m_state (inst w')) = ?fl + of_nat n" "configuration (inst w') = configuration ?m"
    using submitted_in_full [OF 1(6) sq full] unfolding n_def same by auto
  have rest: "io_queue_contents V (m_io_queue (inst w')) = drop n ?ws"
    "accepts_live (m_state (inst w')) = accepts_live (m_state (inst w1))"
    using 1(6) by (auto simp: submitted_def Let_def n_def)
  have "n \<le> unat ?size - unat ?fl"
    by (subst n) simp
  then have le: "unat ?fl + n \<le> unat ?size"
    using assms(4) by (simp add: word_le_nat_alt)
  then have sum: "unat (?fl + of_nat n) = unat ?fl + n"
    using unat_u16_bound [of ?size] by (simp add: unat_word_ariths unat_of_nat)
  show ?case
  proof (intro exI [of _ n] exI [of _ ?ws] exI [of _ w'] conjI)
    show "mcon_submit L w = Some (int n, w')" using 1(1) res(1) by simp
    show "mset (map sqe_user_data ?ws) = io_queue_waiting V (m_io_queue (inst w)) + replicate_mset
      (unat (accepts_live (m_state (inst w'))) - unat (accepts_live (m_state (inst w))))
      (io_uring_data_of_entry accept_entry)"
      using accepts_queued_waiting [OF 1(3)] by (simp add: io_queue_waiting_def rest)
    show "\<not> accepts_requested (m_state ?m) \<longrightarrow> ?ws = io_queue_contents V (m_io_queue ?m)"
      using 1(5) by auto
  qed (fact n res(2,3) rest(1) | simp only: res(4,5) sum le)+
qed

text \<open>The sample instance with a read of session 1 waiting in the queue.\<close>

definition queued_world :: ref_world where
  "queued_world = (sample_world 0 0)\<lparr>inst := sample_mcon\<lparr>
     sessions := [session_init, \<lparr>socket_fd = 7, generation = 0, sess_state = 1\<rparr>],
     m_io_queue := \<lparr>ioq_queue = (8, (\<lambda>_. []) (3 := [sample_sqe MCON_IO_SESSION_READ 1]))\<rparr>\<rparr>\<rparr>"

lemma queued_contents:
  "io_queue_contents ref_views (m_io_queue (inst queued_world)) = [sample_sqe MCON_IO_SESSION_READ 1]"
  by (simp add: queued_world_def io_queue_contents_def upt_rec)

lemma sample_sqe_entry:
  "io_uring_entry_of_data (sqe_user_data (sample_sqe MCON_IO_SESSION_READ 1)) =
     io_entry MCON_IO_SESSION_READ 1"
  by (simp add: sample_sqe_def io_entry_def io_codec.dec_enc io_entry_proper_def
      operation_of_code_def)

lemma queued_sel [simp]:
  "configuration (inst queued_world) = sample_config" "m_state (inst queued_world) = sample_state"
  "ring (inst queued_world) = ur_new ref_uring_ops 4"
  by (simp_all add: queued_world_def sample_mcon_def)

lemma queued_inv: "mcon_inv ref_views (inst queued_world)"
proof -
  have "pending ref_views (inst queued_world) = {# io_entry MCON_IO_SESSION_READ 1 #}"
    by (simp add: pending_def io_queue_waiting_def queued_contents sample_sqe_entry ref_live_def)
  then show ?thesis
    unfolding mcon_inv_def proto_inv_def
    by (auto simp: queued_world_def sample_mcon_def sample_config_def sample_state_def
        session_init_def mcon_config_validate_def session_ok_def session_entry_def unat_less_2
        unat_less_2 [unfolded numeral_2_eq_2] bit_u8_powers bit_1_iff)
qed

theorem submit_respects_ring_size_witness:
  "\<exists>w'. mcon_submit ref_libs queued_world = Some (1, w') \<and>
    unat (sqe_in_flight (m_state (inst w'))) = 1 \<and>
    ref_live (ring (inst w')) = {# sqe_user_data (sample_sqe MCON_IO_SESSION_READ 1) #}"
proof -
  have "fst (ur_submit (urg ref_libs) r) = int (length (vw_sq ref_views r))" for r
    by (simp add: ref_uring_ops_def)
  then show ?thesis
    using submit_respects_ring_size [OF ref_libs_ok queued_inv]
    by (auto simp: sample_state_def sample_config_def queued_contents ref_live_def)
qed

text \<open>C29. Let requests wait in the queue, with room for them in the ring and under the limit, and no accept
  requested. When the kernel refuses the submission, the call reports the error, but the entries it has
  moved into the ring stay there: they have left the queue, the counter of requests in flight and the
  set of submitted requests are as before, and when the queue is empty the next \<open>mcon_submit\<close> returns 0
  without submitting them or counting them.\<close>

theorem failed_submit_strands_requests:
  assumes "libs_ok L V" "mcon_inv V (inst w)"
    and "\<not> accepts_requested (m_state (inst w))"
    and "sqe_in_flight (m_state (inst w)) < cfg_io_uring_queue_size (configuration (inst w))"
    and "0 < unat (ur_space (urg L) (ring (inst w)))" "io_queue_contents V (m_io_queue (inst w)) \<noteq> []"
    and fails: "\<And>r. fst (ur_submit (urg L) r) < 0"
  shows "\<exists>w'. mcon_submit L w = Some (-1, w') \<and> vw_sq V (ring (inst w')) \<noteq> [] \<and>
    pending V (inst w') = pending V (inst w) \<and>
    vw_live V (ring (inst w')) = vw_live V (ring (inst w)) \<and>
    sqe_in_flight (m_state (inst w')) = sqe_in_flight (m_state (inst w)) \<and>
    (io_queue_contents V (m_io_queue (inst w')) = [] \<longrightarrow>
      (\<exists>w''. mcon_submit L w' = Some (0, w'') \<and>
        vw_sq V (ring (inst w'')) = vw_sq V (ring (inst w')) \<and>
        sqe_in_flight (m_state (inst w'')) = sqe_in_flight (m_state (inst w'))))"
proof (rule submit_runs [OF assms(1,2)], goal_cases)
  case (1 rc w1 w')
  let ?m = "inst w" and ?ws = "io_queue_contents V (m_io_queue (inst w))"
  have w1: "w1 = w"
    using 1(5) assms(3) by blast
  have "0 < unat (sqe_limit ?m)"
    using assms(4) by (simp add: sqe_limit_def unat_sub word_le_nat_alt word_less_nat_alt)
  then have n: "0 < submit_size L V ?m"
    using assms(5,6) by (simp add: submit_size_def)
  have sub: "submitted L V w rc w'"
    using 1(6) w1 by simp
  have neg: "s < 0" if "ur_submit (urg L) r = (s, r')" for r s r'
    using fails [of r] that by simp
  from sub have s: "rc = -1 \<and> vw_live V (ring (inst w')) = vw_live V (ring ?m) \<and>
      sqe_in_flight (m_state (inst w')) = sqe_in_flight (m_state ?m) \<and>
      vw_sq V (ring (inst w')) = vw_sq V (ring ?m) @ take (submit_size L V ?m) ?ws"
    using n unfolding submitted_def Let_def by (auto dest: neg split: if_splits)
  have staged: "vw_sq V (ring (inst w')) \<noteq> []"
    using s n assms(6) by (simp add: submit_size_def)
  have idle: "\<not> accepts_requested (m_state (inst w'))"
    using sub assms(3) by (auto simp: submitted_def Let_def)
  have "\<exists>w''. mcon_submit L w' = Some (0, w'') \<and>
      vw_sq V (ring (inst w'')) = vw_sq V (ring (inst w')) \<and>
      sqe_in_flight (m_state (inst w'')) = sqe_in_flight (m_state (inst w'))"
    if empty: "io_queue_contents V (m_io_queue (inst w')) = []"
  proof (rule submit_runs [OF assms(1) 1(8)], goal_cases)
    case (1 rc2 w2 w'')
    have "submitted L V w' rc2 w''"
      using 1(5,6) idle by simp
    then have "rc2 = 0 \<and> vw_sq V (ring (inst w'')) = vw_sq V (ring (inst w')) \<and>
        sqe_in_flight (m_state (inst w'')) = sqe_in_flight (m_state (inst w'))"
      using empty by (auto simp: submitted_def Let_def submit_size_def)
    with 1(1) show ?case by auto
  qed
  then show ?case
    using 1(1,9) s staged w1 by auto
qed

text \<open>A ring whose kernel refuses every submission.\<close>

definition refusing_libs ::
  "(nat \<times> u32 list, nat \<times> (nat \<Rightarrow> io_uring_sqe list), ref_ring) libs" where
  "refusing_libs = ref_libs\<lparr>urg := ref_uring_ops\<lparr>ur_submit := (\<lambda>r. (- EBUSY, r))\<rparr>\<rparr>"

lemma refusing_libs_ok: "libs_ok refusing_libs ref_views"
proof -
  have "uring_laws (ref_uring_ops\<lparr>ur_submit := (\<lambda>r. (- EBUSY, r))\<rparr>) rr_sq ref_live"
    by (auto simp: uring_laws_def ref_uring_ops_def ref_live_def ref_load_def ref_slot_nonzero
        ref_slot_next diff_diff_eq split: if_splits list.splits)
  then show ?thesis
    using ref_stack_laws ref_kqueue_laws
    by (simp add: libs_ok_def refusing_libs_def ref_libs_def ref_views_def)
qed

theorem failed_submit_strands_requests_witness:
  "\<exists>w'. mcon_submit refusing_libs queued_world = Some (-1, w') \<and> rr_sq (ring (inst w')) \<noteq> []"
proof -
  have "ur_space (urg refusing_libs) (ring (inst queued_world)) = 4"
    by (simp add: refusing_libs_def)
  then show ?thesis
    using failed_submit_strands_requests [OF refusing_libs_ok queued_inv]
    by (auto simp: sample_state_def sample_config_def queued_contents refusing_libs_def)
qed

end
