(* ===== verification/C_Strings.thy ===== *)
theory C_Strings
  imports C_Runtime
begin

text \<open>
  What the sources use of the C library on strings. A string of C is the list of its characters
  without the terminating 0.
\<close>

subsection \<open>Decimal numbers\<close>

text \<open>The conversion \<open>%d\<close>, of a number that is not negative and of any.\<close>

fun decimal :: "nat \<Rightarrow> string" where
  "decimal n = (if n < 10 then [char_of (48 + n)] else decimal (n div 10) @ [char_of (48 + n mod 10)])"

declare decimal.simps [simp del]

definition decimal_int :: "int \<Rightarrow> string" where
  "decimal_int i = (if i < 0 then CHR ''-'' # decimal (nat (- i)) else decimal (nat i))"

lemma decimal_length: "n < 10 ^ Suc d \<Longrightarrow> length (decimal n) \<le> Suc d"
proof (induction d arbitrary: n)
  case (Suc d)
  then show ?case
    using Suc.IH [of "n div 10"] by (subst decimal.simps) auto
qed (simp add: decimal.simps)

text \<open>Reading one.\<close>

definition c_isspace :: "char \<Rightarrow> bool" where
  "c_isspace c \<longleftrightarrow> (let n = (of_char c :: nat) in n = 32 \<or> 9 \<le> n \<and> n \<le> 13)"

definition c_isdigit :: "char \<Rightarrow> bool" where
  "c_isdigit c \<longleftrightarrow> (let n = (of_char c :: nat) in 48 \<le> n \<and> n \<le> 57)"

definition number_of :: "string \<Rightarrow> nat" where
  "number_of ds = foldl (\<lambda>n c. 10 * n + (of_char c - 48)) 0 ds"

definition LONG_MAX :: int where [simp]: "LONG_MAX = 9223372036854775807"
definition LONG_MIN :: int where [simp]: "LONG_MIN = -9223372036854775808"

text \<open>
  \<open>strtol(s, &end, 10)\<close>: the value, the number of characters consumed (0 when there is no number) and
  whether \<open>errno\<close> was set to \<open>ERANGE\<close>.
\<close>

definition strtol :: "string \<Rightarrow> int \<times> nat \<times> bool" where
  "strtol s =
     (let spaces = length (takeWhile c_isspace s);
          rest = drop spaces s;
          (negative, sign) = (case rest of [] \<Rightarrow> (False, 0)
             | c # _ \<Rightarrow> if c = CHR ''-'' then (True, 1) else if c = CHR ''+'' then (False, 1) else (False, 0));
          digits = takeWhile c_isdigit (drop sign rest);
          v = (if negative then - int (number_of digits) else int (number_of digits));
          consumed = spaces + sign + length digits
      in if digits = [] then (0, 0, False)
         else if v < LONG_MIN then (LONG_MIN, consumed, True)
         else if LONG_MAX < v then (LONG_MAX, consumed, True)
         else (v, consumed, False))"

subsection \<open>Numbers written and read back\<close>

lemma number_of_snoc: "number_of (ds @ [c]) = 10 * number_of ds + (of_char c - 48)"
  by (simp add: number_of_def)

lemma digit_char:
  assumes "d < (10 :: nat)"
  shows "of_char (char_of (48 + d) :: char) = 48 + d" "c_isdigit (char_of (48 + d))"
  using assms by (simp_all add: c_isdigit_def Let_def)

lemma number_of_decimal [simp]: "number_of (decimal n) = n"
proof (induction n rule: decimal.induct)
  case (1 n)
  show ?case
  proof (cases "n < 10")
    case True
    with digit_char(1) [of n] show ?thesis
      by (subst decimal.simps) (simp add: number_of_def)
  next
    case False
    with 1 digit_char(1) [of "n mod 10"] show ?thesis
      by (subst decimal.simps) (simp add: number_of_snoc)
  qed
qed

lemma decimal_digits: "decimal n \<noteq> [] \<and> list_all c_isdigit (decimal n)"
proof (induction n rule: decimal.induct)
  case (1 n)
  show ?case
  proof (cases "n < 10")
    case True
    with digit_char(2) [of n] show ?thesis by (subst (1 2) decimal.simps) simp
  next
    case False
    with 1 digit_char(2) [of "n mod 10"] show ?thesis by (subst (1 2) decimal.simps) simp
  qed
qed

text \<open>The strings that \<open>strtol\<close> reads as a whole: blanks, an optional sign, digits.\<close>

definition numeral_syntax :: "string \<Rightarrow> string \<Rightarrow> string \<Rightarrow> string \<Rightarrow> bool" where
  "numeral_syntax s spaces sign digits \<longleftrightarrow> s = spaces @ sign @ digits \<and> list_all c_isspace spaces \<and>
     sign \<in> {[], ''+'', ''-''} \<and> digits \<noteq> [] \<and> list_all c_isdigit digits"

definition numeral_value :: "string \<Rightarrow> string \<Rightarrow> int" where
  "numeral_value sign digits =
     (if sign = ''-'' then - int (number_of digits) else int (number_of digits))"

lemma digit_is_no_space: "c_isdigit c \<Longrightarrow> \<not> c_isspace c"
  by (auto simp: c_isdigit_def c_isspace_def Let_def)

lemma sign_is_no_space: "\<not> c_isspace CHR ''-''" "\<not> c_isspace CHR ''+''" "\<not> c_isdigit CHR ''-''" "\<not> c_isdigit CHR ''+''"
  by code_simp+

lemma takeWhile_stops: "list_all P xs \<Longrightarrow> (ys \<noteq> [] \<Longrightarrow> \<not> P (hd ys)) \<Longrightarrow> takeWhile P (xs @ ys) = xs"
  by (induction xs) (auto simp: takeWhile_eq_Nil_iff)

lemma strtol_numeral:
  assumes "numeral_syntax s spaces sign digits"
  shows "strtol s =
    (let v = numeral_value sign digits
     in if v < LONG_MIN then (LONG_MIN, length s, True) else if LONG_MAX < v then (LONG_MAX, length s, True)
        else (v, length s, False))"
proof -
  from assms have s: "s = spaces @ sign @ digits" "list_all c_isspace spaces"
    "sign = [] \<or> sign = ''+'' \<or> sign = ''-''" and ds: "digits \<noteq> []" "list_all c_isdigit digits"
    by (auto simp: numeral_syntax_def)
  obtain d ds where d: "digits = d # ds" "c_isdigit d" "\<not> c_isspace d" "d \<noteq> CHR ''-''" "d \<noteq> CHR ''+''"
    using ds digit_is_no_space sign_is_no_space by (cases digits) auto
  have sp: "takeWhile c_isspace (spaces @ sign @ digits) = spaces"
    using s(2,3) d sign_is_no_space by (intro takeWhile_stops) auto
  have dg: "takeWhile c_isdigit digits = digits"
    using ds takeWhile_stops [of c_isdigit digits "[]"] by simp
  show ?thesis
    using s(3) ds(1) dg d(4,5) d(1) unfolding s(1) strtol_def sp
    by (elim disjE) (simp_all add: numeral_value_def Let_def)
qed

lemma strtol_whole:
  assumes "strtol s = (v, n, False)" "n \<noteq> 0" "n = length s"
  obtains spaces sign digits where "numeral_syntax s spaces sign digits" "v = numeral_value sign digits"
proof -
  define sp where "sp = takeWhile c_isspace s"
  define rest where "rest = dropWhile c_isspace s"
  have rest: "drop (length sp) s = rest" "s = sp @ rest"
    by (simp_all only: sp_def rest_def dropWhile_eq_drop [symmetric] takeWhile_dropWhile_id)
  obtain neg sg where sg: "(case rest of [] \<Rightarrow> (False, 0) | c # _ \<Rightarrow>
      if c = CHR ''-'' then (True, 1) else if c = CHR ''+'' then (False, 1) else (False, 0)) = (neg, sg :: nat)"
    by force
  then have sign: "take sg rest \<in> {[], ''+'', ''-''}" "neg \<longleftrightarrow> take sg rest = ''-''" "length (take sg rest) = sg"
    by (auto split: list.splits if_splits)
  define ds where "ds = takeWhile c_isdigit (drop sg rest)"
  have v: "ds \<noteq> []" "n = length sp + sg + length ds" "v = numeral_value (take sg rest) ds"
    using assms(1,2) sg sign(2)
    unfolding strtol_def numeral_value_def ds_def [symmetric] sp_def [symmetric] Let_def rest(1)
    by (auto simp: ds_def [symmetric] split: if_splits)
  have "length ds = length (drop sg rest)"
    using v(2) assms(3) rest(2) sign(3) by (metis add_diff_cancel_left' append_take_drop_id diff_diff_left length_append)
  then have "ds = drop sg rest"
    unfolding ds_def by (metis takeWhile_eq_take take_all order_refl)
  then have "s = sp @ take sg rest @ ds"
    using rest(2) by simp
  moreover have "list_all c_isspace sp" "list_all c_isdigit ds"
    by (auto simp: sp_def ds_def list_all_iff dest: set_takeWhileD)
  ultimately have "numeral_syntax s sp (take sg rest) ds"
    using sign(1) v(1) unfolding numeral_syntax_def by blast
  with v(3) that show thesis by blast
qed

lemma strtol_decimal: "int n \<le> LONG_MAX \<Longrightarrow> strtol (decimal n) = (int n, length (decimal n), False)"
  using strtol_numeral [of "decimal n" "[]" "[]" "decimal n"] decimal_digits [of n]
  by (simp add: numeral_syntax_def numeral_value_def Let_def)

subsection \<open>Comparison and tokens\<close>

text \<open>\<open>strncmp(a, b, n) == 0\<close>: up to \<open>n\<close> characters are compared, the terminating 0 included.\<close>

fun strncmp_equal :: "string \<Rightarrow> string \<Rightarrow> nat \<Rightarrow> bool" where
  "strncmp_equal _ _ 0 = True"
| "strncmp_equal [] [] (Suc n) = True"
| "strncmp_equal (c # cs) (d # ds) (Suc n) = (c = d \<and> strncmp_equal cs ds n)"
| "strncmp_equal _ _ (Suc n) = False"

text \<open>\<open>strtok_r\<close> called until it returns \<open>NULL\<close>: the maximal runs of characters that are no delimiters.\<close>

function tokens :: "(char \<Rightarrow> bool) \<Rightarrow> string \<Rightarrow> string list" where
  "tokens delim s = (case dropWhile delim s of [] \<Rightarrow> []
     | c # cs \<Rightarrow> (c # takeWhile (\<lambda>c. \<not> delim c) cs) # tokens delim (dropWhile (\<lambda>c. \<not> delim c) cs))"
  by pat_completeness auto
termination
proof (relation "measure (length \<circ> snd)")
  fix delim :: "char \<Rightarrow> bool" and s c cs
  assume "dropWhile delim s = c # cs"
  then have "Suc (length cs) \<le> length s"
    using length_dropWhile_le [of delim s] by simp
  then show "((delim, dropWhile (\<lambda>c. \<not> delim c) cs), (delim, s)) \<in> measure (length \<circ> snd)"
    using length_dropWhile_le [of "\<lambda>c. \<not> delim c" cs] by simp
qed simp

declare tokens.simps [simp del]

end
