(* ===== verification/Listening_Socket.thy ===== *)
theory Listening_Socket
  imports C_Strings
begin

text \<open>
  Listening sockets: \<open>src/mcon/socket.c\<close>. The address list comes from \<open>getaddrinfo\<close>, a parameter.
  \<open>perror\<close>, which only prints, is left out.
\<close>

subsection \<open>Addresses\<close>

definition AF_INET6 :: int where [simp]: "AF_INET6 = 10"

text \<open>\<open>struct addrinfo\<close>: the family and the bytes of the socket address.\<close>

record addrinfo =
  ai_family :: int
  ai_addr :: "u8 list"

text \<open>\<open>IN6_IS_ADDR_UNSPECIFIED\<close> of \<open>sin6_addr\<close>, the 16 bytes at offset 8 of \<open>struct sockaddr_in6\<close>.\<close>

definition can_try_dual_stack :: "addrinfo \<Rightarrow> bool" where
  "can_try_dual_stack address_info =
     (if ai_family address_info \<noteq> AF_INET6 then False
      else list_all (\<lambda>b. b = 0) (take 16 (drop 8 (ai_addr address_info))))"

subsection \<open>Creating a socket\<close>

definition prep_server_socket :: "int \<Rightarrow> u8 list \<Rightarrow> bool \<Rightarrow> kernel \<Rightarrow> int \<times> kernel" where
  "prep_server_socket family address try_dual_stack k =
    (let (r, k1) = syscall (Socket family (SOCK_STREAM OR SOCK_NONBLOCK)) k; socket_fd = rv r
     in if socket_fd < 0 then (-1, k1)
        else
          (let (r, k2) = syscall (Setsockopt socket_fd SO_REUSEPORT 1) k1
           in if rv r \<noteq> 0 then (-1, snd (syscall (Close socket_fd) k2))
              else
                (let (r, k3) = (if try_dual_stack
                       then syscall (Setsockopt socket_fd IPV6_V6ONLY 0) k2
                       else (\<lparr>rv = 0, rerr = 0, rout = 0\<rparr>, k2))
                 in if rv r \<noteq> 0 then (-1, snd (syscall (Close socket_fd) k3))
                    else
                      (let (r, k4) = syscall (Bind socket_fd address) k3
                       in if rv r \<noteq> 0 then (-1, snd (syscall (Close socket_fd) k4))
                          else
                            (let (r, k5) = syscall (Listen socket_fd) k4
                             in if rv r \<noteq> 0 then (-1, snd (syscall (Close socket_fd) k5))
                                else (socket_fd, k5))))))"

text \<open>The two loops over the address list: dual-stack candidates, then the others.\<close>

fun try_addresses :: "bool \<Rightarrow> addrinfo list \<Rightarrow> int \<Rightarrow> kernel \<Rightarrow> int \<times> kernel" where
  "try_addresses dual [] socket_fd k = (socket_fd, k)"
| "try_addresses dual (rp # rps) socket_fd k =
     (if \<not> socket_fd < 0 then (socket_fd, k)
      else if can_try_dual_stack rp \<noteq> dual then try_addresses dual rps socket_fd k
      else (let (fd, k1) = prep_server_socket (ai_family rp) (ai_addr rp) dual k
            in try_addresses dual rps fd k1))"

text \<open>\<open>snprintf(port_str, 6, "%d", port)\<close>: the decimal digits, at most five of them.\<close>

definition port_string :: "u16 \<Rightarrow> string" where
  "port_string port = take 5 (decimal (unat port))"

definition mcon_create_listening_socket ::
  "(string option \<Rightarrow> string \<Rightarrow> addrinfo list option) \<Rightarrow> u16 \<Rightarrow> string option \<Rightarrow> kernel \<Rightarrow>
   int \<times> kernel" where
  "mcon_create_listening_socket getaddrinfo port bind_address k =
     (case getaddrinfo bind_address (port_string port) of
        None \<Rightarrow> (-1, k)
      | Some address_info_result \<Rightarrow>
          (let (socket_fd, k1) = try_addresses True address_info_result (-1) k
           in try_addresses False address_info_result socket_fd k1))"

subsection \<open>Validating a socket\<close>

datatype mcon_socket_validation_error =
    MCON_SOCKET_VALIDATION_ERROR
  | MCON_SOCKET_OK
  | MCON_SOCKET_NOT_A_FILE_DESCRIPTOR
  | MCON_SOCKET_NOT_A_SOCKET
  | MCON_SOCKET_NOT_NONBLOCKING
  | MCON_SOCKET_NOT_STREAMING
  | MCON_SOCKET_NOT_LISTENING

definition O_NONBLOCK :: int where [simp]: "O_NONBLOCK = 0x800"

definition mcon_listening_socket_valid ::
  "int \<Rightarrow> kernel \<Rightarrow> mcon_socket_validation_error \<times> kernel" where
  "mcon_listening_socket_valid listening_socket k =
    (let (r1, k1) = syscall (Getsockopt listening_socket SO_ACCEPTCONN) k
     in if rv r1 \<noteq> 0 then
          (if errno k1 = EBADF then (MCON_SOCKET_NOT_A_FILE_DESCRIPTOR, set_errno 0 k1)
           else if errno k1 = ENOTSOCK then (MCON_SOCKET_NOT_A_SOCKET, set_errno 0 k1)
           else (MCON_SOCKET_VALIDATION_ERROR, k1))
        else
          (let (r2, k2) = syscall (Getsockopt listening_socket SO_TYPE) k1
           in if rv r2 \<noteq> 0 then (MCON_SOCKET_VALIDATION_ERROR, k2)
              else
                (let (r3, k3) = syscall (Fcntl_getfl listening_socket) k2; flags = rv r3
                 in if flags = -1 then (MCON_SOCKET_VALIDATION_ERROR, k3)
                    else if rout r2 \<noteq> SOCK_STREAM then (MCON_SOCKET_NOT_STREAMING, k3)
                    else if rout r1 = 0 then (MCON_SOCKET_NOT_LISTENING, k3)
                    else if flags AND O_NONBLOCK = 0 then (MCON_SOCKET_NOT_NONBLOCKING, k3)
                    else (MCON_SOCKET_OK, k3))))"

subsection \<open>Sockets opened and closed\<close>

text \<open>The descriptors a stretch of the trace has opened and not closed.\<close>

fun open_after :: "(ecall \<times> reply) list \<Rightarrow> int multiset \<Rightarrow> int multiset" where
  "open_after [] fds = fds"
| "open_after ((c, r) # cs) fds = open_after cs
     (case c of Socket _ _ \<Rightarrow> if rv r < 0 then fds else add_mset (rv r) fds
      | Close fd \<Rightarrow> fds - {# fd #}
      | _ \<Rightarrow> fds)"

lemma open_after_append: "open_after (xs @ ys) fds = open_after ys (open_after xs fds)"
  by (induction xs fds rule: open_after.induct) auto

lemma prep_server_socket_leaves:
  assumes "prep_server_socket family address dual k = (fd, k')"
  shows "\<exists>t. trace k' = trace k @ t \<and> answers k' = answers k \<and>
    open_after t fds = (if fd < 0 then fds else add_mset fd fds) \<and> (fd = -1 \<or> 0 \<le> fd)"
  using assms
  by (auto simp: prep_server_socket_def Let_def rt_simps split: if_splits)

lemma try_addresses_leaves:
  assumes "try_addresses dual rps fd k = (fd', k')" "fd = -1 \<or> 0 \<le> fd"
  shows "\<exists>t. trace k' = trace k @ t \<and> answers k' = answers k \<and>
    open_after t (if fd < 0 then fds else add_mset fd fds) =
      (if fd' < 0 then fds else add_mset fd' fds) \<and> (fd' = -1 \<or> 0 \<le> fd')"
  using assms
proof (induction dual rps fd k rule: try_addresses.induct)
  case (2 dual rp rps fd k)
  show ?case
  proof (cases "\<not> fd < 0 \<or> can_try_dual_stack rp \<noteq> dual")
    case True
    with 2 show ?thesis by (auto split: if_splits)
  next
    case False
    obtain fd1 k1 where prep: "prep_server_socket (ai_family rp) (ai_addr rp) dual k = (fd1, k1)"
      by force
    obtain t1 where t1: "trace k1 = trace k @ t1" "answers k1 = answers k"
        "open_after t1 fds = (if fd1 < 0 then fds else add_mset fd1 fds)" "fd1 = -1 \<or> 0 \<le> fd1"
      using prep_server_socket_leaves [OF prep] by blast
    have "try_addresses dual rps fd1 k1 = (fd', k')"
      using 2(3) False prep by simp
    then obtain t2 where "trace k' = trace k1 @ t2" "answers k' = answers k1"
        "open_after t2 (if fd1 < 0 then fds else add_mset fd1 fds) =
           (if fd' < 0 then fds else add_mset fd' fds)" "fd' = -1 \<or> 0 \<le> fd'"
      using 2(2) [OF _ _ refl prep [symmetric]] False t1(4) by auto
    then show ?thesis
      using False t1 by (intro exI [of _ "t1 @ t2"]) (simp add: open_after_append)
  qed
qed auto

subsection \<open>The order of attempts\<close>

text \<open>The reference: the first attempt that succeeds, in a given order.\<close>

fun first_listener :: "(addrinfo \<times> bool) list \<Rightarrow> kernel \<Rightarrow> int \<times> kernel" where
  "first_listener [] k = (-1, k)"
| "first_listener ((rp, dual) # as) k =
     (case prep_server_socket (ai_family rp) (ai_addr rp) dual k of
        (fd, k1) \<Rightarrow> if fd < 0 then first_listener as k1 else (fd, k1))"

lemma try_addresses_done: "\<not> fd < 0 \<Longrightarrow> try_addresses dual rps fd k = (fd, k)"
  by (cases rps) auto

lemma prep_server_socket_code:
  "prep_server_socket family address dual k = (fd, k') \<Longrightarrow> fd < 0 \<Longrightarrow> fd = -1"
  using prep_server_socket_leaves [of family address dual k fd k' "{#}"] by auto

lemma try_addresses_first:
  "try_addresses dual rps (-1) k =
     first_listener (map (\<lambda>rp. (rp, dual)) (filter (\<lambda>rp. can_try_dual_stack rp = dual) rps)) k"
proof (induction rps arbitrary: k)
  case (Cons rp rps)
  obtain fd k1 where "prep_server_socket (ai_family rp) (ai_addr rp) dual k = (fd, k1)"
    by force
  with Cons show ?case
    using prep_server_socket_code [of "ai_family rp" "ai_addr rp" dual k fd k1]
    by (cases "fd < 0") (auto simp: try_addresses_done)
qed simp

lemma first_listener_append:
  "first_listener (as @ bs) k =
     (case first_listener as k of (fd, k1) \<Rightarrow> if fd < 0 then first_listener bs k1 else (fd, k1))"
  by (induction as k rule: first_listener.induct) (auto split: prod.splits)

lemma first_listener_code: "first_listener as k = (fd, k') \<Longrightarrow> fd < 0 \<Longrightarrow> fd = -1"
  by (induction as k rule: first_listener.induct) (auto split: prod.splits if_splits)

subsection \<open>Properties\<close>

text \<open>C37. Creating a listening socket leaks no descriptor: whatever the addresses and the kernel's
  answers, the sockets opened and not closed by the call are none when it fails and exactly the
  returned one when it succeeds.\<close>

theorem listening_socket_no_leak:
  "\<exists>fd k' t. mcon_create_listening_socket gai port addr k = (fd, k') \<and> trace k' = trace k @ t \<and>
     (fd = -1 \<or> 0 \<le> fd) \<and> open_after t fds = (if fd < 0 then fds else add_mset fd fds)"
proof (cases "gai addr (port_string port)")
  case None
  then show ?thesis by (simp add: mcon_create_listening_socket_def)
next
  case (Some rps)
  obtain fd1 k1 fd2 k2 where r: "try_addresses True rps (-1) k = (fd1, k1)"
    "try_addresses False rps fd1 k1 = (fd2, k2)"
    by (metis surj_pair)
  obtain t1 where t1: "trace k1 = trace k @ t1"
    "open_after t1 fds = (if fd1 < 0 then fds else add_mset fd1 fds)" "fd1 = -1 \<or> 0 \<le> fd1"
    using try_addresses_leaves [OF r(1)] by auto
  obtain t2 where "trace k2 = trace k1 @ t2" "fd2 = -1 \<or> 0 \<le> fd2"
    "open_after t2 (if fd1 < 0 then fds else add_mset fd1 fds) =
       (if fd2 < 0 then fds else add_mset fd2 fds)"
    using try_addresses_leaves [OF r(2) t1(3)] by blast
  then show ?thesis
    using Some r t1
    by (intro exI [of _ fd2] exI [of _ k2] exI [of _ "t1 @ t2"])
      (simp add: mcon_create_listening_socket_def open_after_append)
qed

text \<open>C38. The two loops over the address list amount to one: every IPv6 wildcard address is tried as a
  dual-stack listener first, then every other address, in list order, until one succeeds; the port
  handed to the resolver is its full decimal representation.\<close>

theorem dual_stack_tried_first:
  "mcon_create_listening_socket gai port addr k =
     (case gai addr (decimal (unat port)) of
        None \<Rightarrow> (-1, k)
      | Some rps \<Rightarrow> first_listener
          (map (\<lambda>rp. (rp, True)) (filter can_try_dual_stack rps) @
           map (\<lambda>rp. (rp, False)) (filter (\<lambda>rp. \<not> can_try_dual_stack rp) rps)) k)"
proof -
  have "length (decimal (unat port)) \<le> Suc 4"
    using unat_u16_bound [of port] by (intro decimal_length) simp
  then have "port_string port = decimal (unat port)"
    by (simp add: port_string_def)
  then have eq: "mcon_create_listening_socket gai port addr k =
     (case gai addr (decimal (unat port)) of None \<Rightarrow> (-1, k)
      | Some rps \<Rightarrow> (case try_addresses True rps (-1) k of (fd, k1) \<Rightarrow> try_addresses False rps fd k1))"
    by (simp add: mcon_create_listening_socket_def Let_def split: option.split)
  have "(case try_addresses True rps (-1) k of (fd, k1) \<Rightarrow> try_addresses False rps fd k1) =
      first_listener (map (\<lambda>rp. (rp, True)) (filter can_try_dual_stack rps) @
        map (\<lambda>rp. (rp, False)) (filter (\<lambda>rp. \<not> can_try_dual_stack rp) rps)) k" for rps
  proof -
    let ?dual = "map (\<lambda>rp. (rp, True)) (filter can_try_dual_stack rps)"
    obtain fd k1 where first: "first_listener ?dual k = (fd, k1)" by force
    show ?thesis
      using try_addresses_first [of True rps k] try_addresses_first [of False rps k1]
        first_listener_code [OF first] first
      by (cases "fd < 0") (simp_all add: first_listener_append try_addresses_done)
  qed
  then show ?thesis
    unfolding eq by (simp split: option.splits)
qed

text \<open>C39. A descriptor passes validation exactly when both socket options and the status flags can be
  read and it is a listening, non-blocking stream socket.\<close>

theorem listening_socket_valid_iff:
  assumes "mcon_listening_socket_valid fd k = (v, k')"
  shows "v = MCON_SOCKET_OK \<longleftrightarrow>
    (\<exists>r1 r2 r3. trace k' = trace k @ [(Getsockopt fd SO_ACCEPTCONN, r1), (Getsockopt fd SO_TYPE, r2),
        (Fcntl_getfl fd, r3)] \<and>
      rv r1 = 0 \<and> rv r2 = 0 \<and> rv r3 \<noteq> -1 \<and> rout r1 \<noteq> 0 \<and> rout r2 = SOCK_STREAM \<and> bit (rv r3) 11)"
proof -
  have "x AND 2048 = 0 \<longleftrightarrow> \<not> bit x 11" for x :: int
    using and_exp_eq_0_iff_not_bit [of x 11] by simp
  note nonblock = this
  define r1 k1 r2 k2 r3 k3 where
    "r1 = fst (syscall (Getsockopt fd SO_ACCEPTCONN) k)" and
    "k1 = snd (syscall (Getsockopt fd SO_ACCEPTCONN) k)" and
    "r2 = fst (syscall (Getsockopt fd SO_TYPE) k1)" and
    "k2 = snd (syscall (Getsockopt fd SO_TYPE) k1)" and
    "r3 = fst (syscall (Fcntl_getfl fd) k2)" and "k3 = snd (syscall (Fcntl_getfl fd) k2)"
  have calls: "syscall (Getsockopt fd SO_ACCEPTCONN) k = (r1, k1)"
    "syscall (Getsockopt fd SO_TYPE) k1 = (r2, k2)" "syscall (Fcntl_getfl fd) k2 = (r3, k3)"
    by (simp_all add: r1_def k1_def r2_def k2_def r3_def k3_def)
  have trace: "trace k1 = trace k @ [(Getsockopt fd SO_ACCEPTCONN, r1)]"
    "trace k2 = trace k1 @ [(Getsockopt fd SO_TYPE, r2)]" "trace k3 = trace k2 @ [(Fcntl_getfl fd, r3)]"
    by (simp_all add: r1_def k1_def r2_def k2_def r3_def k3_def rt_simps)
  consider "rv r1 \<noteq> 0" | "rv r1 = 0" "rv r2 \<noteq> 0" | "rv r1 = 0" "rv r2 = 0" by blast
  then show ?thesis
  proof cases
    case 1
    then have "v \<noteq> MCON_SOCKET_OK" "trace k' = trace k1"
      using assms by (auto simp: mcon_listening_socket_valid_def calls split: if_splits)
    then show ?thesis by (simp add: trace)
  next
    case 2
    then have "v \<noteq> MCON_SOCKET_OK" "trace k' = trace k2"
      using assms by (auto simp: mcon_listening_socket_valid_def calls split: if_splits)
    then show ?thesis by (simp add: trace)
  next
    case 3
    then have "trace k' = trace k3" "v = MCON_SOCKET_OK \<longleftrightarrow>
        rv r3 \<noteq> -1 \<and> rout r2 = SOCK_STREAM \<and> rout r1 \<noteq> 0 \<and> bit (rv r3) 11"
      using assms by (auto simp: mcon_listening_socket_valid_def calls nonblock Let_def split: if_splits)
    then show ?thesis
      using 3 by (auto simp: trace)
  qed
qed

definition sample_listener :: kernel where
  "sample_listener = \<lparr>answers = (\<lambda>_ c. case c of Fcntl_getfl _ \<Rightarrow> \<lparr>rv = 2048, rerr = 0, rout = 0\<rparr>
     | _ \<Rightarrow> \<lparr>rv = 0, rerr = 0, rout = 1\<rparr>), trace = [], errno = 0\<rparr>"

lemma sample_listener_valid: "fst (mcon_listening_socket_valid 3 sample_listener) = MCON_SOCKET_OK"
proof -
  have "bit (2048 :: int) 11"
    using bit_exp_iff [where 'a = int, of 11 11] by simp
  then have "(2048 :: int) AND 2048 \<noteq> 0" by simp
  then show ?thesis
    by (simp add: mcon_listening_socket_valid_def Let_def rt_simps answer_def sample_listener_def)
qed

theorem listening_socket_valid_iff_witness:
  "\<exists>k' r1. mcon_listening_socket_valid 3 sample_listener = (MCON_SOCKET_OK, k') \<and>
    hd (trace k') = (Getsockopt 3 SO_ACCEPTCONN, r1) \<and> rout r1 \<noteq> 0"
proof -
  obtain k' where v: "mcon_listening_socket_valid 3 sample_listener = (MCON_SOCKET_OK, k')"
    using sample_listener_valid by (metis prod.collapse)
  from listening_socket_valid_iff [OF v] v show ?thesis
    by (auto simp: sample_listener_def)
qed

end
