(* ===== verification/Lifecycle.thy ===== *)
theory Lifecycle
  imports Session_Api Submission Listening_Socket
begin

text \<open>
  The life cycle of an instance and the entry point for epoll events: \<open>mcon_create\<close>, \<open>mcon_destroy\<close>,
  \<open>mcon_start\<close>, \<open>mcon_shutdown\<close> and \<open>mcon_process_event\<close> of \<open>src/mcon/mcon.c\<close>. What a call
  acquires and releases is read off the trace of its calls.
\<close>

subsection \<open>Creating an instance\<close>

text \<open>
  The error labels of \<open>mcon_create\<close>, from the last to the first: each releases one resource and
  falls through to the next.
\<close>

definition error_io_uring_event_fd :: "kernel \<Rightarrow> kernel" where
  "error_io_uring_event_fd k = snd (libcall Uring_queue_exit k)"

definition allocate_io_queue :: "int \<Rightarrow> kernel \<Rightarrow> kernel" where
  "allocate_io_queue eventfd k =
     error_io_uring_event_fd (snd (syscall (Close eventfd) (snd (libcall Uring_unregister_eventfd k))))"

definition allocate_sessions :: "int \<Rightarrow> kernel \<Rightarrow> kernel" where
  "allocate_sessions eventfd k = allocate_io_queue eventfd (io_queue_destroy k)"

definition allocate_session_free_stack :: "int \<Rightarrow> kernel \<Rightarrow> kernel" where
  "allocate_session_free_stack eventfd k = allocate_sessions eventfd (snd (libcall Free_sessions k))"

definition allocate_mcon_instance :: "int \<Rightarrow> kernel \<Rightarrow> kernel" where
  "allocate_mcon_instance eventfd k =
     allocate_session_free_stack eventfd (snd (libcall Idx_stack_destroy k))"

text \<open>The loop that pushes \<open>(session_count - 1) - i\<close> for \<open>i = 0, 1, \<dots>\<close>; results are ignored.\<close>

fun fill_free_stack :: "('s, 'q, 'r) libs \<Rightarrow> u32 \<Rightarrow> nat list \<Rightarrow> 's \<Rightarrow> 's" where
  "fill_free_stack L n [] s = s"
| "fill_free_stack L n (i # is) s =
     fill_free_stack L n is (snd (st_push (stk L) s ((n - 1) - of_nat i)))"

text \<open>\<open>atomic_fetch_add_explicit\<close> on the 16-bit instance counter, repeated once when it yields 0.\<close>

definition next_instance_id :: "u16 \<Rightarrow> u16 \<times> u16" where
  "next_instance_id counter =
     (let (new_id, counter1) = (counter, counter + 1)
      in if new_id = 0 then (counter1, counter1 + 1) else (new_id, counter1))"

definition mcon_create ::
  "('s, 'q, 'r) libs \<Rightarrow> mcon_config \<Rightarrow> u16 \<Rightarrow> kernel \<Rightarrow> int \<times> ('s, 'q, 'r) mcon option \<times> u16 \<times> kernel"
  where
  "mcon_create L config instance_id_counter k =
    (if \<not> mcon_config_validate config then (-1, None, instance_id_counter, set_errno EINVAL k)
     else
      (let (r, k1) = libcall (Uring_queue_init (ucast (cfg_io_uring_queue_size config))) k
       in if rv r \<noteq> 0 then (-1, None, instance_id_counter, set_errno (rv r) k1)
     else
      (let (r, k2) = syscall Eventfd k1; efd = rv r
       in if efd = -1 then (-1, None, instance_id_counter, error_io_uring_event_fd k2)
     else
      (let (_, k3) = libcall (Uring_register_eventfd efd) k2;
           (err, q, k4) = io_queue_create L (cfg_io_queue_size config) k3
       in case (err \<noteq> 0, q) of
            (False, Some ioq) \<Rightarrow>
      (let (r, k5) = libcall (Malloc_sessions (unat (cfg_session_count config))) k4
       in if rv r = 0 then (-1, None, instance_id_counter, allocate_sessions efd k5)
     else
      (let (r, k6) = libcall (Idx_stack_create (cfg_session_count config)) k5
       in if rv r \<noteq> 0 then (-1, None, instance_id_counter, allocate_session_free_stack efd k6)
     else
      (let (r, k7) = libcall Malloc_mcon k6
       in if rv r = 0 then (-1, None, instance_id_counter, allocate_mcon_instance efd k7)
     else
      (let n = cfg_session_count config;
           sessions = map (\<lambda>_. session_init) [0..<unat n];
           stack = fill_free_stack L n [0..<unat n] (st_new (stk L) n);
           (new_id, counter) = next_instance_id instance_id_counter
       in (0, Some \<lparr>instance_id = new_id, server_socket_fd = -1, epoll_fd = -1,
                configuration = config, sessions = sessions, session_free_stack = stack,
                ring = ur_new (urg L) (ucast (cfg_io_uring_queue_size config)),
                io_uring_eventfd = efd, m_io_queue = ioq,
                m_state = \<lparr>sqe_in_flight = 0, is_shutting_down = False, accepts_live = 0,
                  accepts_requested = False\<rparr>\<rparr>, counter, k7)))))
          | _ \<Rightarrow> (-1, None, instance_id_counter, allocate_io_queue efd k4)))))"

definition mcon_destroy :: "('s, 'q, 'r) mcon \<Rightarrow> kernel \<Rightarrow> kernel" where
  "mcon_destroy m k =
     (let k1 = snd (libcall Idx_stack_destroy k);
          k2 = snd (libcall Free_sessions k1);
          k3 = io_queue_destroy k2;
          k4 = snd (libcall Uring_unregister_eventfd k3);
          k5 = snd (syscall (Close (io_uring_eventfd m)) k4)
      in snd (libcall Uring_queue_exit k5))"

subsection \<open>Starting and shutting down\<close>

definition server_entry :: "('s, 'q, 'r) mcon \<Rightarrow> mcon_epoll_source \<Rightarrow> mcon_epoll_entry" where
  "server_entry m source = \<lparr>ee_instance_id = instance_id m, ee_generation = 0, ee_source = source,
     ee_session = MCON_NO_SESSION, ee_reserved = 0\<rparr>"

definition mcon_start ::
  "('s, 'q, 'r) world \<Rightarrow> int \<Rightarrow> int \<Rightarrow> int \<times> ('s, 'q, 'r) world" where
  "mcon_start w listening_socket_fd epfd =
     (let m = inst w;
          (v, k) = mcon_listening_socket_valid listening_socket_fd (os w)
      in if v \<noteq> MCON_SOCKET_OK then (-1, w\<lparr>os := set_errno EINVAL k\<rparr>)
         else
          (let (r, k1) = syscall (Epoll_ctl epfd EPOLL_CTL_ADD listening_socket_fd
                 (Some \<lparr>ep_events = EPOLLIN OR EPOLLERR OR EPOLLET,
                        ep_data = mcon_encode_epoll_entry
                          (server_entry m MCON_EPOLL_SOURCE_SERVER_SOCKET)\<rparr>)) k
           in if rv r \<noteq> 0 then (-1, w\<lparr>os := k1\<rparr>)
              else
               (let (r, k2) = syscall (Epoll_ctl epfd EPOLL_CTL_ADD (io_uring_eventfd m)
                      (Some \<lparr>ep_events = EPOLLIN OR EPOLLERR,
                             ep_data = mcon_encode_epoll_entry
                               (server_entry m MCON_EPOLL_SOURCE_IO_URING)\<rparr>)) k1
                in if rv r \<noteq> 0
                   then (-1, w\<lparr>os := snd (syscall (Epoll_ctl epfd EPOLL_CTL_DEL
                           listening_socket_fd None) k2)\<rparr>)
                   else (0, w\<lparr>inst := m\<lparr>server_socket_fd := listening_socket_fd, epoll_fd := epfd\<rparr>,
                              os := k2\<rparr>))))"

definition mcon_shutdown :: "('s, 'q, 'r) world \<Rightarrow> int \<times> ('s, 'q, 'r) world" where
  "mcon_shutdown w =
     (let m = inst w
      in if is_shutting_down (m_state m) then (-1, w\<lparr>os := set_errno EBUSY (os w)\<rparr>)
         else if server_socket_fd m = -1 then (-1, w\<lparr>os := set_errno EINVAL (os w)\<rparr>)
         else (let (r, k) = syscall (Epoll_ctl (epoll_fd m) EPOLL_CTL_DEL (server_socket_fd m) None) (os w)
               in if rv r \<noteq> 0 then (rv r, w\<lparr>os := k\<rparr>)
                  else (0, w\<lparr>inst := m\<lparr>m_state := (m_state m)\<lparr>is_shutting_down := True\<rparr>\<rparr>, os := k\<rparr>)))"

subsection \<open>Events\<close>

definition mcon_process_event ::
  "('s, 'q, 'r) libs \<Rightarrow> ('s, 'q, 'r) world \<Rightarrow> epoll_event \<Rightarrow> u32 \<Rightarrow>
   (int \<times> ('s, 'q, 'r) world) option" where
  "mcon_process_event L w epoll_event event_capacity =
     (if \<not> mcon_owns_event (inst w) epoll_event
      then Some (-1, w\<lparr>os := set_errno EINVAL (os w)\<rparr>)
      else (let event_data = mcon_decode_epoll_entry (ep_data epoll_event)
            in case ee_source event_data of
                 MCON_EPOLL_SOURCE_SERVER_SOCKET \<Rightarrow>
                   Some (mcon_process_server_socket_event w (ep_events epoll_event))
               | MCON_EPOLL_SOURCE_IO_URING \<Rightarrow> mcon_process_io_uring_event L w event_capacity
               | MCON_EPOLL_SOURCE_SESSION \<Rightarrow>
                   mcon_process_session_event w (ep_events epoll_event) event_data event_capacity
               | _ \<Rightarrow> Some (-1, w)))"

subsection \<open>Resources\<close>

datatype resource = Res_ring | Res_eventfd int | Res_kqueue | Res_sessions | Res_stack | Res_instance

text \<open>The resources a stretch of the trace holds at its end, starting from \<open>R\<close>.\<close>

fun held_after :: "(ecall \<times> reply) list \<Rightarrow> resource multiset \<Rightarrow> resource multiset" where
  "held_after [] R = R"
| "held_after ((c, r) # cs) R = held_after cs
     (case c of
        Uring_queue_init _ \<Rightarrow> if rv r = 0 then add_mset Res_ring R else R
      | Uring_queue_exit \<Rightarrow> R - {# Res_ring #}
      | Eventfd \<Rightarrow> if rv r = -1 then R else add_mset (Res_eventfd (rv r)) R
      | Close fd \<Rightarrow> R - {# Res_eventfd fd #}
      | Kqueue_create _ _ \<Rightarrow> if rv r = 0 then add_mset Res_kqueue R else R
      | Kqueue_destroy \<Rightarrow> R - {# Res_kqueue #}
      | Malloc_sessions _ \<Rightarrow> if rv r = 0 then R else add_mset Res_sessions R
      | Free_sessions \<Rightarrow> R - {# Res_sessions #}
      | Idx_stack_create _ \<Rightarrow> if rv r = 0 then add_mset Res_stack R else R
      | Idx_stack_destroy \<Rightarrow> R - {# Res_stack #}
      | Malloc_mcon \<Rightarrow> if rv r = 0 then R else add_mset Res_instance R
      | _ \<Rightarrow> R)"

subsection \<open>Creation and destruction\<close>

lemma libcall_trace: "libcall c k = (r, k') \<Longrightarrow> trace k' = trace k @ [(c, r)]"
  by (auto simp: libcall_def Let_def)

lemma syscall_trace: "syscall c k = (r, k') \<Longrightarrow> trace k' = trace k @ [(c, r)]"
  by (auto simp: syscall_def Let_def)

lemma snd_call_trace:
  "\<exists>r. trace (snd (libcall c k)) = trace k @ [(c, r)]"
  "\<exists>r. trace (snd (syscall c k)) = trace k @ [(c, r)]"
  by (auto simp: rt_simps)

lemma held_after_append: "held_after (xs @ ys) R = held_after ys (held_after xs R)"
  by (induction xs R rule: held_after.induct) auto

text \<open>What each error label releases.\<close>

definition releases :: "(kernel \<Rightarrow> kernel) \<Rightarrow> resource multiset \<Rightarrow> bool" where
  "releases f D \<longleftrightarrow> (\<forall>k. \<exists>t. trace (f k) = trace k @ t \<and> (\<forall>R. held_after t (R + D) = R))"

lemma releases_one:
  assumes "\<And>k. \<exists>r. trace (g k) = trace k @ [(c, r)]"
    and "\<And>r R. held_after [(c, r)] (add_mset x R) = R" and "releases f D"
  shows "releases (\<lambda>k. f (g k)) (add_mset x D)"
  unfolding releases_def
proof
  fix k
  obtain r where r: "trace (g k) = trace k @ [(c, r)]" using assms(1) by blast
  obtain t where t: "trace (f (g k)) = trace (g k) @ t" "\<forall>R. held_after t (R + D) = R"
    using assms(3) unfolding releases_def by blast
  have "held_after ([(c, r)] @ t) (R + add_mset x D) = R" for R
    unfolding held_after_append using assms(2) [of r "R + D"] t(2) by simp
  with r t(1) show "\<exists>t. trace (f (g k)) = trace k @ t \<and> (\<forall>R. held_after t (R + add_mset x D) = R)"
    by (intro exI [of _ "[(c, r)] @ t"]) simp
qed

lemma releases_neutral:
  assumes "\<And>k. \<exists>r. trace (g k) = trace k @ [(c, r)]"
    and "\<And>r R. held_after [(c, r)] R = R" and "releases f D"
  shows "releases (\<lambda>k. f (g k)) D"
  unfolding releases_def
proof
  fix k
  obtain r where r: "trace (g k) = trace k @ [(c, r)]" using assms(1) by blast
  obtain t where t: "trace (f (g k)) = trace (g k) @ t" "\<forall>R. held_after t (R + D) = R"
    using assms(3) unfolding releases_def by blast
  have "held_after ([(c, r)] @ t) (R + D) = R" for R
    unfolding held_after_append assms(2) by (simp add: t(2))
  with r t(1) show "\<exists>t. trace (f (g k)) = trace k @ t \<and> (\<forall>R. held_after t (R + D) = R)"
    by (intro exI [of _ "[(c, r)] @ t"]) simp
qed

lemma releases_nothing: "releases (\<lambda>k. k) {#}"
  by (simp add: releases_def)

lemma releases_labels:
  "releases error_io_uring_event_fd {# Res_ring #}"
  "releases (allocate_io_queue efd) {# Res_eventfd efd, Res_ring #}"
  "releases (allocate_sessions efd) {# Res_kqueue, Res_eventfd efd, Res_ring #}"
  "releases (allocate_session_free_stack efd) {# Res_sessions, Res_kqueue, Res_eventfd efd, Res_ring #}"
  "releases (allocate_mcon_instance efd)
     {# Res_stack, Res_sessions, Res_kqueue, Res_eventfd efd, Res_ring #}"
proof -
  show 1: "releases error_io_uring_event_fd {# Res_ring #}"
    unfolding error_io_uring_event_fd_def [abs_def]
    by (rule releases_one [OF snd_call_trace(1) _ releases_nothing]) simp
  have "releases (\<lambda>k. error_io_uring_event_fd (snd (syscall (Close efd) k)))
      {# Res_eventfd efd, Res_ring #}"
    by (rule releases_one [OF snd_call_trace(2) _ 1]) simp
  then show 2: "releases (allocate_io_queue efd) {# Res_eventfd efd, Res_ring #}"
    unfolding allocate_io_queue_def [abs_def] by (rule releases_neutral [OF snd_call_trace(1), rotated]) simp
  show 3: "releases (allocate_sessions efd) {# Res_kqueue, Res_eventfd efd, Res_ring #}"
    unfolding allocate_sessions_def [abs_def] io_queue_destroy_def
    by (rule releases_one [OF snd_call_trace(1) _ 2]) simp
  show 4: "releases (allocate_session_free_stack efd)
      {# Res_sessions, Res_kqueue, Res_eventfd efd, Res_ring #}"
    unfolding allocate_session_free_stack_def [abs_def]
    by (rule releases_one [OF snd_call_trace(1) _ 3]) simp
  show "releases (allocate_mcon_instance efd)
     {# Res_stack, Res_sessions, Res_kqueue, Res_eventfd efd, Res_ring #}"
    unfolding allocate_mcon_instance_def [abs_def]
    by (rule releases_one [OF snd_call_trace(1) _ 4]) simp
qed

text \<open>Calls that end in a label.\<close>

lemma releasesE:
  assumes "releases f D" "trace k1 = trace k @ t" "held_after t R = R + D"
  shows "\<exists>t'. trace (f k1) = trace k @ t' \<and> held_after t' R = R"
proof -
  obtain t1 where "trace (f k1) = trace k1 @ t1" "held_after t1 (R + D) = R"
    using assms(1) unfolding releases_def by blast
  then show ?thesis
    using assms(2,3) by (intro exI [of _ "t @ t1"]) (simp add: held_after_append)
qed

definition instance_resources :: "('s, 'q, 'r) mcon \<Rightarrow> resource multiset" where
  "instance_resources m =
     {# Res_instance, Res_stack, Res_sessions, Res_kqueue, Res_eventfd (io_uring_eventfd m), Res_ring #}"

lemma mcon_create_cases:
  fixes L :: "('s, 'q, 'r) libs"
  assumes "mcon_create L config c k = (rc, mo, c', k')"
  obtains (fails) t where "rc = -1" "mo = None" "c' = c" "trace k' = trace k @ t" "held_after t R = R"
  | (works) t m where "rc = 0" "mo = Some m" "mcon_config_validate config"
      "trace k' = trace k @ t" "held_after t R = R + instance_resources m"
      "(instance_id m, c') = next_instance_id c"
      "m = \<lparr>instance_id = instance_id m, server_socket_fd = -1, epoll_fd = -1,
         configuration = config,
         sessions = map (\<lambda>_. session_init) [0..<unat (cfg_session_count config)],
         session_free_stack = fill_free_stack L (cfg_session_count config)
           [0..<unat (cfg_session_count config)] (st_new (stk L) (cfg_session_count config)),
         ring = ur_new (urg L) (ucast (cfg_io_uring_queue_size config)),
         io_uring_eventfd = io_uring_eventfd m,
         m_io_queue = \<lparr>ioq_queue = kq_new (kqs L) (cfg_io_queue_size config) 5\<rparr>,
         m_state = \<lparr>sqe_in_flight = 0, is_shutting_down = False, accepts_live = 0,
           accepts_requested = False\<rparr>\<rparr>"
proof -
  let ?n = "cfg_session_count config"
  obtain r1 k1 where c1: "libcall (Uring_queue_init (ucast (cfg_io_uring_queue_size config))) k = (r1, k1)"
    by force
  obtain r2 k2 where c2: "syscall Eventfd k1 = (r2, k2)" by force
  obtain r3 k3 where c3: "libcall (Uring_register_eventfd (rv r2)) k2 = (r3, k3)" by force
  obtain r4 k4 where c4: "libcall (Kqueue_create (cfg_io_queue_size config) 5) k3 = (r4, k4)" by force
  obtain r5 k5 where c5: "libcall (Malloc_sessions (unat ?n)) k4 = (r5, k5)" by force
  obtain r6 k6 where c6: "libcall (Idx_stack_create ?n) k5 = (r6, k6)" by force
  obtain r7 k7 where c7: "libcall Malloc_mcon k6 = (r7, k7)" by force
  note t = libcall_trace [OF c1] syscall_trace [OF c2] libcall_trace [OF c3] libcall_trace [OF c4]
    libcall_trace [OF c5] libcall_trace [OF c6] libcall_trace [OF c7]
  note calls = c1 c2 c3 c4 c5 c6 c7
  note ends = releases_labels [THEN releasesE]
  note unfold = mcon_create_def Let_def io_queue_create_def calls
  consider (invalid) "\<not> mcon_config_validate config"
    | (ring) "mcon_config_validate config" "rv r1 \<noteq> 0"
    | (efd) "mcon_config_validate config" "rv r1 = 0" "rv r2 = -1"
    | (queue) "mcon_config_validate config" "rv r1 = 0" "rv r2 \<noteq> -1" "rv r4 \<noteq> 0"
    | (sessions) "mcon_config_validate config" "rv r1 = 0" "rv r2 \<noteq> -1" "rv r4 = 0" "rv r5 = 0"
    | (stack) "mcon_config_validate config" "rv r1 = 0" "rv r2 \<noteq> -1" "rv r4 = 0" "rv r5 \<noteq> 0" "rv r6 \<noteq> 0"
    | (inst) "mcon_config_validate config" "rv r1 = 0" "rv r2 \<noteq> -1" "rv r4 = 0" "rv r5 \<noteq> 0" "rv r6 = 0"
        "rv r7 = 0"
    | (ok) "mcon_config_validate config" "rv r1 = 0" "rv r2 \<noteq> -1" "rv r4 = 0" "rv r5 \<noteq> 0" "rv r6 = 0"
        "rv r7 \<noteq> 0"
    by blast
  then show ?thesis
  proof cases
    case invalid
    with assms show ?thesis by (intro that(1) [of "[]"]) (auto simp: mcon_create_def)
  next
    case ring
    with assms t show ?thesis
      by (intro that(1) [of "[(Uring_queue_init (ucast (cfg_io_uring_queue_size config)), r1)]"])
        (auto simp: unfold)
  next
    case efd
    then have "k' = error_io_uring_event_fd k2" and out: "rc = -1" "mo = None" "c' = c"
      using assms by (auto simp: unfold)
    then obtain t' where "trace k' = trace k @ t'" "held_after t' R = R"
      using ends(1) [of k2 k "[(Uring_queue_init (ucast (cfg_io_uring_queue_size config)), r1),
        (Eventfd, r2)]" R] efd t by auto
    with out show ?thesis by (rule that(1))
  next
    case queue
    then have "k' = allocate_io_queue (rv r2) k4" and out: "rc = -1" "mo = None" "c' = c"
      using assms by (auto simp: unfold)
    then obtain t' where "trace k' = trace k @ t'" "held_after t' R = R"
      using ends(2) [of k4 k "[(Uring_queue_init (ucast (cfg_io_uring_queue_size config)), r1),
        (Eventfd, r2), (Uring_register_eventfd (rv r2), r3),
        (Kqueue_create (cfg_io_queue_size config) 5, r4)]" R "rv r2"] queue t by auto
    with out show ?thesis by (rule that(1))
  next
    case sessions
    then have "k' = allocate_sessions (rv r2) k5" and out: "rc = -1" "mo = None" "c' = c"
      using assms by (auto simp: unfold)
    then obtain t' where "trace k' = trace k @ t'" "held_after t' R = R"
      using ends(3) [of k5 k "[(Uring_queue_init (ucast (cfg_io_uring_queue_size config)), r1),
        (Eventfd, r2), (Uring_register_eventfd (rv r2), r3),
        (Kqueue_create (cfg_io_queue_size config) 5, r4), (Malloc_sessions (unat ?n), r5)]" R "rv r2"]
        sessions t by auto
    with out show ?thesis by (rule that(1))
  next
    case stack
    then have "k' = allocate_session_free_stack (rv r2) k6" and out: "rc = -1" "mo = None" "c' = c"
      using assms by (auto simp: unfold)
    then obtain t' where "trace k' = trace k @ t'" "held_after t' R = R"
      using ends(4) [of k6 k "[(Uring_queue_init (ucast (cfg_io_uring_queue_size config)), r1),
        (Eventfd, r2), (Uring_register_eventfd (rv r2), r3),
        (Kqueue_create (cfg_io_queue_size config) 5, r4), (Malloc_sessions (unat ?n), r5),
        (Idx_stack_create ?n, r6)]" R "rv r2"] stack t by auto
    with out show ?thesis by (rule that(1))
  next
    case inst
    then have "k' = allocate_mcon_instance (rv r2) k7" and out: "rc = -1" "mo = None" "c' = c"
      using assms by (auto simp: unfold)
    then obtain t' where "trace k' = trace k @ t'" "held_after t' R = R"
      using ends(5) [of k7 k "[(Uring_queue_init (ucast (cfg_io_uring_queue_size config)), r1),
        (Eventfd, r2), (Uring_register_eventfd (rv r2), r3),
        (Kqueue_create (cfg_io_queue_size config) 5, r4), (Malloc_sessions (unat ?n), r5),
        (Idx_stack_create ?n, r6), (Malloc_mcon, r7)]" R "rv r2"] inst t by auto
    with out show ?thesis by (rule that(1))
  next
    case ok
    obtain new_id c1 where id: "next_instance_id c = (new_id, c1)" by force
    then show ?thesis
      using assms ok t
      by (intro that(2) [of "the mo" "[(Uring_queue_init (ucast (cfg_io_uring_queue_size config)), r1),
        (Eventfd, r2), (Uring_register_eventfd (rv r2), r3),
        (Kqueue_create (cfg_io_queue_size config) 5, r4), (Malloc_sessions (unat ?n), r5),
        (Idx_stack_create ?n, r6), (Malloc_mcon, r7)]"])
        (auto simp: unfold instance_resources_def)
  qed
qed

subsection \<open>A created instance satisfies the invariant\<close>

lemma fill_free_stack_append:
  "fill_free_stack L n (xs @ ys) s = fill_free_stack L n ys (fill_free_stack L n xs s)"
  by (induction xs arbitrary: s) auto

lemma fill_free_stack_items:
  assumes laws: "libs_ok L V" and "j \<le> unat n"
  defines "s \<equiv> fill_free_stack L n [0..<j] (st_new (stk L) n)"
  shows "vw_items V s = map of_nat [unat n - j..<unat n] \<and> vw_cap V s = unat n"
  using assms(2) unfolding s_def
proof (induction j)
  case 0
  then show ?case by (simp add: libs_stack_new [OF laws])
next
  case (Suc j)
  let ?s = "fill_free_stack L n [0..<j] (st_new (stk L) n)"
  have IH: "vw_items V ?s = map of_nat [unat n - j..<unat n]" "vw_cap V ?s = unat n"
    using Suc by auto
  obtain rc s' where push: "st_push (stk L) ?s (n - 1 - of_nat j) = (rc, s')" by force
  have "length (vw_items V ?s) < vw_cap V ?s"
    using IH Suc.prems by simp
  note pushed = libs_push_room [OF laws push this]
  have "n = of_nat (unat n)" by simp
  then have "n - 1 - of_nat j = of_nat (unat n - Suc j)"
    using Suc.prems by (metis (no_types, lifting) Suc_leD diff_diff_eq of_nat_Suc of_nat_diff add.commute)
  moreover have "[unat n - Suc j..<unat n] = (unat n - Suc j) # [unat n - j..<unat n]"
    using Suc.prems by (subst upt_conv_Cons) (auto simp: Suc_diff_Suc)
  ultimately show ?case
    using IH pushed push by (simp add: fill_free_stack_append)
qed

lemma created_inv:
  assumes laws: "libs_ok L V" and valid: "mcon_config_validate config"
    and m: "m = \<lparr>instance_id = iid, server_socket_fd = -1, epoll_fd = -1, configuration = config,
         sessions = map (\<lambda>_. session_init) [0..<unat (cfg_session_count config)],
         session_free_stack = fill_free_stack L (cfg_session_count config)
           [0..<unat (cfg_session_count config)] (st_new (stk L) (cfg_session_count config)),
         ring = ur_new (urg L) entries, io_uring_eventfd = efd,
         m_io_queue = \<lparr>ioq_queue = kq_new (kqs L) cap 5\<rparr>,
         m_state = \<lparr>sqe_in_flight = 0, is_shutting_down = False, accepts_live = 0,
           accepts_requested = False\<rparr>\<rparr>"
  shows "mcon_inv V m" "pending V m = {#}"
    "vw_items V (session_free_stack m) = map of_nat [0..<unat (cfg_session_count config)]"
    "mcon_active_session_count L m = 0"
proof -
  let ?n = "cfg_session_count config"
  note free = fill_free_stack_items [OF laws, of "unat ?n" ?n, simplified]
  show pend: "pending V m = {#}"
    by (simp add: m pending_def io_queue_waiting_def io_queue_contents_def libs_kq_new [OF laws]
        libs_ur_new [OF laws] concat_eq_Nil_conv)
  show items: "vw_items V (session_free_stack m) = map of_nat [0..<unat ?n]"
    using free by (simp add: m)
  have small: "unat (of_nat k :: u32) = k" if "k < unat ?n" for k
    using that unat_u32_bound [of ?n] by (simp add: unat_of_nat)
  have "distinct (map of_nat [0..<unat ?n] :: u32 list)"
    using small by (auto simp: distinct_map intro!: inj_onI) (metis small)
  moreover have "\<forall>x \<in> set (map of_nat [0..<unat ?n] :: u32 list). unat x < unat ?n"
    using small by auto
  moreover have "i \<in> set (map of_nat [0..<unat ?n])" if "unat i < unat ?n" for i :: u32
    using that by (auto simp: image_iff intro!: bexI [of _ "unat i"])
  ultimately show inv: "mcon_inv V m"
    using free valid unfolding mcon_inv_def proto_inv_def pend items
    by (auto simp: m session_ok_def session_init_def)
  have "unat (mcon_active_session_count L m) = 0"
    using active_count_eq [OF laws inv] items by (simp add: m)
  then show "mcon_active_session_count L m = 0"
    using unat_eq_iff [of "mcon_active_session_count L m" 0] by simp
qed

subsection \<open>The other calls keep the invariant\<close>

lemma mcon_start_keeps_inv:
  "mcon_start w lfd epfd = (rc, w') \<Longrightarrow> mcon_inv V (inst w) \<Longrightarrow> mcon_inv V (inst w')"
  by (auto simp: mcon_start_def Let_def frame split: if_splits prod.splits)

lemma mcon_shutdown_keeps_inv:
  "mcon_shutdown w = (rc, w') \<Longrightarrow> mcon_inv V (inst w) \<Longrightarrow> mcon_inv V (inst w')"
  by (auto simp: mcon_shutdown_def Let_def mcon_inv_def split: if_splits prod.splits)

lemma server_socket_event_keeps_inv:
  "mcon_process_server_socket_event w e = (rc, w') \<Longrightarrow> mcon_inv V (inst w) \<Longrightarrow>
   mcon_inv V (inst w') \<and> rc = 0 \<and> evbuf w' = evbuf w \<and> answers (os w') = answers (os w)"
  by (auto simp: mcon_process_server_socket_event_def mcon_inv_def)

lemma process_event_keeps_inv:
  assumes laws: "libs_ok L V" and inv: "mcon_inv V (inst w)"
    and room: "unat cap \<le> length (evbuf w)"
  shows "\<exists>rc w'. mcon_process_event L w ev cap = Some (rc, w') \<and> mcon_inv V (inst w') \<and>
    answers (os w') = answers (os w) \<and> length (evbuf w') = length (evbuf w)"
proof -
  have "\<exists>rc w'. mcon_process_io_uring_event L w cap = Some (rc, w') \<and> mcon_inv V (inst w') \<and>
      answers (os w') = answers (os w) \<and> length (evbuf w') = length (evbuf w)"
    using io_uring_event_runs [OF laws inv room] by (auto simp: loop_result_def)
  moreover have "\<exists>rc w'. mcon_process_session_event w (ep_events ev)
      (mcon_decode_epoll_entry (ep_data ev)) cap = Some (rc, w') \<and> mcon_inv V (inst w') \<and>
      answers (os w') = answers (os w) \<and> length (evbuf w') = length (evbuf w)"
    using session_event_keeps_inv [OF inv room, of "ep_events ev"] by blast
  moreover obtain rc w' where "mcon_process_server_socket_event w (ep_events ev) = (rc, w')"
    "mcon_inv V (inst w')" "answers (os w') = answers (os w)" "length (evbuf w') = length (evbuf w)"
    using server_socket_event_keeps_inv [of w "ep_events ev" _ _ V] inv
    by (metis surj_pair)
  ultimately show ?thesis
    using inv
    by (auto simp: mcon_process_event_def Let_def split: mcon_epoll_source.split)
qed

subsection \<open>Properties\<close>

text \<open>C17. Creating an instance is all or nothing: when any step fails, everything acquired before it
  has been released and neither the destination nor the instance counter has changed; when it
  succeeds, the call holds exactly the ring, the eventfd, the queue, the session array, the free stack
  and the instance.\<close>

theorem create_all_or_nothing:
  assumes "mcon_create L config c k = (rc, mo, c', k')"
  shows "\<exists>t. trace k' = trace k @ t \<and>
    (rc = -1 \<and> mo = None \<and> c' = c \<and> held_after t R = R \<or>
     rc = 0 \<and> (\<exists>m. mo = Some m \<and> held_after t R = R +
       {# Res_instance, Res_stack, Res_sessions, Res_kqueue, Res_eventfd (io_uring_eventfd m),
          Res_ring #}))"
  by (rule mcon_create_cases [OF assms]) (auto simp: instance_resources_def)

text \<open>A kernel on which every call of \<open>mcon_create\<close> succeeds, and one on which the allocation of the
  instance fails.\<close>

definition creating_kernel :: "int \<Rightarrow> kernel" where
  "creating_kernel p = \<lparr>answers = (\<lambda>_ c. case c of Eventfd \<Rightarrow> \<lparr>rv = 5, rerr = 0, rout = 0\<rparr>
     | Malloc_sessions _ \<Rightarrow> \<lparr>rv = 4096, rerr = 0, rout = 0\<rparr>
     | Malloc_mcon \<Rightarrow> \<lparr>rv = p, rerr = 0, rout = 0\<rparr>
     | _ \<Rightarrow> \<lparr>rv = 0, rerr = 0, rout = 0\<rparr>), trace = [], errno = 0\<rparr>"

theorem create_all_or_nothing_witness:
  "\<exists>t. trace (snd (snd (snd (mcon_create ref_libs mcon_config_default 1 (creating_kernel 0))))) = t \<and>
    held_after t {#} = {#}"
proof -
  obtain rc mo c' k' where run:
    "mcon_create ref_libs mcon_config_default 1 (creating_kernel 0) = (rc, mo, c', k')"
    by (metis surj_pair)
  moreover have "mo = None"
    using run by (auto simp: mcon_create_def Let_def io_queue_create_def rt_simps answer_def
        creating_kernel_def mcon_config_validate_def mcon_config_default_def)
  ultimately show ?thesis
    using create_all_or_nothing [OF run, of "{#}"] by (auto simp: creating_kernel_def)
qed

text \<open>C16. A created instance satisfies the invariant with nothing pending, all sessions free, the
  lowest index first, and no descriptor set. Its id is never 0 and the counter moves past it.\<close>

theorem create_establishes_invariant:
  assumes "libs_ok L V" "mcon_create L config c k = (0, Some m, c', k')"
  shows "mcon_inv V m \<and> pending V m = {#} \<and>
    vw_items V (session_free_stack m) = map of_nat [0..<unat (cfg_session_count config)] \<and>
    mcon_active_session_count L m = 0 \<and> epoll_fd m = -1 \<and> server_socket_fd m = -1 \<and>
    configuration m = config \<and> instance_id m \<noteq> 0 \<and> c' = instance_id m + 1"
proof (rule mcon_create_cases [OF assms(2), where R = "{#}"], goal_cases)
  case (2 t m')
  have m': "m' = m" using 2(2) by simp
  note inv = created_inv [OF assms(1) 2(3,7)]
  have "instance_id m \<noteq> 0 \<and> c' = instance_id m + 1"
    using 2(6) unfolding m' by (auto simp: next_instance_id_def split: if_splits)
  moreover have "epoll_fd m = -1" "server_socket_fd m = -1" "configuration m = config"
    using 2(7) unfolding m' by (metis mcon.select_convs(2-4))+
  ultimately show ?case
    using inv unfolding m' by simp
qed simp

theorem create_establishes_invariant_witness:
  "\<exists>m c' k'. mcon_create ref_libs mcon_config_default 0 (creating_kernel 64) = (0, Some m, c', k') \<and>
    mcon_inv ref_views m \<and> c' = 2"
proof -
  obtain m c' k' where run:
    "mcon_create ref_libs mcon_config_default 0 (creating_kernel 64) = (0, Some m, c', k')"
    and "c' = 2"
    by (auto simp: mcon_create_def Let_def io_queue_create_def rt_simps answer_def next_instance_id_def
        creating_kernel_def mcon_config_validate_def mcon_config_default_def)
  with create_establishes_invariant [OF ref_libs_ok run] show ?thesis by blast
qed

text \<open>Destroying an instance releases the stack, the session array, the queue, the eventfd and the
  ring, and nothing else: the memory of the instance itself, which \<open>mcon_create\<close> allocated, is still
  held.\<close>

theorem destroy_keeps_instance_memory:
  "\<exists>t. trace (mcon_destroy m k) = trace k @ t \<and>
     held_after t (R + {# Res_instance, Res_stack, Res_sessions, Res_kqueue,
       Res_eventfd (io_uring_eventfd m), Res_ring #}) = R + {# Res_instance #}"
  by (simp add: mcon_destroy_def io_queue_destroy_def Let_def rt_simps add_mset_commute)

text \<open>When the ring cannot be set up, \<open>errno\<close> is left negative: liburing returns the negated error
  number and the code stores it unchanged.\<close>

theorem ring_setup_failure_negative_errno:
  assumes "mcon_config_validate config"
    and "rv (answer k (Uring_queue_init (ucast (cfg_io_uring_queue_size config)))) = - e" "0 < e"
  shows "\<exists>k'. mcon_create L config c k = (-1, None, c, k') \<and> errno k' = - e"
  using assms by (simp add: mcon_create_def Let_def rt_simps)

theorem ring_setup_failure_negative_errno_witness:
  "\<exists>k'. mcon_create ref_libs mcon_config_default 1 (sample_kernel (- ENOMEM) 0) = (-1, None, 1, k') \<and>
    errno k' = - ENOMEM"
proof -
  have "mcon_config_validate mcon_config_default"
    by (simp add: mcon_config_validate_def mcon_config_default_def)
  then show ?thesis
    by (rule ring_setup_failure_negative_errno) (simp_all add: answer_def sample_kernel_def)
qed

fun interest_after :: "(ecall \<times> reply) list \<Rightarrow> (int \<times> int) set \<Rightarrow> (int \<times> int) set" where
  "interest_after [] I = I"
| "interest_after ((c, r) # cs) I = interest_after cs
     (case c of
        Epoll_ctl ep EPOLL_CTL_ADD fd _ \<Rightarrow> if rv r = 0 then insert (ep, fd) I else I
      | Epoll_ctl ep EPOLL_CTL_DEL fd _ \<Rightarrow> if rv r = 0 then I - {(ep, fd)} else I
      | _ \<Rightarrow> I)"

lemma validation_interest:
  assumes "mcon_listening_socket_valid fd k = (v, k')"
  shows "\<exists>t. trace k' = trace k @ t \<and> interest_after t I = I \<and> answers k' = answers k"
  using assms
  by (auto simp: mcon_listening_socket_valid_def Let_def rt_simps split: if_splits)

lemma interest_after_append: "interest_after (xs @ ys) I = interest_after ys (interest_after xs I)"
  by (induction xs I rule: interest_after.induct) auto

text \<open>The four ways through \<open>mcon_start\<close>, with the calls each makes after the validation.\<close>

lemma mcon_start_runs:
  assumes "mcon_start w lfd epfd = (rc, w')"
  obtains v t e1 r1 e2 r2 r3 where
    "v \<noteq> MCON_SOCKET_OK \<and> trace (os w') = trace (os w) @ t \<and> rc = -1 \<and> inst w' = inst w \<or>
     rv r1 \<noteq> 0 \<and> trace (os w') = trace (os w) @ t @ [(Epoll_ctl epfd EPOLL_CTL_ADD lfd (Some e1), r1)] \<and>
       rc = -1 \<and> inst w' = inst w \<or>
     rv r1 = 0 \<and> rv r2 \<noteq> 0 \<and> trace (os w') = trace (os w) @
         ((t @ [(Epoll_ctl epfd EPOLL_CTL_ADD lfd (Some e1), r1)]) @
          [(Epoll_ctl epfd EPOLL_CTL_ADD (io_uring_eventfd (inst w)) (Some e2), r2)]) @
         [(Epoll_ctl epfd EPOLL_CTL_DEL lfd None, r3)] \<and> rc = -1 \<and> inst w' = inst w \<or>
     rv r1 = 0 \<and> rv r2 = 0 \<and> trace (os w') = trace (os w) @
         (t @ [(Epoll_ctl epfd EPOLL_CTL_ADD lfd (Some e1), r1)]) @
         [(Epoll_ctl epfd EPOLL_CTL_ADD (io_uring_eventfd (inst w)) (Some e2), r2)] \<and>
       rc = 0 \<and> inst w' = (inst w)\<lparr>server_socket_fd := lfd, epoll_fd := epfd\<rparr>"
    "\<And>I. interest_after t I = I" "\<exists>t. r3 = answers (os w) t (Epoll_ctl epfd EPOLL_CTL_DEL lfd None)"
proof -
  define e1 where "e1 = \<lparr>ep_events = EPOLLIN OR EPOLLERR OR EPOLLET,
      ep_data = mcon_encode_epoll_entry (server_entry (inst w) MCON_EPOLL_SOURCE_SERVER_SOCKET)\<rparr>"
  define e2 where "e2 = \<lparr>ep_events = EPOLLIN OR EPOLLERR,
      ep_data = mcon_encode_epoll_entry (server_entry (inst w) MCON_EPOLL_SOURCE_IO_URING)\<rparr>"
  obtain v k where v: "mcon_listening_socket_valid lfd (os w) = (v, k)" by force
  obtain r1 k1 where c1: "syscall (Epoll_ctl epfd EPOLL_CTL_ADD lfd (Some e1)) k = (r1, k1)" by force
  obtain r2 k2 where
    c2: "syscall (Epoll_ctl epfd EPOLL_CTL_ADD (io_uring_eventfd (inst w)) (Some e2)) k1 = (r2, k2)" by force
  obtain r3 k3 where c3: "syscall (Epoll_ctl epfd EPOLL_CTL_DEL lfd None) k2 = (r3, k3)" by force
  obtain t where t: "trace k = trace (os w) @ t" "answers k = answers (os w)"
    using validation_interest [OF v] by blast
  have same: "interest_after t I = I" for I
    using validation_interest [OF v, of I] t(1) by auto
  have "r3 = answers (os w) (trace k2) (Epoll_ctl epfd EPOLL_CTL_DEL lfd None)"
    using c1 c2 c3 t(2) by (auto simp: syscall_def Let_def)
  moreover have "(rc, w') = (if v \<noteq> MCON_SOCKET_OK then (-1, w\<lparr>os := set_errno EINVAL k\<rparr>)
    else if rv r1 \<noteq> 0 then (-1, w\<lparr>os := k1\<rparr>)
    else if rv r2 \<noteq> 0 then (-1, w\<lparr>os := k3\<rparr>)
    else (0, w\<lparr>inst := (inst w)\<lparr>server_socket_fd := lfd, epoll_fd := epfd\<rparr>, os := k2\<rparr>))"
    unfolding assms [symmetric] mcon_start_def
    by (simp add: Let_def v c1 [unfolded e1_def] c2 [unfolded e2_def] c3)
  ultimately show ?thesis
    using t same syscall_trace [OF c1] syscall_trace [OF c2] syscall_trace [OF c3]
    by (intro that [of v t r1 e1 r2 e2 r3]) (auto split: if_splits)
qed

text \<open>C28. Starting is all or nothing. On success both descriptors are stored and the listening socket
  and the eventfd are in the interest list. On failure the instance is unchanged, and so is the
  interest list, as long as the kernel lets a socket just added be removed again.\<close>

theorem start_all_or_nothing:
  assumes "mcon_start w lfd epfd = (rc, w')" "(epfd, lfd) \<notin> I"
    and removable: "\<And>t. rv (answers (os w) t (Epoll_ctl epfd EPOLL_CTL_DEL lfd None)) = 0"
  shows "\<exists>t. trace (os w') = trace (os w) @ t \<and>
    (rc = 0 \<and> inst w' = (inst w)\<lparr>server_socket_fd := lfd, epoll_fd := epfd\<rparr> \<and>
       interest_after t I = insert (epfd, io_uring_eventfd (inst w)) (insert (epfd, lfd) I) \<or>
     rc = -1 \<and> inst w' = inst w \<and> interest_after t I = I)"
proof (rule mcon_start_runs [OF assms(1)], goal_cases)
  case (1 v t e1 r1 e2 r2 r3)
  have steps: "interest_after [(Epoll_ctl epfd EPOLL_CTL_ADD lfd (Some e1), r1)] J =
      (if rv r1 = 0 then insert (epfd, lfd) J else J)"
    "interest_after [(Epoll_ctl epfd EPOLL_CTL_ADD (io_uring_eventfd (inst w)) (Some e2), r2)] J =
      (if rv r2 = 0 then insert (epfd, io_uring_eventfd (inst w)) J else J)"
    "interest_after [(Epoll_ctl epfd EPOLL_CTL_DEL lfd None, r3)] J = J - {(epfd, lfd)}" for J
    using 1(3) removable by auto
  show ?case
    using 1(1) 1(2) [of I] assms(2)
    by (elim disjE conjE)
      (rule exI, intro conjI, assumption,
        simp add: interest_after_append steps del: interest_after.simps append_assoc)+
qed

theorem start_all_or_nothing_witness:
  "\<exists>w' t. mcon_start ((sample_world 0 0)\<lparr>os := sample_listener\<rparr>) 3 4 = (0, w') \<and>
    trace (os w') = t \<and> interest_after t {} = {(4, 5), (4, 3)}"
proof -
  let ?w = "(sample_world 0 0)\<lparr>os := sample_listener\<rparr>"
  obtain k where v: "mcon_listening_socket_valid 3 sample_listener = (MCON_SOCKET_OK, k)"
    using sample_listener_valid by (metis prod.collapse)
  then have "answers k = answers sample_listener"
    using validation_interest by blast
  with v obtain w' where run: "mcon_start ?w 3 4 = (0, w')"
    by (auto simp: mcon_start_def Let_def rt_simps answer_def sample_listener_def)
  have "rv (answers (os ?w) t (Epoll_ctl 4 EPOLL_CTL_DEL 3 None)) = 0" for t
    by (simp add: sample_listener_def)
  note started = start_all_or_nothing [OF run _ this, of "{}"]
  have "trace (os ?w) = []" "io_uring_eventfd (inst ?w) = 5"
    by (simp_all add: sample_listener_def sample_mcon_def)
  with started run show ?thesis by auto
qed

lemma no_active_session:
  assumes "libs_ok L V" "mcon_inv V m" "mcon_active_session_count L m = 0"
    and "s < cfg_session_count (configuration m)"
  shows "socket_fd (sessions m ! unat s) = -1"
proof -
  let ?free = "vw_items V (session_free_stack m)"
  have idx: "unat s < length (sessions m)"
    using assms(4) mcon_inv_index [OF assms(2)] by simp
  have len: "length ?free = length (sessions m)"
    using active_count_eq [OF assms(1,2)] mcon_inv_free_le [OF assms(2)] assms(3) by simp
  have inv: "distinct ?free" "\<forall>x \<in> set ?free. unat x < length (sessions m)"
    using assms(2) by (auto simp: mcon_inv_def proto_inv_def)
  then have "card (unat ` set ?free) = length (sessions m)"
    using len by (subst card_image) (auto simp: inj_on_def unat_eq_iff distinct_card)
  then have "unat ` set ?free = {..<length (sessions m)}"
    using inv by (intro card_subset_eq) auto
  then have "unat s \<in> unat ` set ?free"
    using idx by simp
  then have "s \<in> set ?free"
    by (auto simp: unat_eq_iff)
  then show ?thesis
    using mcon_inv_free_iff [OF assms(2) idx] by simp
qed

text \<open>The sample instance with both sessions free.\<close>

definition idle_world :: ref_world where
  "idle_world = (sample_world 0 0)\<lparr>inst := sample_mcon\<lparr>sessions := [session_init, session_init],
     session_free_stack := (2, [0, 1])\<rparr>\<rparr>"

lemma idle_world_inv: "mcon_inv ref_views (inst idle_world)"
proof -
  have "pending ref_views (inst idle_world) = {#}"
    using pending_sample by (simp add: idle_world_def)
  then show ?thesis
    unfolding mcon_inv_def proto_inv_def
    by (auto simp: idle_world_def sample_mcon_def sample_config_def sample_state_def session_init_def
        mcon_config_validate_def session_ok_def unat_less_2 unat_less_2 [unfolded numeral_2_eq_2])
qed

lemma idle_world_count: "mcon_active_session_count ref_libs (inst idle_world) = 0"
  by (simp add: mcon_active_session_count_def idle_world_def sample_mcon_def sample_config_def
      ref_stack_ops_def)

text \<open>A shutdown of an instance without active sessions sets the flag and leaves the descriptors in
  place.\<close>

lemma mcon_shutdown_runs:
  assumes "\<not> is_shutting_down (m_state (inst w))" "server_socket_fd (inst w) \<noteq> -1"
    and "rv (answer (os w) (Epoll_ctl (epoll_fd (inst w)) EPOLL_CTL_DEL
          (server_socket_fd (inst w)) None)) = 0"
  obtains w' where "mcon_shutdown w = (0, w')"
    "inst w' = (inst w)\<lparr>m_state := (m_state (inst w))\<lparr>is_shutting_down := True\<rparr>\<rparr>"
    "evbuf w' = evbuf w" "answers (os w') = answers (os w)"
  using assms by (simp add: mcon_shutdown_def Let_def rt_simps)

text \<open>The number of events a call reports.\<close>

lemma process_event_bound:
  assumes "libs_ok L V" "mcon_inv V (inst w)"
    and "unat cap \<le> length (evbuf w)" "unat cap < 2 ^ 31"
    and "\<And>fd. rv (answer (os w) (Getsockopt fd SO_ERROR)) \<le> 0"
    and run: "mcon_process_event L w ev cap = Some (rc, w')"
  shows "rc \<le> int (unat cap)"
proof -
  have "rc \<le> int (unat cap)" if "mcon_process_io_uring_event L w cap = Some (rc, w')"
  proof -
    obtain ec v where ran: "mcon_process_io_uring_event L w cap = Some (sint ec, v)"
        "loop_result V cap 0 w ec v"
      using io_uring_event_runs [OF assms(1-3)] by blast
    then have "rc = sint ec" "loop_result V cap 0 w ec w'"
      using that by simp_all
    then show ?thesis
      using sint_nonneg [of ec] assms(4) by (simp add: loop_result_def del: of_nat_unat)
  qed
  moreover have "rc \<le> int (unat cap)"
    if "mcon_process_session_event w (ep_events ev) (mcon_decode_epoll_entry (ep_data ev)) cap =
      Some (rc, w')"
    using session_event_bound [OF assms(2,3) that assms(5)] .
  moreover have "rc \<le> int (unat cap)"
    if "mcon_process_server_socket_event w (ep_events ev) = (rc, w')"
    using that by (auto simp: mcon_process_server_socket_event_def)
  ultimately show ?thesis
    using run by (auto simp: mcon_process_event_def Let_def simp del: of_nat_unat
        split: if_splits mcon_epoll_source.splits intro: order.trans [of _ 0])
qed

text \<open>C7. Every epoll event is handled to the end on an instance that satisfies the invariant, whatever
  its flags and its 64-bit datum: no access leaves an array, no loop runs forever, the invariant is
  kept, the number of events reported fits the caller's array, which keeps its length.\<close>

theorem process_event_total:
  assumes "libs_ok L V" "mcon_inv V (inst w)"
    and "unat cap \<le> length (evbuf w)" "unat cap < 2 ^ 31"
    and "\<And>fd. rv (answer (os w) (Getsockopt fd SO_ERROR)) \<le> 0"
  shows "\<exists>rc w'. mcon_process_event L w ev cap = Some (rc, w') \<and> mcon_inv V (inst w') \<and>
    rc \<le> int (unat cap) \<and> length (evbuf w') = length (evbuf w)"
  using process_event_keeps_inv [OF assms(1-3), of ev] process_event_bound [OF assms, of ev]
  by fastforce

theorem process_event_total_witness:
  "\<exists>rc w'. mcon_process_event ref_libs (sample_world 0 0)
      \<lparr>ep_events = EPOLLIN, ep_data = mcon_encode_epoll_entry sample_session_entry\<rparr> 4 =
      Some (rc, w') \<and> mcon_inv ref_views (inst w') \<and> rc \<le> 4"
proof -
  have inv: "mcon_inv ref_views (inst (sample_world 0 0))"
    by (simp add: sample_inv)
  have "rv (answer (os (sample_world 0 0)) (Getsockopt fd SO_ERROR)) \<le> 0" for fd
    by (simp add: answer_def sample_kernel_def)
  from process_event_total [OF ref_libs_ok inv sample_evbuf_length _ this] show ?thesis
    by fastforce
qed

text \<open>C27. The data the library registers with epoll lead back to the right handler: the datum of the
  listening socket to the handler of the server socket, that of the eventfd to the completion loop, and
  that of a client socket, registered when its session had generation \<open>g\<close>, to the handler of that
  session with \<open>g\<close> to compare; on an instance with another id all of them are refused.\<close>

theorem registered_events_routed:
  assumes "mcon_config_validate (configuration m)" "i < cfg_session_count (configuration m)"
  shows "mcon_process_event L w \<lparr>ep_events = e,
      ep_data = mcon_encode_epoll_entry (server_entry m MCON_EPOLL_SOURCE_SERVER_SOCKET)\<rparr> cap =
    (if instance_id (inst w) = instance_id m
     then Some (mcon_process_server_socket_event w e)
     else Some (-1, w\<lparr>os := set_errno EINVAL (os w)\<rparr>)) \<and>
    mcon_process_event L w \<lparr>ep_events = e,
      ep_data = mcon_encode_epoll_entry (server_entry m MCON_EPOLL_SOURCE_IO_URING)\<rparr> cap =
    (if instance_id (inst w) = instance_id m then mcon_process_io_uring_event L w cap
     else Some (-1, w\<lparr>os := set_errno EINVAL (os w)\<rparr>)) \<and>
    mcon_process_event L w \<lparr>ep_events = e, ep_data = mcon_encode_epoll_entry
      \<lparr>ee_instance_id = instance_id m, ee_generation = g, ee_source = MCON_EPOLL_SOURCE_SESSION,
       ee_session = i, ee_reserved = 0\<rparr>\<rparr> cap =
    (if instance_id (inst w) = instance_id m
     then mcon_process_session_event w e \<lparr>ee_instance_id = instance_id m, ee_generation = g,
       ee_source = MCON_EPOLL_SOURCE_SESSION, ee_session = i, ee_reserved = 0\<rparr> cap
     else Some (-1, w\<lparr>os := set_errno EINVAL (os w)\<rparr>))"
proof -
  have fits: "epoll_entry_fits (server_entry m MCON_EPOLL_SOURCE_SERVER_SOCKET)"
    "epoll_entry_fits (server_entry m MCON_EPOLL_SOURCE_IO_URING)"
    by (simp_all add: epoll_entry_fits_def server_entry_def source_of_code_def)
  have "i < 1048576"
    using session_index_fits [OF assms] by (simp add: word_less_nat_alt)
  then have "epoll_entry_fits \<lparr>ee_instance_id = instance_id m, ee_generation = g,
      ee_source = MCON_EPOLL_SOURCE_SESSION, ee_session = i, ee_reserved = 0\<rparr>"
    by (simp add: epoll_entry_fits_def source_of_code_def)
  with fits show ?thesis
    by (auto simp: mcon_process_event_def mcon_owns_event_def epoll_codec.dec_enc server_entry_def
        mcon_is_valid_source_def Let_def)
qed

theorem registered_events_routed_witness:
  "mcon_process_event ref_libs (sample_world 0 0) \<lparr>ep_events = EPOLLIN,
     ep_data = mcon_encode_epoll_entry (server_entry sample_mcon MCON_EPOLL_SOURCE_IO_URING)\<rparr> 4 =
   mcon_process_io_uring_event ref_libs (sample_world 0 0) 4"
proof -
  have "mcon_config_validate (configuration sample_mcon)"
    using mcon_inv_config(1) [OF sample_inv] .
  moreover have "0 < cfg_session_count (configuration sample_mcon)"
    by (simp add: sample_mcon_def sample_config_def)
  ultimately show ?thesis
    using registered_events_routed [of sample_mcon 0 ref_libs "sample_world 0 0" EPOLLIN 4]
    by (auto simp: sample_mcon_def)
qed

end
