(* ===== verification/Session_Spec.thy ===== *)
theory Session_Spec
  imports Lifecycle
begin

text \<open>
  What the library promises about the life of a session, as a small automaton driven by what the
  client sees, and the proof that the instance implements it: replaying accepted requests, detached
  sessions and reported events on the automaton gives the state the instance is in.
\<close>

subsection \<open>The life of one session\<close>

text \<open>
  A session is vacant, connected on a socket, or closing its socket. While it has a socket, it is known
  whether a remote hang-up has been recorded; while it is connected, whether a read (or drain) and a
  write are pending, in this order. The generation counts how often the session has been released.
\<close>

datatype phase =
    Vacant u8
  | Connected u8 int bool bool bool
  | Closing u8 int bool

fun phase_generation :: "phase \<Rightarrow> u8" where
  "phase_generation (Vacant g) = g"
| "phase_generation (Connected g fd h rd wr) = g"
| "phase_generation (Closing g fd h) = g"

fun hung_up :: "phase \<Rightarrow> bool" where
  "hung_up (Vacant g) = False"
| "hung_up (Connected g fd h rd wr) = h"
| "hung_up (Closing g fd h) = h"

fun hang_up :: "phase \<Rightarrow> phase" where
  "hang_up (Vacant g) = Vacant g"
| "hang_up (Connected g fd h rd wr) = Connected g fd True rd wr"
| "hang_up (Closing g fd h) = Closing g fd True"

text \<open>
  What a reported event, with its result, means for its session. A connection brings the socket; a
  hang-up is reported once.
\<close>

fun on_event :: "mcon_event_type \<Rightarrow> int \<Rightarrow> phase \<Rightarrow> phase option" where
  "on_event MCON_EVENT_NEW_CONNECTION res (Vacant g) =
     (if 0 \<le> res then Some (Connected g res False False False) else None)"
| "on_event MCON_EVENT_READ_COMPLETE res (Connected g fd h True wr) = Some (Connected g fd h False wr)"
| "on_event MCON_EVENT_DRAIN_COMPLETE res (Connected g fd h True wr) = Some (Connected g fd h False wr)"
| "on_event MCON_EVENT_WRITE_COMPLETE res (Connected g fd h rd True) = Some (Connected g fd h rd False)"
| "on_event MCON_EVENT_CLOSE_COMPLETE res (Closing g fd h) = Some (Vacant (g + 1))"
| "on_event MCON_EVENT_READ_RDY res p = Some p"
| "on_event MCON_EVENT_READ_SHUTDOWN res p = Some p"
| "on_event MCON_EVENT_REMOTE_HANGUP res p = (if hung_up p then None else Some (hang_up p))"
| "on_event MCON_EVENT_CLIENT_ERROR res p = Some p"
| "on_event _ _ _ = None"

fun on_request :: "request \<Rightarrow> phase \<Rightarrow> phase option" where
  "on_request (Request_read buf n) (Connected g fd h False wr) = Some (Connected g fd h True wr)"
| "on_request (Request_drain n) (Connected g fd h False wr) = Some (Connected g fd h True wr)"
| "on_request (Request_write buf n) (Connected g fd h rd False) = Some (Connected g fd h rd True)"
| "on_request Request_close (Connected g fd h False False) = Some (Closing g fd h)"
| "on_request _ _ = None"

fun on_detach :: "phase \<Rightarrow> phase option" where
  "on_detach (Connected g fd h False False) = Some (Vacant (g + 1))"
| "on_detach _ = None"

subsection \<open>The life of all sessions\<close>

text \<open>
  What the client sees: its accepted requests, its detached sessions, the events reported to it, an
  event of the instance for which the call failed (with the capacity it passed), and a detach that
  failed with \<open>ENOENT\<close>, because the socket was not in the interest list.
\<close>

datatype action =
    Requested mcon_session_idx request
  | Detached mcon_session_idx
  | Reported mcon_event
  | Failed epoll_event u32
  | is_unregistered: Unregistered mcon_session_idx

definition advance ::
  "mcon_session_idx \<Rightarrow> (phase \<Rightarrow> phase option) \<Rightarrow> phase list \<Rightarrow> phase list option" where
  "advance i f T = (if unat i < length T then map_option (\<lambda>p. T[unat i := p]) (f (T ! unat i)) else None)"

text \<open>
  A failed call is silent about a hang-up it has recorded all the same: that of a valid event of the
  current generation that fits the array, which can only have failed in \<open>getsockopt\<close>.
\<close>

definition silent_hangup :: "epoll_event \<Rightarrow> u32 \<Rightarrow> phase list \<Rightarrow> bool" where
  "silent_hangup ev cap T \<longleftrightarrow>
     (let d = mcon_decode_epoll_entry (ep_data ev); e = ep_events ev
      in ee_source d = MCON_EPOLL_SOURCE_SESSION \<and> unat (ee_session d) < length T \<and>
         ee_generation d = phase_generation (T ! unat (ee_session d)) \<and>
         e AND NOT MCON_CLIENT_SOCKET_SUBSCRIBED_EVENTS = 0 \<and> stdc_count_ones e \<le> cap \<and> bit e 13)"

text \<open>
  A failed accept is reported for no session and changes nothing. After a detach that failed with
  \<open>ENOENT\<close> the automaton gives no account.
\<close>

fun act :: "action \<Rightarrow> phase list \<Rightarrow> phase list option" where
  "act (Requested i c) T = advance i (on_request c) T"
| "act (Detached i) T = advance i on_detach T"
| "act (Reported e) T =
    (if ev_session e = MCON_NO_SESSION
     then (if ev_type e = MCON_EVENT_NEW_CONNECTION \<and> ev_result e < 0 then Some T else None)
     else advance (ev_session e) (on_event (ev_type e) (ev_result e)) T)"
| "act (Failed ev cap) T =
    Some (if silent_hangup ev cap T
          then (let i = unat (ee_session (mcon_decode_epoll_entry (ep_data ev)))
                in T[i := hang_up (T ! i)])
          else T)"
| "act (Unregistered i) T = None"

fun replay :: "action list \<Rightarrow> phase list \<Rightarrow> phase list option" where
  "replay [] T = Some T"
| "replay (a # as) T = Option.bind (act a T) (replay as)"

lemma replay_append: "replay (xs @ ys) T = Option.bind (replay xs T) (replay ys)"
  by (induction xs arbitrary: T) (simp_all split: Option.bind_split)

text \<open>The phases of the sessions of an instance.\<close>

definition phase_of :: "mcon_session \<Rightarrow> phase" where
  "phase_of s =
     (if socket_fd s = -1 then Vacant (generation s)
      else if bit (sess_state s) 3 then Closing (generation s) (socket_fd s) (bit (sess_state s) 2)
      else Connected (generation s) (socket_fd s) (bit (sess_state s) 2)
        (bit (sess_state s) 0) (bit (sess_state s) 1))"

definition phases :: "('s, 'q, 'r) mcon \<Rightarrow> phase list" where
  "phases m = map phase_of (sessions m)"

lemma phase_generation_of [simp]: "phase_generation (phase_of s) = generation s"
  by (simp add: phase_of_def)

lemma hung_up_of: "hung_up (phase_of s) \<longleftrightarrow> socket_fd s \<noteq> -1 \<and> bit (sess_state s) 2"
  by (simp add: phase_of_def)

lemma hang_up_of: "hang_up (phase_of s) = phase_of (s\<lparr>sess_state := sess_state s OR 4\<rparr>)"
  by (auto simp: phase_of_def bit_facts)

lemma hang_up_idle: "hung_up p \<Longrightarrow> hang_up p = p"
  by (cases p) auto

lemma phases_eq: "sessions m' = sessions m \<Longrightarrow> phases m' = phases m"
  by (simp add: phases_def)

lemma length_phases [simp]: "length (phases m) = length (sessions m)"
  by (simp add: phases_def)

lemma phases_nth: "i < length (sessions m) \<Longrightarrow> phases m ! i = phase_of (sessions m ! i)"
  by (simp add: phases_def)

lemma phases_update:
  "sessions m' = (sessions m)[unat i := s'] \<Longrightarrow> unat i < length (sessions m) \<Longrightarrow>
   phases m' = (phases m)[unat i := phase_of s']"
  by (simp add: phases_def map_update)

lemma phases_advance:
  assumes "sessions m' = (sessions m)[unat i := s']" "unat i < length (sessions m)"
    and "f (phase_of (sessions m ! unat i)) = Some (phase_of s')"
  shows "advance i f (phases m) = Some (phases m')"
  using assms by (simp add: advance_def phases_update) (simp add: phases_def)

text \<open>No session has the index that stands for none.\<close>

lemma real_session:
  assumes "mcon_inv V m" "unat i < length (sessions m)"
  shows "i \<noteq> MCON_NO_SESSION"
  using session_index_fits [OF mcon_inv_config(1) [OF assms(1)], of i] assms(2)
    mcon_inv_index [OF assms(1), of i]
  by auto

subsection \<open>Completions\<close>

text \<open>
  What one completion does to the sessions: the event it reports, if any, advances its session, and
  without an event nothing changes.
\<close>

definition reported_step ::
  "nat \<Rightarrow> ('s, 'q, 'r) world \<Rightarrow> int \<Rightarrow> ('s, 'q, 'r) world \<Rightarrow> bool" where
  "reported_step base w err w' \<longleftrightarrow>
     (if err = 1 then act (Reported (evbuf w' ! base)) (phases (inst w)) = Some (phases (inst w'))
      else phases (inst w') = phases (inst w))"

locale completion_phase = completion_handler +
  assumes advances: "socket_fd s \<noteq> -1 \<Longrightarrow> \<not> bit (sess_state s) 3 \<Longrightarrow>
    bit (sess_state s) (request_bit oper) \<Longrightarrow>
    on_event reported_as res (phase_of s) = Some (phase_of (s\<lparr>sess_state := sess_state s AND NOT flag\<rparr>))"
begin

lemma reports:
  assumes laws: "libs_ok L V" and inv: "mcon_inv V (inst w)"
    and e: "peeked L p w (io_entry oper i)"
    and room: "\<not> mx < 1" "base < length (evbuf w)"
    and run: "handle L w p (io_entry oper i) base mx = Some (err, w')"
  shows "reported_step base w err w'"
proof -
  have "oper \<noteq> MCON_IO_SESSION_ACCEPT"
    using oper_kind by auto
  note s = completed_session [OF laws e inv this]
  have "\<not> bit (sess_state (sessions (inst w) ! unat i)) 3"
    using mcon_inv_session [OF inv s(1)] s(2) oper_kind
    by (auto simp: session_ok_def request_bit_def)
  from advances [OF s(3) this s(2)]
  show ?thesis
    using completes [OF room, of "io_entry oper i" L p] run s(1) room(2)
      real_session [OF inv s(1)]
    by (auto simp: reported_step_def intro!: phases_advance)
qed

end

interpretation rdp: completion_phase process_read MCON_IO_SESSION_READ 1 MCON_EVENT_READ_COMPLETE
  by unfold_locales (auto simp: phase_of_def request_bit_def bit_facts)

interpretation wrp: completion_phase process_write MCON_IO_SESSION_WRITE 2 MCON_EVENT_WRITE_COMPLETE
  by unfold_locales (auto simp: phase_of_def request_bit_def bit_facts)

interpretation drp: completion_phase process_drain MCON_IO_SESSION_DRAIN 1 MCON_EVENT_DRAIN_COMPLETE
  by unfold_locales (auto simp: phase_of_def request_bit_def bit_facts)

lemma accept_reports:
  assumes "libs_ok L V" and inv: "mcon_inv V (inst w)" and "peeked L p w accept_entry"
    and "\<not> mx < 1" "base < length (evbuf w)"
    and run: "process_accept L w p base mx = Some (err, w')"
  shows "reported_step base w err w'"
proof (rule process_accept_cases [OF assms(1-5)], goal_cases)
  case (4 i free fs v)
  then have i: "unat i < length (sessions (inst w))" "i \<in> set (vw_items V (session_free_stack (inst w)))"
    using inv by (auto simp: mcon_inv_def proto_inv_def)
  then show ?case
    using 4 run assms(5) mcon_inv_free_iff [OF inv i(1)] real_session [OF inv i(1)]
    by (auto simp: reported_step_def phase_of_def intro!: phases_advance)
qed (use run assms(5) in \<open>auto simp: reported_step_def intro!: phases_eq phases_eq [symmetric]\<close>)

lemma close_reports:
  assumes "libs_ok L V" and inv: "mcon_inv V (inst w)"
    and e: "peeked L p w (io_entry MCON_IO_SESSION_CLOSE i)"
    and "\<not> mx < 1" "base < length (evbuf w)"
    and run: "process_close L w p (io_entry MCON_IO_SESSION_CLOSE i) base mx = Some (err, w')"
  shows "reported_step base w err w'"
proof (rule process_close_runs [OF assms(1-5)], goal_cases)
  case (1 fs m v)
  note s = completed_session [OF assms(1) e inv, simplified]
  have "sessions (inst v) = sessions m"
    using 1(4) by simp
  then show ?case
    using 1(1,3,6) run s assms(5) real_session [OF inv s(1)]
    by (auto simp: reported_step_def phase_of_def request_bit_def intro!: phases_advance)
qed

lemma cqe_reports:
  assumes laws: "libs_ok L V" and inv: "mcon_inv V (inst w)"
    and peek: "ur_peek_cqe (urg L) r0 = (0, p, ring (inst w))"
    and room: "ec < mx" "unat mx \<le> length (evbuf w)"
    and run: "process_cqe L w p ec mx = Some (err, w')"
  shows "reported_step (unat ec) w err w'"
proof (rule peeked_completion [OF laws inv peek room], goal_cases)
  case 1
  then show ?case
    using accept_reports [OF laws inv 1(1-3)] run by simp
next
  case (2 oper i)
  then show ?case
    using rdp.reports [OF laws inv _ 2(2,3), of p i] wrp.reports [OF laws inv _ 2(2,3), of p i]
      drp.reports [OF laws inv _ 2(2,3), of p i] close_reports [OF laws inv _ 2(2,3), of p i] run
    by auto
qed

text \<open>
  A rule for the loop: a property of the events reported so far and of the sessions that every
  completion keeps holds of all the events it reports.
\<close>

lemma ring_loop_rule:
  fixes P :: "mcon_event list \<Rightarrow> mcon_session list \<Rightarrow> bool"
  assumes laws: "libs_ok L V" and "mcon_inv V (inst w)"
    and "unat ec \<le> unat mx" "unat mx \<le> length (evbuf w)"
    and "ring_loop L mx ec ic w = Some (ec', ic', w')" "P es (sessions (inst w))"
    and step: "\<And>es v r0 p ec err v'. P es (sessions (inst v)) \<Longrightarrow> mcon_inv V (inst v) \<Longrightarrow>
      ur_peek_cqe (urg L) r0 = (0, p, ring (inst v)) \<Longrightarrow> ec < mx \<Longrightarrow> unat mx \<le> length (evbuf v) \<Longrightarrow>
      process_cqe L v p ec mx = Some (err, v') \<Longrightarrow>
      P (if err = 1 then es @ [evbuf v' ! unat ec] else es) (sessions (inst v'))"
  shows "P (es @ drop (unat ec) (take (unat ec') (evbuf w'))) (sessions (inst w'))"
  using assms(2-6)
proof (induction "size (vw_live V (ring (inst w)))" arbitrary: w ec ic es rule: less_induct)
  case less
  obtain rc p w1 where pk: "peek_cqe L w = (rc, p, w1)"
    by (cases "peek_cqe L w") auto
  note same = peek_cqe_frame [OF laws pk]
  show ?case
  proof (cases "ec < mx \<and> rc = 0")
    case False
    with less.prems(4) pk have "ec' = ec" "w' = w1"
      by (subst (asm) ring_loop.simps, auto)+
    then show ?thesis
      using less.prems(5) by (simp add: same)
  next
    case True
    then obtain r0 where peek: "ur_peek_cqe (urg L) r0 = (0, p, ring (inst w1))"
      using same(9) by blast
    from True obtain err w2 where run: "process_cqe L w1 p ec mx = Some (err, w2)"
      and h: "handled L p (unat ec) w1 err w2" and inv2: "mcon_inv V (inst w2)"
      using process_cqe_keeps_inv [OF laws _ peek] less.prems same by fastforce
    have P2: "P (if err = 1 then es @ [evbuf w2 ! unat ec] else es) (sessions (inst w2))"
      using step [OF _ _ peek _ _ run] True less.prems same by auto
    note live = handled_live [OF laws peek h]
    note round = ring_loop_step [OF pk [unfolded conjunct2 [OF True]] conjunct1 [OF True] run, of ic]
    show ?thesis
    proof (cases "err < 0")
      case err: True
      with less.prems(4) round have "ec' = ec" "w' = w2"
        by auto
      with P2 err show ?thesis by simp
    next
      case err: False
      let ?w3 = "count_consumed L p w2" and ?ec = "ec + word_of_int err"
      have "ring (inst w2) = ur_cqe_seen (urg L) (ring (inst w1)) p"
        using h by (simp add: handled_def)
      note cnt = count_consumed_seen [OF laws peek this]
      have ec: "unat ?ec = unat ec + nat err" "err = 0 \<or> err = 1" "unat ?ec \<le> unat mx"
        using True err h unat_plus_one [of ec mx]
        by (auto simp: handled_def word_less_nat_alt)
      have rec: "ring_loop L mx ?ec (ic + 1) ?w3 = Some (ec', ic', w')"
        using less.prems(4) round err by simp
      have room: "unat mx \<le> length (evbuf ?w3)"
        using less.prems h same cnt by (auto simp: handled_def)
      have inv3: "mcon_inv V (inst ?w3)"
        using inv2 cnt by simp
      have IH: "P ((if err = 1 then es @ [evbuf w2 ! unat ec] else es) @
          drop (unat ?ec) (take (unat ec') (evbuf w'))) (sessions (inst w'))"
        by (rule less.hyps [OF _ inv3 ec(3) room rec]) (use live same cnt P2 in simp_all)
      have res: "loop_result V mx ?ec ?w3 ec' w'"
        using ring_loop_runs [OF laws inv3 ec(3) room, of "ic + 1"] rec by auto
      show ?thesis
      proof (cases "err = 1")
        case False
        with ec(2) IH show ?thesis by simp
      next
        case True
        then have ec1: "unat ?ec = Suc (unat ec)"
          using ec(1) by simp
        have len: "unat ec < unat ec'" "unat ec' \<le> length (evbuf w')"
          using res ec1 room by (auto simp: loop_result_def)
        have "take (Suc (unat ec)) (evbuf w') = take (Suc (unat ec)) (evbuf w2)"
          using res ec1 cnt by (simp add: loop_result_def)
        then have "evbuf w' ! unat ec = evbuf w2 ! unat ec"
          by (metis lessI nth_take)
        then have "drop (unat ec) (take (unat ec') (evbuf w')) =
            (evbuf w2 ! unat ec) # drop (unat ?ec) (take (unat ec') (evbuf w'))"
          using len ec1 by (simp add: Cons_nth_drop_Suc [symmetric])
        with True IH show ?thesis by simp
      qed
    qed
  qed
qed

text \<open>The loop reports what it did, in order.\<close>

lemma loop_reports:
  assumes laws: "libs_ok L V" and "mcon_inv V (inst w)"
    and "unat ec \<le> unat mx" "unat mx \<le> length (evbuf w)"
    and "ring_loop L mx ec ic w = Some (ec', ic', w')"
  shows "replay (map Reported (drop (unat ec) (take (unat ec') (evbuf w')))) (phases (inst w)) =
    Some (phases (inst w'))"
proof -
  let ?P = "\<lambda>es ss. replay (map Reported es) (phases (inst w)) = Some (map phase_of ss)"
  have "?P ([] @ drop (unat ec) (take (unat ec') (evbuf w'))) (sessions (inst w'))"
  proof (rule ring_loop_rule [OF assms, where P = ?P])
    fix es p ec err and v v' :: "('a, 'b, 'c) world" and r0
    assume P: "?P es (sessions (inst v))"
      and "mcon_inv V (inst v)" "ur_peek_cqe (urg L) r0 = (0, p, ring (inst v))" "ec < mx"
        "unat mx \<le> length (evbuf v)" "process_cqe L v p ec mx = Some (err, v')"
    from cqe_reports [OF laws this(2-)] have "reported_step (unat ec) v err v'" .
    with P show "?P (if err = 1 then es @ [evbuf v' ! unat ec] else es) (sessions (inst v'))"
      by (auto simp: reported_step_def phases_def replay_append split: if_splits)
  qed (simp add: phases_def)
  then show ?thesis by (simp add: phases_def)
qed

subsection \<open>Events of sockets\<close>

text \<open>What the client sees of a call with an epoll event.\<close>

definition event_log :: "epoll_event \<Rightarrow> u32 \<Rightarrow> int \<Rightarrow> ('s, 'q, 'r) world \<Rightarrow> action list" where
  "event_log ev cap rc w =
     (if 0 \<le> rc then map Reported (take (nat rc) (evbuf w))
      else if mcon_owns_event (inst w) ev then [Failed ev cap] else [])"

lemma replay_flag:
  assumes "unat i < length T" "i \<noteq> MCON_NO_SESSION"
    and "bit e b \<Longrightarrow> on_event t res (T ! unat i) = Some p" "\<not> bit e b \<Longrightarrow> p = T ! unat i"
  shows "replay (map Reported (flag_event e b res i t) @ as) T = replay as (T[unat i := p])"
  using assms by (auto simp: flag_event_def advance_def)

text \<open>The events of a set of flags advance the session like the flags do.\<close>

lemma replay_session_events:
  fixes i :: mcon_session_idx
  assumes "unat i < length T" "i \<noteq> MCON_NO_SESSION" "T ! unat i = phase_of s"
  shows "replay (map Reported (session_events e (sess_state s) i err)) T =
    Some (T[unat i := phase_of (s\<lparr>sess_state := (if bit e 13 then sess_state s OR 4 else sess_state s)\<rparr>)])"
proof -
  let ?p = "phase_of (s\<lparr>sess_state := (if bit e 13 then sess_state s OR 4 else sess_state s)\<rparr>)"
  have same: "phase_of (s\<lparr>sess_state := sess_state s OR 4\<rparr>) = phase_of s" if "bit (sess_state s) 2"
    using that by (auto simp: phase_of_def bit_facts)
  have third: "replay (map Reported (if bit (sess_state s) 2 then []
      else flag_event e 13 0 i MCON_EVENT_REMOTE_HANGUP) @ as) T = replay as (T[unat i := ?p])" for as
  proof (cases "bit (sess_state s) 2")
    case True
    then have "?p = T ! unat i"
      using same assms(3) by simp
    with True show ?thesis by simp
  next
    case False
    then show ?thesis
      by (subst if_not_P [OF False], intro replay_flag)
        (use assms False in \<open>simp_all add: hung_up_of hang_up_of\<close>)
  qed
  have "replay (map Reported (session_events e (sess_state s) i err)) T =
      replay (map Reported (if bit (sess_state s) 2 then []
        else flag_event e 13 0 i MCON_EVENT_REMOTE_HANGUP) @
        map Reported (flag_event e 3 err i MCON_EVENT_CLIENT_ERROR) @ []) T"
  proof -
    have idle: "replay (map Reported (flag_event e b res i t) @ as) T = replay as T"
      if "on_event t res (T ! unat i) = Some (T ! unat i)" for b res t as
      using replay_flag [of i T e b t res "T ! unat i" as] assms(1,2) that by simp
    have "replay (map Reported (flag_event e 0 0 i MCON_EVENT_READ_RDY) @ as) T = replay as T"
      "replay (map Reported (flag_event e 4 0 i MCON_EVENT_READ_SHUTDOWN) @ as) T = replay as T" for as
      by (rule idle; simp)+
    then show ?thesis
      by (simp add: session_events_def)
  qed
  also have "\<dots> = Some (T[unat i := ?p])"
    unfolding third by (subst replay_flag [where p = "?p"]) (use assms in simp_all)
  finally show ?thesis .
qed

lemma session_event_reports:
  assumes inv: "mcon_inv V (inst w)" and room: "unat mx \<le> length (evbuf w)"
    and run: "mcon_process_session_event w (ep_events ev) (mcon_decode_epoll_entry (ep_data ev)) mx =
      Some (rc, w')"
    and fails: "\<And>fd. rv (answer (os w) (Getsockopt fd SO_ERROR)) \<le> 0"
    and source: "ee_source (mcon_decode_epoll_entry (ep_data ev)) = MCON_EPOLL_SOURCE_SESSION"
    and owned: "mcon_owns_event (inst w) ev"
  shows "replay (event_log ev mx rc w') (phases (inst w)) = Some (phases (inst w'))"
proof -
  define d where "d = mcon_decode_epoll_entry (ep_data ev)"
  define e where "e = ep_events ev"
  define s where "s = sessions (inst w) ! unat (ee_session d)"
  define r where "r = answer (os w) (Getsockopt (socket_fd s) SO_ERROR)"
  define evs where "evs = session_events e (sess_state s) (ee_session d) (rout r)"
  note core = session_event_core [OF inv room, of e d, unfolded run [folded d_def e_def],
      folded s_def, folded r_def, folded evs_def, simplified]
  have range: "cfg_session_count (configuration (inst w)) \<le> ee_session d \<longleftrightarrow>
      \<not> unat (ee_session d) < length (sessions (inst w))"
    using mcon_inv_index [OF inv, of "ee_session d"] by (simp add: not_le [symmetric])
  show ?thesis
  proof (cases "unat (ee_session d) < length (sessions (inst w)) \<and> ee_generation d = generation s \<and>
      e AND NOT MCON_CLIENT_SOCKET_SUBSCRIBED_EVENTS = 0 \<and> stdc_count_ones e \<le> mx")
    case False
    then have "inst w' = inst w" "rc = 0 \<or> rc = -1"
      and loud: "\<not> silent_hangup ev mx (phases (inst w))"
      using core range by (auto simp: silent_hangup_def Let_def d_def e_def s_def phases_nth split: if_splits)
    then show ?thesis
      by (auto simp: event_log_def)
  next
    case True
    then have idx: "unat (ee_session d) < length (sessions (inst w))" by simp
    let ?s' = "s\<lparr>sess_state := (if bit e 13 then sess_state s OR 4 else sess_state s)\<rparr>"
    have out: "rc = (if bit e 3 \<and> rv r \<noteq> 0 then rv r else int (length evs))"
        "evbuf w' = evs @ drop (length evs) (evbuf w)"
        "inst w' = (inst w)\<lparr>sessions := (sessions (inst w))[unat (ee_session d) := ?s']\<rparr>"
      using core True range by (auto simp: not_less [symmetric])
    have phases': "phases (inst w') = (phases (inst w))[unat (ee_session d) := phase_of ?s']"
      using phases_update [of "inst w'" "inst w", OF _ idx] out(3) by simp
    show ?thesis
    proof (cases "bit e 3 \<and> rv r \<noteq> 0")
      case True
      then have "rc < 0"
        using out(1) fails [of "socket_fd s"] by (simp add: r_def)
      moreover have "mcon_owns_event (inst w') ev"
        using owned out(3) by (simp add: mcon_owns_event_def)
      moreover have "silent_hangup ev mx (phases (inst w)) \<longleftrightarrow> bit e 13"
        using \<open>unat (ee_session d) < _ \<and> _\<close> source
        by (simp add: silent_hangup_def Let_def d_def [symmetric] e_def [symmetric] s_def phases_nth)
      moreover have "phases (inst w') = phases (inst w)" if "\<not> bit e 13"
      proof -
        have "phases (inst w) ! unat (ee_session d) = phase_of ?s'"
          using that idx by (simp add: phases_nth s_def)
        then show ?thesis
          unfolding phases' by (metis list_update_id)
      qed
      moreover have "phases (inst w') = (phases (inst w))[unat (ee_session d) :=
          hang_up (phases (inst w) ! unat (ee_session d))]" if "bit e 13"
        using that idx unfolding phases' by (simp add: phases_nth s_def hang_up_of)
      ultimately show ?thesis
        by (simp add: event_log_def d_def [symmetric] Let_def)
    next
      case False
      then have "rc = int (length evs)"
        using out(1) by presburger
      then have "event_log ev mx rc w' = map Reported evs"
        using out(2) by (simp add: event_log_def)
      then show ?thesis
        using replay_session_events [of "ee_session d" "phases (inst w)" s e "rout r"] idx
          real_session [OF inv idx] phases' by (simp add: evs_def s_def phases_nth)
    qed
  qed
qed

lemma io_uring_event_reports:
  assumes laws: "libs_ok L V" and inv: "mcon_inv V (inst w)"
    and room: "unat mx \<le> length (evbuf w)" "unat mx < 2 ^ 31"
    and run: "mcon_process_io_uring_event L w mx = Some (rc, w')"
  shows "replay (event_log ev mx rc w') (phases (inst w)) = Some (phases (inst w'))"
proof -
  obtain ec ic v where loop: "ring_loop L mx 0 0 w = Some (ec, ic, v)" "loop_result V mx 0 w ec v"
    using ring_loop_runs [OF laws inv, of 0 mx 0] room by auto
  have "sint ec = int (unat ec)"
    using loop(2) room(2) by (intro sint_nonneg) (simp add: loop_result_def)
  then have "nat (sint ec) = unat ec" "0 \<le> sint ec"
    by (simp_all only: nat_int of_nat_0_le_iff)
  with run loop(1) have "nat rc = unat ec" "0 \<le> rc" "evbuf w' = evbuf v" "inst w' = inst v"
    by (auto simp: mcon_process_io_uring_event_def)
  with loop_reports [OF laws inv _ room(1) loop(1)] show ?thesis
    by (simp add: event_log_def)
qed

subsection \<open>Requests and detached sessions\<close>

lemma on_request_accepts:
  "on_request c (phase_of s) \<noteq> None \<longleftrightarrow>
   socket_fd s \<noteq> -1 \<and> sess_state s AND (case c of Request_read _ _ \<Rightarrow> 9 | Request_write _ _ \<Rightarrow> 10
     | Request_drain _ \<Rightarrow> 9 | Request_close \<Rightarrow> 11) = 0"
  by (cases c; cases "bit (sess_state s) 0"; cases "bit (sess_state s) 1")
    (auto simp: phase_of_def bit_facts)

lemma on_request_result:
  assumes "on_request c (phase_of s) \<noteq> None"
  shows "on_request c (phase_of s) =
    Some (phase_of (s\<lparr>sess_state := sess_state s OR request_flag c\<rparr>))"
  using assms
  by (cases c; cases "bit (sess_state s) 0"; cases "bit (sess_state s) 1")
    (auto simp: phase_of_def bit_facts split: if_splits)


text \<open>The four calls through their contract.\<close>

definition request_mask :: "request \<Rightarrow> u8" where
  "request_mask c = (case c of Request_read _ _ \<Rightarrow> 9 | Request_write _ _ \<Rightarrow> 10
     | Request_drain _ \<Rightarrow> 9 | Request_close \<Rightarrow> 11)"

lemma run_request_rejected:
  assumes "mcon_inv V (inst w)" "unat s < length (sessions (inst w))"
    and "on_request c (phase_of (sessions (inst w) ! unat s)) = None"
  shows "run_request L w s c = Some (-1, w\<lparr>os := set_errno EBUSY (os w)\<rparr>)"
proof -
  have s: "\<not> cfg_session_count (configuration (inst w)) \<le> s"
    using mcon_inv_index [OF assms(1)] assms(2) by (simp add: not_le)
  have "socket_fd (sessions (inst w) ! unat s) = -1 \<or>
      sess_state (sessions (inst w) ! unat s) AND request_mask c \<noteq> 0"
    using assms(3) on_request_accepts [of c "sessions (inst w) ! unat s"]
    by (auto simp: request_mask_def)
  then show ?thesis
    using s rd.rejected [OF assms(1), of s L] wr.rejected [OF assms(1), of s L]
      dr.rejected [OF assms(1), of s L] cl.rejected [OF assms(1), of s L]
    by (cases c) (auto simp: request_mask_def)
qed

context session_request
begin

lemma call_outcome:
  assumes "libs_ok L V" and inv: "mcon_inv V (inst w)" and run: "call L w s = Some (rc, w')"
  shows "(rc = 0 \<or> rc = -1) \<and> (if rc = 0
    then unat s < length (sessions (inst w)) \<and> socket_fd (sessions (inst w) ! unat s) \<noteq> -1 \<and>
      sess_state (sessions (inst w) ! unat s) AND refused = 0 \<and>
      sessions (inst w') = (sessions (inst w))[unat s := (sessions (inst w) ! unat s)\<lparr>sess_state :=
        sess_state (sessions (inst w) ! unat s) OR flag\<rparr>]
    else sessions (inst w') = sessions (inst w))"
proof (cases "cfg_session_count (configuration (inst w)) \<le> s \<or>
      socket_fd (sessions (inst w) ! unat s) = -1 \<or>
      sess_state (sessions (inst w) ! unat s) AND refused \<noteq> 0")
  case True
  from rejected [OF inv this] run show ?thesis by auto
next
  case False
  then have ok: "s < cfg_session_count (configuration (inst w))"
    "socket_fd (sessions (inst w) ! unat s) \<noteq> -1"
    "sess_state (sessions (inst w) ! unat s) AND refused = 0"
    by (auto simp flip: not_le)
  show ?thesis
    by (rule accepted [OF assms(1) inv ok]) (use run ok mcon_inv_index [OF inv] in auto)
qed

end

lemma request_phases:
  assumes laws: "libs_ok L V" and inv: "mcon_inv V (inst w)"
    and run: "run_request L w s c = Some (rc, w')"
  shows "if rc = 0 then act (Requested s c) (phases (inst w)) = Some (phases (inst w'))
    else phases (inst w') = phases (inst w)"
proof -
  let ?s = "sessions (inst w) ! unat s"
  have out: "if rc = 0
    then unat s < length (sessions (inst w)) \<and> socket_fd ?s \<noteq> -1 \<and>
      sess_state ?s AND request_mask c = 0 \<and>
      sessions (inst w') = (sessions (inst w))[unat s := ?s\<lparr>sess_state :=
        sess_state ?s OR request_flag c\<rparr>]
    else sessions (inst w') = sessions (inst w)"
    using run rd.call_outcome [OF laws inv] wr.call_outcome [OF laws inv]
      dr.call_outcome [OF laws inv] cl.call_outcome [OF laws inv]
    by (cases c) (auto simp: request_mask_def)
  show ?thesis
  proof (cases "rc = 0")
    case True
    with out have "on_request c (phase_of ?s) =
        Some (phase_of (?s\<lparr>sess_state := sess_state ?s OR request_flag c\<rparr>))"
      by (intro on_request_result, subst on_request_accepts) (simp add: request_mask_def)
    with True out show ?thesis
      by (auto intro!: phases_advance)
  next
    case False
    with out show ?thesis
      by (auto intro!: phases_eq)
  qed
qed

lemma detach_phases:
  assumes laws: "libs_ok L V" and inv: "mcon_inv V (inst w)"
    and run: "mcon_session_detach L w s = Some (rc, w')"
  shows "if rc = 0 then act (Detached s) (phases (inst w)) = Some (phases (inst w'))
    else phases (inst w') = phases (inst w)"
proof (cases "cfg_session_count (configuration (inst w)) \<le> s \<or>
      socket_fd (sessions (inst w) ! unat s) = -1 \<or>
      sess_state (sessions (inst w) ! unat s) AND 11 \<noteq> 0")
  case True
  from detach_rejected [OF inv this, of L] run show ?thesis by auto
next
  case False
  then have ok: "s < cfg_session_count (configuration (inst w))"
    "socket_fd (sessions (inst w) ! unat s) \<noteq> -1"
    "sess_state (sessions (inst w) ! unat s) AND 11 = 0"
    by (auto simp flip: not_le)
  then have idx: "unat s < length (sessions (inst w))"
    using mcon_inv_index [OF inv] by simp
  show ?thesis
  proof (rule detach_runs [OF laws inv ok], goal_cases)
    case (1 v st)
    show ?case
    proof (cases "rc = 0")
      case True
      with 1(1,7) run have "sessions (inst w') = (sessions (inst w))[unat s :=
          (sessions (inst w) ! unat s)\<lparr>socket_fd := -1,
             generation := next_generation (generation (sessions (inst w) ! unat s))\<rparr>]"
        by (auto split: if_splits)
      with True ok idx show ?thesis
        by (auto simp: phase_of_def next_generation_plus_one bit_facts intro!: phases_advance)
    next
      case False
      with 1(1,6) run show ?thesis
        by (auto intro!: phases_eq split: if_splits)
    qed
  qed
qed


text \<open>The dispatch.\<close>

lemma event_phases:
  assumes laws: "libs_ok L V" and inv: "mcon_inv V (inst w)"
    and room: "unat cap \<le> length (evbuf w)" "unat cap < 2 ^ 31"
    and fails: "\<And>fd. rv (answer (os w) (Getsockopt fd SO_ERROR)) \<le> 0"
    and run: "mcon_process_event L w ev cap = Some (rc, w')"
  shows "replay (event_log ev cap rc w') (phases (inst w)) = Some (phases (inst w'))"
proof (cases "mcon_owns_event (inst w) ev")
  case False
  then have "rc = -1" "inst w' = inst w"
    using run by (auto simp: mcon_process_event_def)
  with False show ?thesis
    by (simp add: event_log_def)
next
  case True
  let ?d = "mcon_decode_epoll_entry (ep_data ev)"
  consider (server) "ee_source ?d = MCON_EPOLL_SOURCE_SERVER_SOCKET"
    | (ring) "ee_source ?d = MCON_EPOLL_SOURCE_IO_URING"
    | (session) "ee_source ?d = MCON_EPOLL_SOURCE_SESSION"
    | (none) "ee_source ?d \<notin> {MCON_EPOLL_SOURCE_SERVER_SOCKET, MCON_EPOLL_SOURCE_IO_URING,
        MCON_EPOLL_SOURCE_SESSION}"
    by blast
  then show ?thesis
  proof cases
    case server
    then have "rc = 0" "sessions (inst w') = sessions (inst w)"
      using run True by (auto simp: mcon_process_event_def mcon_process_server_socket_event_def Let_def)
    then show ?thesis
      using phases_eq [of "inst w'" "inst w"] by (simp add: event_log_def)
  next
    case ring
    then show ?thesis
      using run True io_uring_event_reports [OF laws inv room] by (simp add: mcon_process_event_def Let_def)
  next
    case session
    then show ?thesis
      using run True session_event_reports [OF inv room(1) _ fails session True]
      by (simp add: mcon_process_event_def Let_def)
  next
    case none
    then have "rc = -1" "w' = w"
      using run True by (auto simp: mcon_process_event_def Let_def split: mcon_epoll_source.splits)
    moreover have "\<not> silent_hangup ev cap (phases (inst w))"
      using none by (simp add: silent_hangup_def Let_def)
    ultimately show ?thesis
      using True by (simp add: event_log_def)
  qed
qed

subsection \<open>Properties\<close>

text \<open>C3. What an epoll event does to the sockets, the generations, the pending requests and the
  recorded hang-ups of the sessions is accounted for by what the client sees of the call: replaying
  the reported events, in the order of the array, on the life cycle leads from the phases of the
  sessions before the call to those after it. In particular every reported event is one the life cycle
  of its session allows at that point, a hang-up is reported once, and no phase changes without an
  event, with one exception: a call that fails although its event was valid and fitted the array has
  recorded the hang-up of the event, as \<open>silent_hangup\<close> spells out. Hypothesis: \<open>getsockopt\<close> returns
  zero or a negative value.\<close>

theorem events_drive_lifecycle:
  assumes "libs_ok L V" "mcon_inv V (inst w)"
    and "unat cap \<le> length (evbuf w)" "unat cap < 2 ^ 31"
    and "\<And>fd. rv (answer (os w) (Getsockopt fd SO_ERROR)) \<le> 0"
    and "mcon_process_event L w ev cap = Some (rc, w')"
  shows "replay (event_log ev cap rc w') (phases (inst w)) = Some (phases (inst w'))"
  by (rule event_phases [OF assms])

text \<open>The event of the ring of the sample instance.\<close>

definition ring_event :: epoll_event where
  "ring_event = \<lparr>ep_events = EPOLLIN, ep_data = mcon_encode_epoll_entry
     \<lparr>ee_instance_id = 1, ee_generation = 0, ee_source = MCON_EPOLL_SOURCE_IO_URING,
      ee_session = MCON_NO_SESSION, ee_reserved = 0\<rparr>\<rparr>"

theorem events_drive_lifecycle_witness:
  "\<exists>rc w'. mcon_process_event ref_libs
      (completed_world 0 0 (io_entry MCON_IO_SESSION_READ 1) 1 0 5) ring_event 4 = Some (rc, w') \<and>
    replay (event_log ring_event 4 rc w') [Vacant 0, Connected 0 7 False True False] =
      Some (phases (inst w'))"
proof -
  let ?w = "completed_world 0 0 (io_entry MCON_IO_SESSION_READ 1) 1 0 5"
  have inv: "mcon_inv ref_views (inst ?w)"
    by (simp add: sample_completed_inv)
  have room: "unat (4 :: u32) \<le> length (evbuf ?w)" "unat (4 :: u32) < 2 ^ 31"
    by simp_all
  have kernel: "rv (answer (os ?w) (Getsockopt fd SO_ERROR)) \<le> 0" for fd
    by (simp add: answer_def sample_kernel_def)
  have "phases (inst ?w) = [Vacant 0, Connected 0 7 False True False]"
    by (simp add: phases_def phase_of_def session_init_def bit_1_iff)
  with process_event_keeps_inv [OF ref_libs_ok inv room(1), of ring_event]
    events_drive_lifecycle [OF ref_libs_ok inv room kernel, of ring_event]
  show ?thesis by fastforce
qed

end
