(* ===== verification/Protocol.thy ===== *)
theory Protocol
  imports Session_Spec
begin

text \<open>
  The library as a whole: every sequence of calls a client can make on an instance it has created,
  interleaved with whatever the kernel and the client do in between. A step carries the actions it
  shows to the client, and a reachable state the log of all actions that led to it.
\<close>

subsection \<open>Calls\<close>

datatype api_call =
    Call_request mcon_session_idx request
  | is_detach: Call_detach mcon_session_idx
  | Call_submit
  | Call_event epoll_event u32
  | Call_start int int
  | Call_shutdown

fun api_run ::
  "('s, 'q, 'r) libs \<Rightarrow> ('s, 'q, 'r) world \<Rightarrow> api_call \<Rightarrow> (int \<times> ('s, 'q, 'r) world) option" where
  "api_run L w (Call_request s c) = run_request L w s c"
| "api_run L w (Call_detach s) = mcon_session_detach L w s"
| "api_run L w Call_submit = mcon_submit L w"
| "api_run L w (Call_event ev cap) = mcon_process_event L w ev cap"
| "api_run L w (Call_start lfd epfd) = Some (mcon_start w lfd epfd)"
| "api_run L w Call_shutdown = Some (mcon_shutdown w)"

text \<open>
  What a call that returned \<open>rc\<close> shows to the client. A detach fails with \<open>ENOENT\<close> only when the socket
  is not in the interest list the instance was started with last: the client has taken it out, or has
  started the instance on another epoll instance.
\<close>

fun api_log :: "api_call \<Rightarrow> int \<Rightarrow> ('s, 'q, 'r) world \<Rightarrow> action list" where
  "api_log (Call_request s c) rc w = (if rc = 0 then [Requested s c] else [])"
| "api_log (Call_detach s) rc w = 
    (if rc = 0 then [Detached s] else if errno (os w) = ENOENT then [Unregistered s] else [])"
| "api_log (Call_event ev cap) rc w = event_log ev cap rc w"
| "api_log _ rc w = []"

text \<open>The only obligation of the client: the array has the places it is said to have.\<close>

fun call_allowed :: "('s, 'q, 'r) world \<Rightarrow> api_call \<Rightarrow> bool" where
  "call_allowed w (Call_event ev cap) \<longleftrightarrow> unat cap \<le> length (evbuf w) \<and> unat cap < 2 ^ 31"
| "call_allowed w _ \<longleftrightarrow> True"

subsection \<open>Steps\<close>

text \<open>
  Between two calls the kernel works on the submitted requests, which changes the state of the ring
  but neither the entries staged in it nor the set of requests not yet consumed; the client makes
  system calls of its own; and it provides another array.
\<close>

inductive mcon_step ::
  "('s, 'q, 'r) libs \<Rightarrow> ('s, 'q, 'r) views \<Rightarrow> ('s, 'q, 'r) world \<Rightarrow> action list \<Rightarrow>
   ('s, 'q, 'r) world \<Rightarrow> bool" for L V where
  api: "call_allowed w a \<Longrightarrow> api_run L w a = Some (rc, w') \<Longrightarrow> mcon_step L V w (api_log a rc w') w'"
| ring_progress: "vw_sq V r = vw_sq V (ring (inst w)) \<Longrightarrow> vw_live V r = vw_live V (ring (inst w)) \<Longrightarrow>
    mcon_step L V w [] (w\<lparr>inst := (inst w)\<lparr>ring := r\<rparr>\<rparr>)"
| client_work: "answers k = answers (os w) \<Longrightarrow> mcon_step L V w [] (w\<lparr>os := k\<rparr>)"
| new_array: "mcon_step L V w [] (w\<lparr>evbuf := b\<rparr>)"

inductive reachable ::
  "('s, 'q, 'r) libs \<Rightarrow> ('s, 'q, 'r) views \<Rightarrow> action list \<Rightarrow> ('s, 'q, 'r) world \<Rightarrow> bool" for L V where
  created: "mcon_create L config c k = (0, Some m, c', k') \<Longrightarrow>
    reachable L V [] \<lparr>inst = m, os = k', evbuf = b\<rparr>"
| step: "reachable L V log w \<Longrightarrow> mcon_step L V w as w' \<Longrightarrow> reachable L V (log @ as) w'"

text \<open>Any number of further steps, with the actions they show to the client.\<close>

inductive mcon_steps ::
  "('s, 'q, 'r) libs \<Rightarrow> ('s, 'q, 'r) views \<Rightarrow> ('s, 'q, 'r) world \<Rightarrow> action list \<Rightarrow>
   ('s, 'q, 'r) world \<Rightarrow> bool" for L V w where
  stop: "mcon_steps L V w [] w"
| more: "mcon_steps L V w as w' \<Longrightarrow> mcon_step L V w' bs w'' \<Longrightarrow> mcon_steps L V w (as @ bs) w''"

lemma mcon_steps_reachable:
  assumes "mcon_steps L V w as w'" "reachable L V log w"
  shows "reachable L V (log @ as) w'"
  using assms(1)
proof induction
  case (more as w' bs w'')
  then show ?case
    using reachable.step [OF more.IH more.hyps(2)] by simp
qed (use assms(2) in simp)

text \<open>
  The logs in which no detach has failed with \<open>ENOENT\<close>. After such a failure the index of the session is
  free and the session still has its socket (\<open>detach_failure_outcome\<close> in Session_Api), and nothing is
  claimed of what follows.
\<close>

definition registered :: "action list \<Rightarrow> bool" where
  "registered as \<longleftrightarrow> list_all (\<lambda>a. \<not> is_unregistered a) as"

lemma registered_simps [simp]:
  "registered []" "registered (a # as) \<longleftrightarrow> \<not> is_unregistered a \<and> registered as"
  "registered (as @ bs) \<longleftrightarrow> registered as \<and> registered bs"
  by (simp_all add: registered_def)

lemma registered_reports [simp]: "registered (map Reported es)" "registered (event_log ev cap rc w)"
  by (simp_all add: registered_def event_log_def list.pred_map list_all_iff)

lemma registered_api_log: "\<not> is_detach a \<Longrightarrow> registered (api_log a rc w)"
  by (cases a) simp_all

lemma reported_event_log:
  "Reported e \<in> set (event_log ev cap rc w) \<longleftrightarrow> e \<in> set (take (nat rc) (evbuf w))"
  by (auto simp: event_log_def)

subsection \<open>Every call keeps the invariant\<close>

lemma submit_phases:
  assumes "libs_ok L V" "mcon_inv V (inst w)"
  shows "\<exists>rc w'. mcon_submit L w = Some (rc, w') \<and> mcon_inv V (inst w') \<and>
    answers (os w') = answers (os w) \<and> sessions (inst w') = sessions (inst w) \<and>
    configuration (inst w') = configuration (inst w)"
  by (rule submit_runs [OF assms]) (auto simp: submitted_def accepts_queued_def Let_def)

lemma listening_socket_valid_answers:
  "mcon_listening_socket_valid fd k = (v, k') \<Longrightarrow> answers k' = answers k"
  by (auto simp: mcon_listening_socket_valid_def Let_def rt_simps split: if_splits)

lemma mcon_start_frame:
  "mcon_start w lfd epfd = (rc, w') \<Longrightarrow> answers (os w') = answers (os w) \<and>
   sessions (inst w') = sessions (inst w) \<and> configuration (inst w') = configuration (inst w)"
  by (auto simp: mcon_start_def Let_def rt_simps listening_socket_valid_answers
      split: if_splits prod.splits)

lemma mcon_shutdown_frame:
  "mcon_shutdown w = (rc, w') \<Longrightarrow> answers (os w') = answers (os w) \<and>
   sessions (inst w') = sessions (inst w) \<and> configuration (inst w') = configuration (inst w)"
  by (auto simp: mcon_shutdown_def Let_def rt_simps split: if_splits prod.splits)

lemma api_runs:
  assumes laws: "libs_ok L V" and inv: "mcon_inv V (inst w)" and ok: "call_allowed w a"
  shows "\<exists>rc w'. api_run L w a = Some (rc, w') \<and> answers (os w') = answers (os w) \<and>
    (registered (api_log a rc w') \<longrightarrow> mcon_inv V (inst w') \<and>
      (getsockopt_documented (os w) \<longrightarrow>
        replay (api_log a rc w') (phases (inst w)) = Some (phases (inst w'))))"
proof (cases a)
  case (Call_request s c)
  then show ?thesis
    using run_request_keeps_inv [OF laws inv, of s c] request_phases [OF laws inv, of s c] by fastforce
next
  case (Call_detach s)
  obtain rc w' where "mcon_session_detach L w s = Some (rc, w')" "answers (os w') = answers (os w)"
    "rc = 0 \<or> errno (os w') \<noteq> ENOENT \<longrightarrow> mcon_inv V (inst w')"
    using detach_keeps_inv [OF laws inv, of s] by blast
  with Call_detach show ?thesis
    using detach_phases [OF laws inv, of s rc w'] by auto
next
  case Call_submit
  then show ?thesis
    using submit_phases [OF laws inv] by (fastforce simp: phases_def)
next
  case (Call_event ev cap)
  then have room: "unat cap \<le> length (evbuf w)" "unat cap < 2 ^ 31"
    using ok by simp_all
  obtain rc w' where "mcon_process_event L w ev cap = Some (rc, w')" "mcon_inv V (inst w')"
    "answers (os w') = answers (os w)"
    using process_event_keeps_inv [OF laws inv room(1), of ev] by blast
  with Call_event show ?thesis
    using event_phases [OF laws inv room getsockopt_documented_answer, of ev rc w'] by auto
next
  case (Call_start lfd epfd)
  obtain rc w' where "mcon_start w lfd epfd = (rc, w')" by force
  with Call_start inv show ?thesis
    using mcon_start_keeps_inv [of w lfd epfd rc w' V] mcon_start_frame [of w lfd epfd rc w']
    by (simp add: phases_def)
next
  case Call_shutdown
  obtain rc w' where "mcon_shutdown w = (rc, w')" by force
  with Call_shutdown inv show ?thesis
    using mcon_shutdown_keeps_inv [of w rc w' V] mcon_shutdown_frame [of w rc w']
    by (simp add: phases_def)
qed


subsection \<open>Every reachable state\<close>

lemma step_answers:
  assumes "libs_ok L V" "mcon_inv V (inst w)" "mcon_step L V w as w'"
  shows "answers (os w') = answers (os w)"
  using assms(3)
proof cases
  case (api a rc)
  then show ?thesis
    using api_runs [OF assms(1,2) api(2)] by auto
qed simp_all

lemma step_inv:
  assumes "libs_ok L V" "mcon_inv V (inst w)" "mcon_step L V w as w'" "registered as"
  shows "mcon_inv V (inst w')"
  using assms(3)
proof cases
  case (api a rc)
  then show ?thesis
    using api_runs [OF assms(1,2) api(2)] assms(4) by auto
next
  case (ring_progress r)
  then show ?thesis
    using assms(2) pending_ring_same [of V r "inst w"] by (simp add: mcon_inv_def)
qed (use assms(2) in simp_all)

lemma step_replay:
  assumes "libs_ok L V" "mcon_inv V (inst w)" "mcon_step L V w as w'" "registered as"
    and "getsockopt_documented (os w)"
  shows "replay as (phases (inst w)) = Some (phases (inst w'))"
  using assms(3)
proof cases
  case (api a rc)
  then show ?thesis
    using api_runs [OF assms(1,2) api(2)] assms(4,5) by auto
qed (simp_all add: phases_def)

lemma created_phases:
  assumes laws: "libs_ok L V" and run: "mcon_create L config c k = (0, Some m, c', k')"
  shows "mcon_inv V m \<and> phases m = replicate (length (sessions m)) (Vacant 0)"
proof (rule mcon_create_cases [OF run, where R = "{#}"], goal_cases)
  case (2 t m')
  have m': "m' = m" using 2(2) by simp
  have "sessions m = map (\<lambda>_. session_init) [0..<unat (cfg_session_count config)]"
    using 2(7) unfolding m' by (metis mcon.select_convs(5))
  then have "phases m = replicate (length (sessions m)) (Vacant 0)"
    by (simp add: phases_def phase_of_def session_init_def map_replicate_const)
  with created_inv(1) [OF laws 2(3,7)] show ?case
    unfolding m' by simp
qed simp

lemma replay_length: "replay as T = Some T' \<Longrightarrow> length T' = length T"
proof (induction as arbitrary: T)
  case (Cons a as)
  then obtain U where U: "act a T = Some U" "replay as U = Some T'"
    by (auto simp: bind_eq_Some_conv)
  moreover have "length U = length T"
    using U(1) by (cases a) (auto simp: advance_def Let_def split: if_splits)
  ultimately show ?case
    using Cons.IH by simp
qed simp

lemma reachable_inv:
  assumes "libs_ok L V" "reachable L V log w" "registered log"
  shows "mcon_inv V (inst w)"
  using assms(2,3)
proof induction
  case (created config c k m c' k' b)
  then show ?case
    using created_phases [OF assms(1) created(1)] by simp
next
  case (step log w as w')
  then show ?case
    using step_inv [OF assms(1) _ step.hyps(2)] by simp
qed

text \<open>
  A state with everything that is assumed of the run that led to it: no detach has failed with \<open>ENOENT\<close>,
  and \<open>getsockopt\<close> returns zero or a negative value.
\<close>

definition clean_run ::
  "('s, 'q, 'r) libs \<Rightarrow> ('s, 'q, 'r) views \<Rightarrow> action list \<Rightarrow> ('s, 'q, 'r) world \<Rightarrow> bool" where
  "clean_run L V log w \<longleftrightarrow> reachable L V log w \<and> registered log \<and> getsockopt_documented (os w)"

lemma clean_runI [intro]:
  "reachable L V log w \<Longrightarrow> registered log \<Longrightarrow> getsockopt_documented (os w) \<Longrightarrow> clean_run L V log w"
  by (simp add: clean_run_def)

lemma clean_step:
  assumes "libs_ok L V" "clean_run L V log w" "mcon_step L V w as w'" "registered as"
  shows "clean_run L V (log @ as) w'"
proof -
  have "answers (os w') = answers (os w)"
    using assms(2) step_answers [OF assms(1) reachable_inv [OF assms(1)] assms(3)]
    by (auto simp: clean_run_def)
  from getsockopt_documented_cong [OF this] have "getsockopt_documented (os w')"
    using assms(2) by (simp add: clean_run_def)
  then show ?thesis
    using assms reachable.step by (auto simp: clean_run_def)
qed

lemma clean_steps:
  assumes "libs_ok L V" "clean_run L V log w" "mcon_steps L V w as w'" "registered as"
  shows "clean_run L V (log @ as) w'"
  using assms(3,4)
proof induction
  case (more as w' bs w'')
  then show ?case
    using clean_step [OF assms(1) _ more.hyps(2), of "log @ as"] by simp
qed (use assms(2) in simp)

lemma clean_keeps:
  assumes "libs_ok L V" "clean_run L V log w"
  shows "mcon_inv V (inst w)" "getsockopt_documented (os w)"
  using assms reachable_inv by (auto simp: clean_run_def)

lemma steps_replay:
  assumes "libs_ok L V" "clean_run L V log w" "mcon_steps L V w as w'" "registered as"
  shows "replay as (phases (inst w)) = Some (phases (inst w'))"
  using assms(3,4)
proof induction
  case (more as w' bs w'')
  have "clean_run L V (log @ as) w'"
    using clean_steps [OF assms(1,2) more.hyps(1)] more.prems by simp
  with more step_replay [OF assms(1) _ more.hyps(2)] clean_keeps [OF assms(1)] show ?case
    by (simp add: replay_append)
qed simp

text \<open>A reachable state is some steps away from the creation of the instance.\<close>

lemma reachable_replay:
  assumes "libs_ok L V" "clean_run L V log w"
  shows "replay log (replicate (length (sessions (inst w))) (Vacant 0)) = Some (phases (inst w))"
proof -
  have "reachable L V log w" "registered log" "getsockopt_documented (os w)"
    using assms(2) by (simp_all add: clean_run_def)
  then show ?thesis
  proof induction
    case (created config c k m c' k' b)
    then show ?case
      using created_phases [OF assms(1) created(1)] by simp
  next
    case (step log w as w')
    have inv: "mcon_inv V (inst w)"
      using reachable_inv [OF assms(1) step.hyps(1)] step.prems by simp
    then have doc: "getsockopt_documented (os w)"
      using getsockopt_documented_cong [OF step_answers [OF assms(1) _ step.hyps(2)]] step.prems by simp
    have rep: "replay as (phases (inst w)) = Some (phases (inst w'))"
      using step_replay [OF assms(1) inv step.hyps(2) _ doc] step.prems by simp
    then have "length (sessions (inst w')) = length (sessions (inst w))"
      using replay_length [of as "phases (inst w)"] by auto
    then show ?case
      using rep step.IH step.prems doc by (simp add: replay_append)
  qed
qed

subsection \<open>Requests and completions in a log\<close>

definition requested :: "mcon_session_idx \<Rightarrow> mcon_io_uring_operation set \<Rightarrow> action list \<Rightarrow> nat" where
  "requested i opers as = length (filter (\<lambda>a. case a of
     Requested j c \<Rightarrow> j = i \<and> request_operation c \<in> opers | _ \<Rightarrow> False) as)"

definition completed :: "mcon_session_idx \<Rightarrow> mcon_event_type set \<Rightarrow> action list \<Rightarrow> nat" where
  "completed i types as = length (filter (\<lambda>a. case a of
     Reported e \<Rightarrow> ev_session e = i \<and> ev_type e \<in> types | _ \<Rightarrow> False) as)"

fun pending_in :: "nat \<Rightarrow> phase \<Rightarrow> bool" where
  "pending_in b (Vacant g) = False"
| "pending_in b (Connected g fd h rd wr) = (if b = 0 then rd else b = 1 \<and> wr)"
| "pending_in b (Closing g fd h) = (b = 3)"

lemma pending_in_hang_up [simp]: "pending_in b (hang_up p) = pending_in b p"
  by (cases p) simp_all

fun opers_of :: "nat \<Rightarrow> mcon_io_uring_operation set" where
  "opers_of b = (if b = 0 then {MCON_IO_SESSION_READ, MCON_IO_SESSION_DRAIN}
     else if b = 1 then {MCON_IO_SESSION_WRITE}
     else if b = 3 then {MCON_IO_SESSION_CLOSE} else {})"

fun completions_of :: "nat \<Rightarrow> mcon_event_type set" where
  "completions_of b = (if b = 0 then {MCON_EVENT_READ_COMPLETE, MCON_EVENT_DRAIN_COMPLETE}
     else if b = 1 then {MCON_EVENT_WRITE_COMPLETE}
     else if b = 3 then {MCON_EVENT_CLOSE_COMPLETE} else {})"

declare opers_of.simps [simp del] completions_of.simps [simp del]

lemma requested_Cons: "requested i opers (a # as) = requested i opers [a] + requested i opers as"
  by (simp add: requested_def)

lemma completed_Cons: "completed i types (a # as) = completed i types [a] + completed i types as"
  by (simp add: completed_def)

lemma on_request_pending:
  "on_request c p = Some p' \<Longrightarrow> of_bool (pending_in b p') =
    of_bool (pending_in b p) + (of_bool (request_operation c \<in> opers_of b) :: nat)"
  by (cases "(c, p)" rule: on_request.cases) (auto simp: opers_of.simps split: if_splits)

lemma on_event_pending:
  "on_event t res p = Some p' \<Longrightarrow> of_bool (pending_in b p) =
    of_bool (pending_in b p') + (of_bool (t \<in> completions_of b) :: nat)"
  by (cases "(t, res, p)" rule: on_event.cases) (auto simp: completions_of.simps split: if_splits)

lemma on_detach_pending: "on_detach p = Some p' \<Longrightarrow> \<not> pending_in b p \<and> \<not> pending_in b p'"
  by (cases p rule: on_detach.cases) auto

lemma one_eq_of_bool: "Suc 0 = of_bool P \<longleftrightarrow> P"
  by (cases P) simp_all

lemma act_pending:
  assumes "act a T = Some T'" "unat i < length T" "i \<noteq> MCON_NO_SESSION"
  shows "requested i (opers_of b) [a] + of_bool (pending_in b (T ! unat i)) =
    completed i (completions_of b) [a] + of_bool (pending_in b (T' ! unat i))"
proof (cases a)
  case (Requested j c)
  then show ?thesis
    using assms on_request_pending [of c "T ! unat i" _ b]
    by (auto simp: requested_def completed_def advance_def nth_list_update_unat one_eq_of_bool
        split: if_splits)
next
  case (Detached j)
  then show ?thesis
    using assms on_detach_pending [of "T ! unat i" _ b]
    by (auto simp: requested_def completed_def advance_def nth_list_update_unat one_eq_of_bool
        split: if_splits)
next
  case (Reported e)
  then show ?thesis
    using assms on_event_pending [of "ev_type e" "ev_result e" "T ! unat i" _ b]
    by (auto simp: requested_def completed_def advance_def nth_list_update_unat one_eq_of_bool
        split: if_splits)
next
  case (Failed ev cap)
  then show ?thesis
    using assms(1,2)
    by (cases "unat i = unat (ee_session (mcon_decode_epoll_entry (ep_data ev)))")
      (auto simp: requested_def completed_def Let_def simp del: unat_eq_iff split: if_splits)
next
  case (Unregistered j)
  then show ?thesis
    using assms by simp
qed

lemma replay_pending:
  assumes "replay as T = Some T'" "unat i < length T" "i \<noteq> MCON_NO_SESSION"
  shows "requested i (opers_of b) as + of_bool (pending_in b (T ! unat i)) =
    completed i (completions_of b) as + of_bool (pending_in b (T' ! unat i))"
  using assms(1,2)
proof (induction as arbitrary: T)
  case Nil
  then show ?case by (simp add: requested_def completed_def)
next
  case (Cons a as)
  then obtain U where U: "act a T = Some U" "replay as U = Some T'"
    by (auto simp: bind_eq_Some_conv)
  have "length U = length T"
    using replay_length [of "[a]" T U] U(1) by simp
  then show ?case
    using Cons.IH [OF U(2)] Cons.prems(2) act_pending [OF U(1) Cons.prems(2) assms(3), of b]
    unfolding requested_Cons [of _ _ a as] completed_Cons [of _ _ a as] by linarith
qed

subsection \<open>A run\<close>

text \<open>
  A run on the reference libraries: an instance is created, its listening socket has a connection, an
  accept is submitted, the kernel completes it with descriptor 9, and the client reads from the new
  session. The outcome of each call is its own definition, evaluated once.
\<close>

definition outcome :: "ref_world \<Rightarrow> api_call \<Rightarrow> int \<times> ref_world" where
  "outcome w a = the (api_run ref_libs w a)"

lemma outcome_run:
  assumes "clean_run ref_libs ref_views log w" "call_allowed w a"
    and "registered (api_log a (fst (outcome w a)) (snd (outcome w a)))"
  shows "clean_run ref_libs ref_views (log @ api_log a (fst (outcome w a)) (snd (outcome w a)))
    (snd (outcome w a))"
proof -
  obtain rc w' where run: "api_run ref_libs w a = Some (rc, w')"
    using api_runs [OF ref_libs_ok clean_keeps(1) [OF ref_libs_ok assms(1)] assms(2)] by blast
  show ?thesis
    using clean_step [OF ref_libs_ok assms(1) mcon_step.api [OF assms(2) run]] run assms(3)
    by (simp add: outcome_def)
qed

definition ring_completes :: "int \<Rightarrow> ref_world \<Rightarrow> ref_world" where
  "ring_completes res w = (let r = ring (inst w)
     in w\<lparr>inst := (inst w)\<lparr>ring := r\<lparr>rr_working := [],
          rr_done := rr_done r @ map (\<lambda>d. (d, res)) (rr_working r)\<rparr>\<rparr>\<rparr>)"

lemma ring_completes_run:
  "clean_run ref_libs ref_views log w \<Longrightarrow> clean_run ref_libs ref_views log (ring_completes res w)"
  using clean_step [of ref_libs ref_views log w "[]", OF ref_libs_ok _ mcon_step.ring_progress
      [of ref_views "(ring (inst w))\<lparr>rr_working := [],
         rr_done := rr_done (ring (inst w)) @ map (\<lambda>d. (d, res)) (rr_working (ring (inst w)))\<rparr>"]]
  by (simp add: ring_completes_def ref_live_def Let_def o_def)

definition demo_kernel :: kernel where
  "demo_kernel = creating_kernel 64"

definition demo_world :: ref_world where
  "demo_world = (case mcon_create ref_libs sample_config 1 demo_kernel of (rc, m, c, k) \<Rightarrow>
     \<lparr>inst = the m, os = k,
      evbuf = replicate 4 \<lparr>ev_result = 0, ev_session = 0, ev_type = MCON_EVENT_NONE\<rparr>\<rparr>)"

lemma demo_world_run: "clean_run ref_libs ref_views [] demo_world"
proof -
  obtain rc mo c k where run: "mcon_create ref_libs sample_config 1 demo_kernel = (rc, mo, c, k)"
    by (metis surj_pair)
  have "rc = 0 \<and> mo \<noteq> None \<and> answers k = answers demo_kernel"
    using run by (auto simp: mcon_create_def Let_def io_queue_create_def rt_simps answer_def next_instance_id_def
        demo_kernel_def creating_kernel_def mcon_config_validate_def sample_config_def)
  moreover have "getsockopt_documented demo_kernel"
    by (simp add: getsockopt_documented_def demo_kernel_def creating_kernel_def)
  ultimately show ?thesis
    using run getsockopt_documented_cong [of k demo_kernel]
    by (auto simp: demo_world_def clean_run_def intro: reachable.created)
qed

definition socket_event :: epoll_event where
  "socket_event = \<lparr>ep_events = EPOLLIN, ep_data = mcon_encode_epoll_entry
     (server_entry (inst demo_world) MCON_EPOLL_SOURCE_SERVER_SOCKET)\<rparr>"

definition demo_accepting :: ref_world where
  "demo_accepting = snd (outcome demo_world (Call_event socket_event 4))"

definition demo_submitted :: ref_world where
  "demo_submitted = snd (outcome demo_accepting Call_submit)"

definition demo_connected :: "int \<times> ref_world" where
  "demo_connected = outcome (ring_completes 9 demo_submitted) (Call_event ring_event 4)"

definition demo_reading :: "int \<times> ref_world" where
  "demo_reading = outcome (snd demo_connected) (Call_request 0 (Request_read 4096 16))"

lemma demo_room: "length (evbuf demo_submitted) = 4"
  by code_simp

lemma demo_log: "api_log (Call_event ring_event 4) (fst demo_connected) (snd demo_connected) =
    [Reported \<lparr>ev_result = 9, ev_session = 0, ev_type = MCON_EVENT_NEW_CONNECTION\<rparr>]"
  by code_simp

lemma demo_read: "fst demo_reading = 0"
  by code_simp

lemma socket_log: "api_log (Call_event socket_event 4)
    (fst (outcome demo_world (Call_event socket_event 4)))
    (snd (outcome demo_world (Call_event socket_event 4))) = []"
  by code_simp

lemma demo_places:
  "call_allowed demo_world (Call_event socket_event 4)"
  "call_allowed (ring_completes 9 demo_submitted) (Call_event ring_event 4)"
  using demo_room by (simp_all add: demo_world_def ring_completes_def Let_def split: prod.split)

lemma demo_accepting_run: "clean_run ref_libs ref_views [] demo_accepting"
  using outcome_run [OF demo_world_run demo_places(1)]
  unfolding socket_log by (simp add: demo_accepting_def)

lemma demo_submitted_run: "clean_run ref_libs ref_views [] demo_submitted"
  using outcome_run [OF demo_accepting_run, of Call_submit] by (simp add: demo_submitted_def)

lemma demo_connected_run:
  "clean_run ref_libs ref_views
    [Reported \<lparr>ev_result = 9, ev_session = 0, ev_type = MCON_EVENT_NEW_CONNECTION\<rparr>] (snd demo_connected)"
  using outcome_run [OF ring_completes_run [OF demo_submitted_run] demo_places(2)]
  unfolding demo_log [unfolded demo_connected_def] by (simp add: demo_connected_def)

lemma demo_run:
  "clean_run ref_libs ref_views
    [Reported \<lparr>ev_result = 9, ev_session = 0, ev_type = MCON_EVENT_NEW_CONNECTION\<rparr>,
     Requested 0 (Request_read 4096 16)] (snd demo_reading)"
  using outcome_run [OF demo_connected_run, of "Call_request 0 (Request_read 4096 16)"]
    demo_read
  by (simp add: demo_reading_def)

lemma demo_sessions: "sessions (inst (snd demo_reading)) =
    [\<lparr>socket_fd = 9, generation = 0, sess_state = 1\<rparr>, session_init]"
  by code_simp

subsection \<open>Properties\<close>

text \<open>C1. Take any instance a client has created and any sequence of its calls, in every order of calls
  and completions and with any answers of the kernel, in which no detach has failed with \<open>ENOENT\<close> (the
  socket was taken out of the interest list, or the instance started on another epoll instance, behind
  the back of the session). Then the invariant holds, and every further call the client may make
  returns: no array is left, no loop runs forever, no assertion fails. The call keeps the invariant
  unless it is itself a detach that fails with \<open>ENOENT\<close>.\<close>

theorem reachable_states_safe:
  assumes "libs_ok L V" "reachable L V log w" "registered log"
  shows "mcon_inv V (inst w) \<and>
    (\<forall>a. call_allowed w a \<longrightarrow> (\<exists>rc w'. api_run L w a = Some (rc, w') \<and>
      (registered (api_log a rc w') \<longrightarrow> mcon_inv V (inst w'))))"
  using reachable_inv [OF assms] api_runs [OF assms(1)] by blast

theorem reachable_states_safe_witness:
  "\<exists>rc w'. api_run ref_libs (snd demo_reading) (Call_request 0 (Request_write 64 3)) = Some (rc, w') \<and>
     mcon_inv ref_views (inst w')"
proof -
  let ?log = "[Reported \<lparr>ev_result = 9, ev_session = 0, ev_type = MCON_EVENT_NEW_CONNECTION\<rparr>,
     Requested 0 (Request_read 4096 16)]"
  let ?a = "Call_request 0 (Request_write 64 3)"
  have "reachable ref_libs ref_views ?log (snd demo_reading)" "registered ?log"
    using demo_run by (simp_all add: clean_run_def)
  from reachable_states_safe [OF ref_libs_ok this, THEN conjunct2, rule_format, of ?a]
  obtain rc w' where "api_run ref_libs (snd demo_reading) ?a = Some (rc, w')"
    "registered (api_log ?a rc w') \<longrightarrow> mcon_inv ref_views (inst w')"
    by (simp only: call_allowed.simps) blast
  then show ?thesis by auto
qed

text \<open>C2. The client can follow its sessions: replaying its own accepted requests, the sessions it
  detached, the events reported to it and the events for which the call failed, on sessions that are
  all vacant in the first generation, gives for every session whether it is vacant, connected or
  closing, its socket, its generation, whether a hang-up is recorded and what is pending, after every
  run in which no detach failed with \<open>ENOENT\<close>. Hypothesis on the kernel: \<open>getsockopt\<close> returns zero or a
  negative value.\<close>

theorem log_determines_sessions:
  assumes "libs_ok L V" "reachable L V log w" "registered log" "getsockopt_documented (os w)"
  shows "replay log (replicate (length (sessions (inst w))) (Vacant 0)) = Some (phases (inst w))"
  using reachable_replay [OF assms(1) clean_runI [OF assms(2-4)]] .

theorem log_determines_sessions_witness:
  "replay [Reported \<lparr>ev_result = 9, ev_session = 0, ev_type = MCON_EVENT_NEW_CONNECTION\<rparr>,
     Requested 0 (Request_read 4096 16)] [Vacant 0, Vacant 0] =
    Some [Connected 0 9 False True False, Vacant 0]"
  using log_determines_sessions [OF ref_libs_ok demo_run [unfolded clean_run_def, THEN conjunct1]]
    demo_run
  by (simp add: phases_def demo_sessions phase_of_def session_init_def numeral_2_eq_2 bit_1_iff
      clean_run_def)

lemma u8_single_masks:
  "x AND 1 = 0 \<longleftrightarrow> \<not> bit x 0" "x AND 2 = 0 \<longleftrightarrow> \<not> bit x 1" "x AND 8 = 0 \<longleftrightarrow> \<not> bit x 3" for x :: u8
  by (auto simp only: bit_eq_iff [where 'a = u8] bit_and_iff bit_u8_powers bit_0_eq
      possible_bit_word bot_apply bot_bool_def dest: bit_imp_le_length)

lemma pending_in_state:
  fixes i :: mcon_session_idx
  assumes "mcon_inv V m" "unat i < length (sessions m)" "b \<in> {0, 1, 3}"
  shows "pending_in b (phases m ! unat i) = bit (sess_state (sessions m ! unat i)) b"
  using mcon_inv_session [OF assms(1,2)] assms(2,3)
  by (auto simp: session_ok_def phase_of_def phases_def)

text \<open>The requests of one kind in the log of a run, against the bit of the kind.\<close>

lemma requests_and_completions:
  assumes "libs_ok L V" "clean_run L V log w" "unat i < length (sessions (inst w))" "b \<in> {0, 1, 3}"
  shows "requested i (opers_of b) log = completed i (completions_of b) log +
    of_bool (bit (sess_state (sessions (inst w) ! unat i)) b)"
proof -
  note inv = clean_keeps(1) [OF assms(1,2)]
  show ?thesis
    using replay_pending [OF reachable_replay [OF assms(1,2)], of i b] assms(3)
      real_session [OF inv assms(3)] pending_in_state [OF inv assms(3,4)]
    by simp
qed

text \<open>C4. Every accepted request is answered at most once: in every run in which no detach failed with
  \<open>ENOENT\<close> and in which \<open>getsockopt\<close> returns zero or a negative value, the accepted reads and drains of
  a session are as many as the read and drain completions reported for it, plus one while the state
  byte says that one is pending; the same holds for writes and for closes.\<close>

theorem completions_answer_requests:
  assumes "libs_ok L V" "reachable L V log w" "registered log" "getsockopt_documented (os w)"
    and "unat i < length (sessions (inst w))"
  defines "st \<equiv> sess_state (sessions (inst w) ! unat i)"
  shows "requested i {MCON_IO_SESSION_READ, MCON_IO_SESSION_DRAIN} log =
      completed i {MCON_EVENT_READ_COMPLETE, MCON_EVENT_DRAIN_COMPLETE} log +
      of_bool (st AND MCON_SESSION_STATE_READING \<noteq> 0) \<and>
    requested i {MCON_IO_SESSION_WRITE} log = completed i {MCON_EVENT_WRITE_COMPLETE} log +
      of_bool (st AND MCON_SESSION_STATE_WRITING \<noteq> 0) \<and>
    requested i {MCON_IO_SESSION_CLOSE} log = completed i {MCON_EVENT_CLOSE_COMPLETE} log +
      of_bool (st AND MCON_SESSION_STATE_CLOSING \<noteq> 0)"
proof -
  note counts = requests_and_completions [OF assms(1) clean_runI [OF assms(2-4)] assms(5)]
  show ?thesis
    using counts [of 0] counts [of 1] counts [of 3]
    by (simp add: st_def opers_of.simps completions_of.simps u8_single_masks)
qed

theorem completions_answer_requests_witness:
  "sess_state (sessions (inst (snd demo_reading)) ! 0) AND MCON_SESSION_STATE_READING \<noteq> 0"
  using completions_answer_requests [OF ref_libs_ok demo_run [unfolded clean_run_def, THEN conjunct1],
      of 0] demo_run
  by (simp add: demo_sessions requested_def completed_def clean_run_def)

end
