(* ===== verification/Starvation.thy ===== *)
theory Starvation
  imports Protocol
begin

text \<open>
  What the leak of the counter of submitted requests leads to. An accept refused by epoll leaves the
  counter one too high for good (Ring_Events); once it stands at the size of the ring with nothing in
  the ring, the instance has stopped working, although every call still returns without an error.
\<close>

subsection \<open>Starvation\<close>

text \<open>
  The counter of submitted requests says that the ring is full while the ring holds nothing. Each
  accept refused by epoll brings an instance one request closer to this state.
\<close>

definition starved :: "('s, 'q, 'r) views \<Rightarrow> ('s, 'q, 'r) mcon \<Rightarrow> bool" where
  "starved V m \<longleftrightarrow> sqe_in_flight (m_state m) = cfg_io_uring_queue_size (configuration m) \<and>
     vw_sq V (ring m) = [] \<and> vw_live V (ring m) = {#}"

lemma starved_same:
  "vw_sq V (ring m') = vw_sq V (ring m) \<Longrightarrow> vw_live V (ring m') = vw_live V (ring m) \<Longrightarrow>
   sqe_in_flight (m_state m') = sqe_in_flight (m_state m) \<Longrightarrow>
   configuration m' = configuration m \<Longrightarrow> starved V m' = starved V m"
  by (simp add: starved_def)

text \<open>The calls of a client leave the ring and the counter alone, up to \<open>mcon_submit\<close> and the event of
  the ring.\<close>

context session_request
begin

lemma ring_frame:
  assumes laws: "libs_ok L V" and inv: "mcon_inv V (inst w)" and run: "call L w s = Some (rc, w')"
  shows "ring (inst w') = ring (inst w) \<and> m_state (inst w') = m_state (inst w) \<and>
    configuration (inst w') = configuration (inst w) \<and>
    (io_queue_sorted V (m_io_queue (inst w)) \<longrightarrow> io_queue_sorted V (m_io_queue (inst w')))"
proof (cases "cfg_session_count (configuration (inst w)) \<le> s \<or>
      socket_fd (sessions (inst w) ! unat s) = -1 \<or>
      sess_state (sessions (inst w) ! unat s) AND refused \<noteq> 0")
  case True
  from rejected [OF inv this] run show ?thesis by auto
next
  case False
  then have ok: "s < cfg_session_count (configuration (inst w))"
    "unat s < length (sessions (inst w))" "socket_fd (sessions (inst w) ! unat s) \<noteq> -1"
    "sess_state (sessions (inst w) ! unat s) AND refused = 0"
    using mcon_inv_index [OF inv] by (auto simp flip: not_le)
  obtain rc' q k where push: "io_queue_push L (m_io_queue (inst w))
      (request_sqe (prepared (socket_fd (sessions (inst w) ! unat s)) s) s oper) (os w) = (rc', q, k)"
    using prod_cases3 by blast
  from ready [OF ok push] run io_queue_push_sorted [OF laws push] show ?thesis
    by (auto split: if_splits)
qed

end

lemma run_request_ring:
  "libs_ok L V \<Longrightarrow> mcon_inv V (inst w) \<Longrightarrow> run_request L w s c = Some (rc, w') \<Longrightarrow>
   ring (inst w') = ring (inst w) \<and> m_state (inst w') = m_state (inst w) \<and>
   configuration (inst w') = configuration (inst w) \<and>
   (io_queue_sorted V (m_io_queue (inst w)) \<longrightarrow> io_queue_sorted V (m_io_queue (inst w')))"
  using rd.ring_frame [of L V w s] wr.ring_frame [of L V w s]
    dr.ring_frame [of L V w s] cl.ring_frame [of L V w s]
  by (cases c) auto

lemma detach_ring:
  assumes "libs_ok L V" and inv: "mcon_inv V (inst w)" and run: "mcon_session_detach L w s = Some (rc, w')"
  shows "ring (inst w') = ring (inst w) \<and>
    sqe_in_flight (m_state (inst w')) = sqe_in_flight (m_state (inst w)) \<and>
    configuration (inst w') = configuration (inst w) \<and> m_io_queue (inst w') = m_io_queue (inst w)"
proof (cases "cfg_session_count (configuration (inst w)) \<le> s \<or>
      socket_fd (sessions (inst w) ! unat s) = -1 \<or>
      sess_state (sessions (inst w) ! unat s) AND 11 \<noteq> 0")
  case True
  from detach_rejected [OF inv this, of L] run show ?thesis by auto
next
  case False
  then have ok: "s < cfg_session_count (configuration (inst w))"
    "socket_fd (sessions (inst w) ! unat s) \<noteq> -1"
    "sess_state (sessions (inst w) ! unat s) AND 11 = 0"
    by (auto simp flip: not_le)
  show ?thesis
  proof (rule detach_runs [OF assms(1) inv ok], goal_cases)
    case (1 v st)
    have v: "v = w'" using 1(1) run by simp
    show ?case
    proof (cases "rc = 0")
      case True
      with 1(1,7) run show ?thesis by (auto simp: v split: if_splits)
    next
      case False
      with 1(1,6) run show ?thesis by (auto simp: v split: if_splits)
    qed
  qed
qed

lemma start_ring:
  "mcon_start w lfd epfd = (rc, w') \<Longrightarrow> ring (inst w') = ring (inst w) \<and>
   m_state (inst w') = m_state (inst w) \<and> configuration (inst w') = configuration (inst w) \<and>
   m_io_queue (inst w') = m_io_queue (inst w)"
  by (auto simp: mcon_start_def Let_def rt_simps split: if_splits prod.splits)

lemma shutdown_ring:
  "mcon_shutdown w = (rc, w') \<Longrightarrow> ring (inst w') = ring (inst w) \<and>
   sqe_in_flight (m_state (inst w')) = sqe_in_flight (m_state (inst w)) \<and>
   configuration (inst w') = configuration (inst w) \<and> m_io_queue (inst w') = m_io_queue (inst w)"
  by (auto simp: mcon_shutdown_def Let_def rt_simps split: if_splits prod.splits)

text \<open>Without a submitted request the ring has no completion to offer.\<close>

lemma nothing_peeked:
  assumes "libs_ok L V" "vw_live V (ring (inst w)) = {#}" "peek_cqe L w = (rc, p, w')"
  shows "rc \<noteq> 0"
proof
  assume "rc = 0"
  then obtain r where peek: "ur_peek_cqe (urg L) (ring (inst w)) = (0, p, r)"
    using assms(3) by (auto simp: peek_cqe_def split: prod.splits)
  from libs_peek_found(2) [OF assms(1) peek] libs_peek [OF assms(1) peek] assms(2)
  show False by simp
qed

lemma clear_eventfd_inst [simp]: "inst (clear_eventfd L w) = inst w" "evbuf (clear_eventfd L w) = evbuf w"
  by (simp_all add: clear_eventfd_def Let_def split: prod.split)

lemma idle_ring_event:
  assumes laws: "libs_ok L V" and none: "vw_live V (ring (inst w)) = {#}"
    and run: "mcon_process_io_uring_event L w cap = Some (rc, w')"
  shows "rc = 0 \<and> vw_sq V (ring (inst w')) = vw_sq V (ring (inst w)) \<and>
    vw_live V (ring (inst w')) = {#} \<and> m_state (inst w') = m_state (inst w) \<and>
    configuration (inst w') = configuration (inst w) \<and> sessions (inst w') = sessions (inst w)"
proof -
  obtain e p w1 where pk: "peek_cqe L w = (e, p, w1)"
    by (cases "peek_cqe L w") auto
  have "vw_sq V (ring (inst w1)) = vw_sq V (ring (inst w))"
    using pk libs_peek [OF laws] by (auto simp: peek_cqe_def split: prod.splits)
  moreover have "ring_loop L cap 0 0 w = Some (0, 0, w1)"
    using nothing_peeked [OF laws none pk] pk by (subst ring_loop.simps) simp
  ultimately show ?thesis
    using run peek_cqe_frame [OF laws pk] none by (auto simp: mcon_process_io_uring_event_def)
qed

subsection \<open>Starvation is for ever\<close>

text \<open>What can still be reported: the events of client sockets.\<close>

definition notices :: "mcon_event_type set" where
  "notices = {MCON_EVENT_READ_RDY, MCON_EVENT_READ_SHUTDOWN, MCON_EVENT_REMOTE_HANGUP,
     MCON_EVENT_CLIENT_ERROR}"

lemma session_event_notices:
  assumes inv: "mcon_inv V (inst w)" and room: "unat mx \<le> length (evbuf w)"
    and run: "mcon_process_session_event w e d mx = Some (rc, w')"
    and fails: "\<And>fd. rv (answer (os w) (Getsockopt fd SO_ERROR)) \<le> 0"
  shows "ring (inst w') = ring (inst w) \<and> m_state (inst w') = m_state (inst w) \<and>
    configuration (inst w') = configuration (inst w) \<and>
    (\<forall>x \<in> set (take (nat rc) (evbuf w')). ev_type x \<in> notices)"
proof -
  define s where "s = sessions (inst w) ! unat (ee_session d)"
  define r where "r = answer (os w) (Getsockopt (socket_fd s) SO_ERROR)"
  define evs where "evs = session_events e (sess_state s) (ee_session d) (rout r)"
  note core = session_event_core [OF inv room, of e d, unfolded run, folded s_def, folded r_def,
      folded evs_def, simplified]
  have "\<forall>x \<in> set evs. ev_type x \<in> notices"
    by (auto simp: evs_def session_events_def flag_event_def notices_def)
  then show ?thesis
    using core fails [of "socket_fd s"] by (auto simp: r_def split: if_splits)
qed

lemma event_starved:
  assumes laws: "libs_ok L V" and inv: "mcon_inv V (inst w)" and kernel: "getsockopt_documented (os w)"
    and st: "starved V (inst w)" and room: "unat cap \<le> length (evbuf w)"
    and run: "mcon_process_event L w ev cap = Some (rc, w')"
  shows "starved V (inst w') \<and> (\<forall>x \<in> set (take (nat rc) (evbuf w')). ev_type x \<in> notices)"
proof -
  have none: "vw_live V (ring (inst w)) = {#}"
    using st by (simp add: starved_def)
  have "starved V (inst v) \<and> rc' = 0" if "mcon_process_server_socket_event w e = (rc', v)" for e v rc'
    using that st by (auto simp: mcon_process_server_socket_event_def starved_def)
  moreover have "starved V (inst v) \<and> rc' = 0"
    if "mcon_process_io_uring_event L w cap = Some (rc', v)" for v rc'
    using idle_ring_event [OF laws none that] st by (simp add: starved_def)
  moreover have "starved V (inst v) \<and> (\<forall>x \<in> set (take (nat rc') (evbuf v)). ev_type x \<in> notices)"
    if "mcon_process_session_event w e d cap = Some (rc', v)" for e d v rc'
    using session_event_notices [OF inv room that getsockopt_documented_answer [OF kernel]] st
    by (simp add: starved_def)
  ultimately show ?thesis
    using run st
    by (fastforce simp: mcon_process_event_def Let_def split: if_splits mcon_epoll_source.splits)
qed

lemma submit_starved:
  assumes laws: "libs_ok L V" and inv: "mcon_inv V (inst w)" and st: "starved V (inst w)"
  shows "\<exists>w'. mcon_submit L w = Some (0, w') \<and> starved V (inst w')"
proof (rule submit_runs [OF laws inv], goal_cases)
  case (1 rc w1 w')
  have st1: "starved V (inst w1)"
    using 1(3) st by (auto simp: accepts_queued_def starved_def Let_def)
  then have "submit_size L V (inst w1) = 0"
    by (simp add: submit_size_def sqe_limit_def starved_def)
  then have "rc = 0 \<and> starved V (inst w')"
    using 1(6) st1 by (auto simp: submitted_def starved_def Let_def)
  with 1(1) show ?case by auto
qed

lemma step_starved:
  assumes laws: "libs_ok L V" and inv: "mcon_inv V (inst w)" and kernel: "getsockopt_documented (os w)"
    and st: "starved V (inst w)" and step: "mcon_step L V w as w'"
  shows "starved V (inst w') \<and> (\<forall>x. Reported x \<in> set as \<longrightarrow> ev_type x \<in> notices)"
  using step
proof cases
  case (api a rc)
  show ?thesis
  proof (cases a)
    case (Call_request s c)
    with api run_request_ring [OF laws inv, of s c rc w'] st show ?thesis
      by (simp add: starved_def)
  next
    case (Call_detach s)
    with api detach_ring [OF laws inv, of s rc w'] st show ?thesis
      by (simp add: starved_def)
  next
    case Call_submit
    with api submit_starved [OF laws inv st] show ?thesis by auto
  next
    case (Call_event ev cap)
    with api event_starved [OF laws inv kernel st, of cap ev rc w'] show ?thesis
      by (auto simp: reported_event_log)
  next
    case (Call_start lfd epfd)
    with api start_ring [of w lfd epfd rc w'] st show ?thesis
      by (simp add: starved_def)
  next
    case Call_shutdown
    with api shutdown_ring [of w rc w'] st show ?thesis
      by (simp add: starved_def)
  qed
qed (use st in \<open>simp_all add: starved_def\<close>)

lemma steps_starved:
  assumes laws: "libs_ok L V" and "clean_run L V log w" "starved V (inst w)"
    and "mcon_steps L V w as w'" "registered as"
  shows "starved V (inst w') \<and> (\<forall>x. Reported x \<in> set as \<longrightarrow> ev_type x \<in> notices)"
  using assms(4,5)
proof induction
  case (more as w' bs w'')
  have "clean_run L V (log @ as) w'"
    using clean_steps [OF laws assms(2) more.hyps(1)] more.prems by simp
  with more step_starved [OF laws _ _ _ more.hyps(2)] clean_keeps [OF laws] show ?case by auto
qed (use assms(3) in simp)

lemma nothing_completed:
  "\<forall>x. Reported x \<in> set as \<longrightarrow> ev_type x \<in> notices \<Longrightarrow> completed i (completions_of b) as = 0"
  by (fastforce simp: completed_def notices_def completions_of.simps filter_empty_conv
      split: action.splits if_splits)

lemma starved_pending:
  fixes i :: mcon_session_idx
  assumes "libs_ok L V" "clean_run L V log w" "starved V (inst w)" "mcon_steps L V w as w'"
    and "registered as"
    and i: "unat i < length (sessions (inst w))" and b: "b \<in> {0, 1, 3}"
    and set: "bit (sess_state (sessions (inst w) ! unat i)) b"
  shows "bit (sess_state (sessions (inst w') ! unat i)) b"
proof -
  note inv = clean_keeps(1) [OF assms(1,2)]
    clean_keeps(1) [OF assms(1) clean_steps [OF assms(1,2,4,5)]]
  note rep = steps_replay [OF assms(1,2,4,5)]
  have len: "length (sessions (inst w')) = length (sessions (inst w))"
    using replay_length [OF rep] by simp
  have "completed i (completions_of b) as = 0"
    using steps_starved [OF assms(1-5)] nothing_completed by blast
  then show ?thesis
    using replay_pending [OF rep, of i b] real_session [OF inv(1) i] i len set
      pending_in_state [OF inv(1) i b] pending_in_state [OF inv(2) _ b, of i]
    by (auto simp: of_bool_def split: if_splits)
qed

subsection \<open>A run into starvation\<close>

text \<open>
  A ring of one entry and a kernel whose epoll refuses descriptor 9, as it does when the limit on
  watches is reached (28 is \<open>ENOSPC\<close>). The instance accepts descriptor 8, then meets the refusal, and
  then accepts a read of the session it has.
\<close>

definition starving_kernel :: kernel where
  "starving_kernel = (creating_kernel 64)\<lparr>answers := (\<lambda>t c. case c of
     Epoll_ctl _ oper fd _ \<Rightarrow>
       \<lparr>rv = if oper = EPOLL_CTL_ADD \<and> fd = 9 then -1 else 0, rerr = 28, rout = 0\<rparr>
     | _ \<Rightarrow> answers (creating_kernel 64) t c)\<rparr>"

definition starving_config :: mcon_config where
  "starving_config = sample_config\<lparr>cfg_io_uring_queue_size := 1\<rparr>"

definition fresh_world :: ref_world where
  "fresh_world = (case mcon_create ref_libs starving_config 1 starving_kernel of (rc, m, c, k) \<Rightarrow>
     \<lparr>inst = the m, os = k,
      evbuf = replicate 4 \<lparr>ev_result = 0, ev_session = 0, ev_type = MCON_EVENT_NONE\<rparr>\<rparr>)"

text \<open>A log with the state it led to, extended by a call or by completions of the kernel.\<close>

definition played :: "action list \<times> ref_world \<Rightarrow> api_call \<Rightarrow> action list \<times> ref_world" where
  "played p a = (case outcome (snd p) a of (rc, w) \<Rightarrow> (fst p @ api_log a rc w, w))"

definition served :: "action list \<times> ref_world \<Rightarrow> int \<Rightarrow> action list \<times> ref_world" where
  "served p res = (fst p, ring_completes res (snd p))"

lemma played_run:
  "clean_run ref_libs ref_views (fst p) (snd p) \<Longrightarrow> call_allowed (snd p) a \<Longrightarrow>
   \<not> is_detach a \<Longrightarrow> clean_run ref_libs ref_views (fst (played p a)) (snd (played p a))"
  using outcome_run [of "fst p" "snd p" a, OF _ _ registered_api_log]
  by (simp add: played_def case_prod_beta)

lemma served_run:
  "clean_run ref_libs ref_views (fst p) (snd p) \<Longrightarrow>
   clean_run ref_libs ref_views (fst (served p res)) (snd (served p res))"
  by (simp add: served_def ring_completes_run)

lemma fresh_world_run: "clean_run ref_libs ref_views [] fresh_world"
proof -
  obtain rc mo c k where run: "mcon_create ref_libs starving_config 1 starving_kernel = (rc, mo, c, k)"
    by (metis surj_pair)
  have "rc = 0 \<and> mo \<noteq> None \<and> answers k = answers starving_kernel"
    using run by (auto simp: mcon_create_def Let_def io_queue_create_def rt_simps answer_def next_instance_id_def
        starving_kernel_def creating_kernel_def mcon_config_validate_def sample_config_def starving_config_def)
  moreover have "getsockopt_documented starving_kernel"
    by (simp add: getsockopt_documented_def starving_kernel_def creating_kernel_def)
  ultimately show ?thesis
    using run getsockopt_documented_cong [of k starving_kernel]
    by (auto simp: fresh_world_def clean_run_def intro: reachable.created)
qed

definition starving_accepting :: "action list \<times> ref_world" where
  "starving_accepting =
     served (played (played ([], fresh_world) (Call_event socket_event 4)) Call_submit) 8"

definition starving_connected :: "action list \<times> ref_world" where
  "starving_connected = played starving_accepting (Call_event ring_event 4)"

definition starving_again :: "action list \<times> ref_world" where
  "starving_again = served (played starving_connected Call_submit) 9"

definition starving_reading :: "action list \<times> ref_world" where
  "starving_reading =
     played (played starving_again (Call_event ring_event 4)) (Call_request 0 (Request_read 4096 16))"

text \<open>What is evaluated of the end of the run, at once.\<close>

definition observed :: "action list \<times> ref_world \<Rightarrow>
    action list \<times> u16 \<times> u16 \<times> io_uring_sqe list \<times> u64 list \<times> (u64 \<times> int) list \<times> mcon_session list" where
  "observed p = (let m = inst (snd p) in (fst p, sqe_in_flight (m_state m),
     cfg_io_uring_queue_size (configuration m), rr_sq (ring m), rr_working (ring m),
     rr_done (ring m), sessions m))"

lemma starving_observed:
  "observed starving_reading =
    ([Reported \<lparr>ev_result = 8, ev_session = 0, ev_type = MCON_EVENT_NEW_CONNECTION\<rparr>,
      Requested 0 (Request_read 4096 16)], 1, 1, [], [], [],
     [\<lparr>socket_fd = 8, generation = 0, sess_state = 1\<rparr>, session_init])"
  by code_simp

lemmas starving_state = starving_observed [unfolded observed_def Let_def prod.inject]

lemma starving_rooms:
  "length (evbuf fresh_world) = 4" "length (evbuf (snd starving_accepting)) = 4"
  "length (evbuf (snd starving_again)) = 4"
  by code_simp+

lemma starving_run:
  "clean_run ref_libs ref_views (fst starving_reading) (snd starving_reading)"
proof -
  let ?R = "\<lambda>p. clean_run ref_libs ref_views (fst p) (snd p)"
  have "?R ([], fresh_world)"
    by (simp add: fresh_world_run)
  then have "?R starving_accepting"
    unfolding starving_accepting_def
    by (rule served_run [OF played_run [OF played_run]])
      (simp_all add: starving_rooms)
  then have "?R starving_connected"
    unfolding starving_connected_def by (rule played_run) (simp_all add: starving_rooms)
  then have "?R starving_again"
    unfolding starving_again_def by (rule served_run [OF played_run]) simp_all
  then show ?thesis
    unfolding starving_reading_def
    by (rule played_run [OF played_run]) (simp_all add: starving_rooms)
qed

lemma starving_starved: "starved ref_views (inst (snd starving_reading))"
  by (simp add: starved_def starving_state ref_live_def)

subsection \<open>Properties\<close>

text \<open>C31. An instance whose counter of submitted requests has reached the size of the ring while the
  ring is empty never recovers: whatever the client calls and the kernel does from there on, the state
  persists, \<open>mcon_submit\<close> returns 0 without submitting anything, no accept, read, write, drain or close
  is ever reported as completed, and a session with a pending request keeps it pending for ever. No
  detach of the run has failed with \<open>ENOENT\<close>, and \<open>getsockopt\<close> returns zero or a negative value. The
  run of the witness reaches the state: one refused accept suffices for a ring of one entry.\<close>

theorem starved_forever:
  assumes "libs_ok L V" "reachable L V log w" "registered log" "getsockopt_documented (os w)"
    and "starved V (inst w)" "mcon_steps L V w as w'" "registered as"
  shows "starved V (inst w') \<and> (\<exists>w''. mcon_submit L w' = Some (0, w'')) \<and>
    (\<forall>x. Reported x \<in> set as \<longrightarrow> ev_type x \<in> {MCON_EVENT_READ_RDY, MCON_EVENT_READ_SHUTDOWN,
       MCON_EVENT_REMOTE_HANGUP, MCON_EVENT_CLIENT_ERROR}) \<and>
    (\<forall>(i :: mcon_session_idx) b. unat i < length (sessions (inst w)) \<and> b \<in> {0, 1, 3} \<and>
       bit (sess_state (sessions (inst w) ! unat i)) b \<longrightarrow>
       bit (sess_state (sessions (inst w') ! unat i)) b)"
proof -
  note run = clean_runI [OF assms(2-4)]
  have "mcon_inv V (inst w')"
    by (rule clean_keeps(1) [OF assms(1) clean_steps [OF assms(1) run assms(6,7)]])
  then show ?thesis
    using steps_starved [OF assms(1) run assms(5-7)] submit_starved [OF assms(1), of w']
      starved_pending [OF assms(1) run assms(5-7)]
    by (auto simp: notices_def)
qed

theorem starved_forever_witness:
  "\<exists>rc w'. api_run ref_libs (snd starving_reading) Call_submit = Some (rc, w') \<and>
    starved ref_views (inst w') \<and> sess_state (sessions (inst w') ! 0) AND MCON_SESSION_STATE_READING \<noteq> 0"
proof -
  have allowed: "call_allowed (snd starving_reading) Call_submit" by simp
  have here: "reachable ref_libs ref_views (fst starving_reading) (snd starving_reading)"
    "registered (fst starving_reading)" "getsockopt_documented (os (snd starving_reading))"
    using starving_run by (simp_all add: clean_run_def)
  obtain rc w' where run: "api_run ref_libs (snd starving_reading) Call_submit = Some (rc, w')"
    using api_runs [OF ref_libs_ok clean_keeps(1) [OF ref_libs_ok starving_run] allowed] by blast
  have "mcon_steps ref_libs ref_views (snd starving_reading) [] w'"
    using mcon_steps.more [OF mcon_steps.stop mcon_step.api [OF allowed run]] by simp
  note out = starved_forever [OF ref_libs_ok here starving_starved this registered_simps(1)]
  moreover have "bit (sess_state (sessions (inst w') ! unat (0 :: mcon_session_idx))) 0"
    using out [THEN conjunct2, THEN conjunct2, THEN conjunct2, rule_format, of 0 0]
    by (simp add: starving_state)
  ultimately show ?thesis
    using run by (auto simp: u8_single_masks)
qed

end
