(* ===== verification/Progress.thy ===== *)
theory Progress
  imports Starvation
begin

text \<open>
  That requests make progress. In a run without refused accepts the counter of submitted requests is
  exact and the queue always has its entries in the groups of their operations; so every round of
  completions, event and submission takes at least one request of a session off the queue, and after
  as many rounds as there are requests all have been answered. The metric is the number of requests
  of sessions that wait in the queue.
\<close>

subsection \<open>The queue stays sorted\<close>

abbreviation queue_sorted :: "('s, 'q, 'r) views \<Rightarrow> ('s, 'q, 'r) world \<Rightarrow> bool" where
  "queue_sorted V w \<equiv> io_queue_sorted V (m_io_queue (inst w))"

lemma enqueue_accept_sorted:
  "libs_ok L V \<Longrightarrow> enqueue_accept L w = (rc, w') \<Longrightarrow> queue_sorted V w \<Longrightarrow> queue_sorted V w'"
  by (auto simp: enqueue_accept_def Let_def io_queue_push_sorted split: if_splits prod.splits)

lemma accept_loop_sorted:
  assumes "accept_loop L w = Some w'"
  shows "libs_ok L V \<longrightarrow> queue_sorted V w \<longrightarrow> queue_sorted V w'"
  using assms
proof (induction rule: accept_loop.raw_induct [rotated, consumes 1, case_names round])
  case (round loop L w w')
  show ?case
  proof (intro impI)
    assume laws: "libs_ok L V" and sorted: "queue_sorted V w"
    obtain rc w1 where enq: "enqueue_accept L w = (rc, w1)" by force
    from enqueue_accept_sorted [OF laws enq sorted] round enq laws sorted
    show "queue_sorted V w'"
      by (fastforce simp: Let_def split: if_splits)
  qed
qed

lemma submit_sorted:
  assumes laws: "libs_ok L V" and inv: "mcon_inv V (inst w)" and sorted: "queue_sorted V w"
    and run: "mcon_submit L w = Some (rc, w')"
  shows "queue_sorted V w'"
proof -
  obtain w1 where w1: "(if accepts_requested (m_state (inst w)) then accept_loop L w else Some w) =
      Some w1" "mcon_inv V (inst w1)"
    using accept_loop_runs [OF laws inv] inv by (cases "accepts_requested (m_state (inst w))") auto
  then have "queue_sorted V w1"
    using accept_loop_sorted [of L w w1 V] laws sorted by (auto split: if_splits)
  with io_queue_pop_spec [OF laws mcon_inv_waiting_bound [OF w1(2)] refl,
      where cnt = "sqe_limit (inst w1)" and ring = "ring (inst w1)"]
  show ?thesis
    using run w1(1) by (auto simp: mcon_submit_def sqe_limit_def Let_def split: if_splits prod.splits)
qed

text \<open>A kernel whose epoll takes every descriptor.\<close>

definition epoll_accepts :: "kernel \<Rightarrow> bool" where
  "epoll_accepts k \<longleftrightarrow> (\<forall>t ep fd e. rv (answers k t (Epoll_ctl ep EPOLL_CTL_ADD fd e)) = 0)"

lemma epoll_accepts_call: "epoll_accepts k \<Longrightarrow> rv (answer k (accept_call m fd i)) = 0"
  by (simp add: epoll_accepts_def answer_def accept_call_def)

lemma process_cqe_queue:
  assumes laws: "libs_ok L V" and inv: "mcon_inv V (inst w)"
    and peek: "ur_peek_cqe (urg L) r0 = (0, p, ring (inst w))"
    and room: "ec < mx" "unat mx \<le> length (evbuf w)"
    and run: "process_cqe L w p ec mx = Some (err, w')"
  shows "m_io_queue (inst w') = m_io_queue (inst w) \<and> (epoll_accepts (os w) \<longrightarrow> 0 \<le> err)"
proof (rule peeked_completion [OF laws inv peek room], goal_cases)
  case 1
  show ?case
    by (cases rule: process_accept_cases [OF laws inv 1(1-3)])
      (use run 1(4) in \<open>auto simp: epoll_accepts_call\<close>)
next
  case (2 oper i)
  have i: "unat i < length (sessions (inst w))"
    using completed_session(1) [OF laws 2(1) inv] 2(4) by auto
  note runs = rdc.completes [OF 2(2,3), of "io_entry oper i" L p, unfolded io_entry_sel, OF i]
    wrc.completes [OF 2(2,3), of "io_entry oper i" L p, unfolded io_entry_sel, OF i]
    drc.completes [OF 2(2,3), of "io_entry oper i" L p, unfolded io_entry_sel, OF i]
  show ?case
  proof (cases "oper = MCON_IO_SESSION_CLOSE")
    case True
    show ?thesis
      by (rule process_close_runs [OF laws inv 2(1) [unfolded True] 2(2,3)])
        (use run 2(4) True in auto)
  next
    case False
    then show ?thesis
      using run 2(4) runs by auto
  qed
qed

text \<open>
  A ring whose kernel has completed all it was given: peeking finds a completion as long as a request
  is live, and so it is after one is consumed.
\<close>

definition stays_completed ::
  "('s, 'q, 'r) libs \<Rightarrow> ('s, 'q, 'r) views \<Rightarrow> ('r \<Rightarrow> bool) \<Rightarrow> bool" where
  "stays_completed L V all_done \<longleftrightarrow>
     (\<forall>r rc p r'. all_done r \<longrightarrow> ur_peek_cqe (urg L) r = (rc, p, r') \<longrightarrow>
        all_done r' \<and> (vw_live V r \<noteq> {#} \<longrightarrow> rc = 0) \<and>
        (rc = 0 \<longrightarrow> all_done (ur_cqe_seen (urg L) r' p)))"

lemma peek_cqe_ring:
  assumes "libs_ok L V" "peek_cqe L w = (rc, p, w')"
  shows "m_io_queue (inst w') = m_io_queue (inst w)"
    "vw_sq V (ring (inst w')) = vw_sq V (ring (inst w))"
    "rc = 0 \<Longrightarrow> vw_sq V (ur_cqe_seen (urg L) (ring (inst w')) p) = vw_sq V (ring (inst w))"
    "stays_completed L V all_done \<Longrightarrow> all_done (ring (inst w)) \<Longrightarrow>
       all_done (ring (inst w')) \<and> (vw_live V (ring (inst w)) \<noteq> {#} \<longrightarrow> rc = 0) \<and>
       (rc = 0 \<longrightarrow> all_done (ur_cqe_seen (urg L) (ring (inst w')) p))"
proof -
  obtain r where peek: "ur_peek_cqe (urg L) (ring (inst w)) = (rc, p, r)"
    and w': "w' = w\<lparr>inst := (inst w)\<lparr>ring := r\<rparr>\<rparr>"
    using assms(2) by (auto simp: peek_cqe_def split: prod.splits)
  show "m_io_queue (inst w') = m_io_queue (inst w)"
    by (simp add: w')
  show sq: "vw_sq V (ring (inst w')) = vw_sq V (ring (inst w))"
    using libs_peek [OF assms(1) peek] by (simp add: w')
  show "vw_sq V (ur_cqe_seen (urg L) (ring (inst w')) p) = vw_sq V (ring (inst w))" if "rc = 0"
    using libs_peek_found(3) [OF assms(1), of "ring (inst w)" p r] peek that sq by (simp add: w')
  show "all_done (ring (inst w')) \<and> (vw_live V (ring (inst w)) \<noteq> {#} \<longrightarrow> rc = 0) \<and>
       (rc = 0 \<longrightarrow> all_done (ur_cqe_seen (urg L) (ring (inst w')) p))"
    if "stays_completed L V all_done" "all_done (ring (inst w))"
  proof -
    have "all_done r \<and> (vw_live V (ring (inst w)) \<noteq> {#} \<longrightarrow> rc = 0) \<and>
        (rc = 0 \<longrightarrow> all_done (ur_cqe_seen (urg L) r p))"
      using that peek unfolding stays_completed_def by blast
    then show ?thesis by (simp add: w')
  qed
qed

lemma count_consumed_ring:
  assumes "libs_ok L V"
  shows "m_io_queue (inst (count_consumed L p w)) = m_io_queue (inst w)"
    "vw_sq V (ring (inst (count_consumed L p w))) = vw_sq V (ring (inst w))"
    "stays_completed L V all_done \<Longrightarrow> all_done (ring (inst w)) \<Longrightarrow>
       all_done (ring (inst (count_consumed L p w)))"
proof -
  obtain rc q w1 where pk: "peek_cqe L w = (rc, q, w1)" by (cases "peek_cqe L w") auto
  note same = peek_cqe_ring [OF assms pk]
  show "m_io_queue (inst (count_consumed L p w)) = m_io_queue (inst w)"
    "vw_sq V (ring (inst (count_consumed L p w))) = vw_sq V (ring (inst w))"
    using same(1,2) by (simp_all add: count_consumed_def pk)
  show "all_done (ring (inst (count_consumed L p w)))"
    if "stays_completed L V all_done" "all_done (ring (inst w))"
    using same(4) [OF that] by (simp add: count_consumed_def pk)
qed

text \<open>How far the counter is ahead of the requests the ring holds.\<close>

definition counter_excess :: "('s, 'q, 'r) views \<Rightarrow> ('s, 'q, 'r) world \<Rightarrow> u16" where
  "counter_excess V w = sqe_in_flight (m_state (inst w)) - of_nat (size (vw_live V (ring (inst w))))"

text \<open>The loop leaves the queue and the staged entries alone. With an epoll that takes every
  descriptor it counts all it consumes, and on a ring with all requests completed and enough places
  for events it consumes them all.\<close>

lemma ring_loop_accounts:
  assumes laws: "libs_ok L V" and "mcon_inv V (inst w)"
    and "unat ec \<le> unat mx" "unat mx \<le> length (evbuf w)"
    and "ring_loop L mx ec ic w = Some (ec', ic', w')"
  shows "m_io_queue (inst w') = m_io_queue (inst w) \<and>
    vw_sq V (ring (inst w')) = vw_sq V (ring (inst w)) \<and>
    (epoll_accepts (os w) \<longrightarrow> counter_excess V w' = counter_excess V w \<and>
       (stays_completed L V all_done \<and> all_done (ring (inst w)) \<and>
        unat ec + size (vw_live V (ring (inst w))) \<le> unat mx \<longrightarrow>
        vw_live V (ring (inst w')) = {#}))"
  using assms(2-5)
proof (induction "size (vw_live V (ring (inst w)))" arbitrary: w ec ic rule: less_induct)
  case less
  obtain rc p w1 where pk: "peek_cqe L w = (rc, p, w1)"
    by (cases "peek_cqe L w") auto
  note same = peek_cqe_frame [OF laws pk] peek_cqe_ring [OF laws pk]
  show ?case
  proof (cases "ec < mx \<and> rc = 0")
    case False
    with less.prems(4) pk have w': "w' = w1"
      by (subst (asm) ring_loop.simps) auto
    have "vw_live V (ring (inst w)) = {#}"
      if "stays_completed L V all_done" "all_done (ring (inst w))"
        "unat ec + size (vw_live V (ring (inst w))) \<le> unat mx"
    proof (rule ccontr)
      assume live: "vw_live V (ring (inst w)) \<noteq> {#}"
      then have "0 < size (vw_live V (ring (inst w)))"
        by (simp add: nonempty_has_size)
      with that(3) have "ec < mx"
        by (simp add: word_less_nat_alt)
      with same(13) [OF that(1,2)] live False show False by simp
    qed
    then show ?thesis
      using same by (simp add: w' counter_excess_def)
  next
    case True
    then obtain r0 where peek: "ur_peek_cqe (urg L) r0 = (0, p, ring (inst w1))"
      using same(9) by blast
    from True obtain err w2 where run: "process_cqe L w1 p ec mx = Some (err, w2)"
      and h: "handled L p (unat ec) w1 err w2" and inv2: "mcon_inv V (inst w2)"
      using process_cqe_keeps_inv [OF laws _ peek] less.prems same by fastforce
    have ring2: "ring (inst w2) = ur_cqe_seen (urg L) (ring (inst w1)) p"
      and kern: "answers (os w2) = answers (os w1)"
      using h by (simp_all add: handled_def)
    have q: "m_io_queue (inst w2) = m_io_queue (inst w) \<and> (epoll_accepts (os w) \<longrightarrow> 0 \<le> err)"
      using process_cqe_queue [OF laws _ peek _ _ run] less.prems True same by auto
    note live = handled_live [OF laws peek h]
    note round = ring_loop_step [OF pk [unfolded conjunct2 [OF True]] conjunct1 [OF True] run, of ic]
    show ?thesis
    proof (cases "err < 0")
      case err: True
      with less.prems(4) round have "w' = w2" by auto
      then show ?thesis
        using q err same True ring2 by auto
    next
      case err: False
      let ?w3 = "count_consumed L p w2" and ?ec = "ec + word_of_int err"
      note cnt = count_consumed_seen [OF laws peek ring2] count_consumed_ring [OF laws, where p = p and w = w2]
      have ec: "unat ?ec = unat ec + nat err" "err = 0 \<or> err = 1" "unat ?ec \<le> unat mx"
        using True err h unat_plus_one [of ec mx]
        by (auto simp: handled_def word_less_nat_alt)
      have rec: "ring_loop L mx ?ec (ic + 1) ?w3 = Some (ec', ic', w')"
        using less.prems(4) round err by simp
      have room: "unat mx \<le> length (evbuf ?w3)"
        using less.prems h same cnt by (auto simp: handled_def)
      have inv3: "mcon_inv V (inst ?w3)"
        using inv2 cnt by simp
      have size: "Suc (size (vw_live V (ring (inst ?w3)))) = size (vw_live V (ring (inst w)))"
        using live same cnt by simp
      note IH = less.hyps [OF _ inv3 ec(3) room rec]
      have leak: "counter_excess V ?w3 = counter_excess V w"
        using h same cnt size by (simp add: counter_excess_def handled_def flip: size)
      have acc: "epoll_accepts (os ?w3) = epoll_accepts (os w)"
        using kern same cnt by (simp add: epoll_accepts_def)
      have idle: "all_done (ring (inst ?w3))"
        if "stays_completed L V all_done" "all_done (ring (inst w))"
        using same(13) [OF that] True cnt(10) [OF that(1)] ring2 by simp
      have "unat ?ec + size (vw_live V (ring (inst ?w3))) \<le> unat mx"
        if "unat ec + size (vw_live V (ring (inst w))) \<le> unat mx"
        using that ec size by auto
      then show ?thesis
        using IH size leak acc idle q same(10-12) True ring2 cnt(8,9) by auto
    qed
  qed
qed

subsection \<open>Every step keeps the queue sorted\<close>

lemma io_uring_event_accounts:
  assumes laws: "libs_ok L V" and inv: "mcon_inv V (inst w)" and room: "unat cap \<le> length (evbuf w)"
    and run: "mcon_process_io_uring_event L w cap = Some (rc, w')"
  shows "m_io_queue (inst w') = m_io_queue (inst w)"
    "vw_sq V (ring (inst w')) = vw_sq V (ring (inst w))"
    "configuration (inst w') = configuration (inst w)" "length (evbuf w') = length (evbuf w)"
    "size (vw_live V (ring (inst w'))) \<le> size (vw_live V (ring (inst w)))"
    "epoll_accepts (os w) \<Longrightarrow> counter_excess V w' = counter_excess V w"
    "epoll_accepts (os w) \<Longrightarrow> stays_completed L V all_done \<Longrightarrow> all_done (ring (inst w)) \<Longrightarrow>
       size (vw_live V (ring (inst w))) \<le> unat cap \<Longrightarrow> vw_live V (ring (inst w')) = {#}"
proof -
  obtain ec ic v where loop: "ring_loop L cap 0 0 w = Some (ec, ic, v)" "loop_result V cap 0 w ec v"
    using ring_loop_runs [OF laws inv, of 0 cap 0] room by auto
  have w': "inst w' = inst v" "evbuf w' = evbuf v"
    using run loop(1) by (auto simp: mcon_process_io_uring_event_def)
  note acc = ring_loop_accounts [OF laws inv _ room loop(1), where all_done = all_done, simplified]
  show "m_io_queue (inst w') = m_io_queue (inst w)"
    "vw_sq V (ring (inst w')) = vw_sq V (ring (inst w))"
    "configuration (inst w') = configuration (inst w)" "length (evbuf w') = length (evbuf w)"
    "size (vw_live V (ring (inst w'))) \<le> size (vw_live V (ring (inst w)))"
    "epoll_accepts (os w) \<Longrightarrow> counter_excess V w' = counter_excess V w"
    "epoll_accepts (os w) \<Longrightarrow> stays_completed L V all_done \<Longrightarrow> all_done (ring (inst w)) \<Longrightarrow>
       size (vw_live V (ring (inst w))) \<le> unat cap \<Longrightarrow> vw_live V (ring (inst w')) = {#}"
    using acc loop(2) by (auto simp: w' loop_result_def counter_excess_def)
qed

lemma session_event_frame:
  assumes "mcon_inv V (inst w)" "unat cap \<le> length (evbuf w)"
    and "mcon_process_session_event w e d cap = Some (rc, w')"
  shows "m_io_queue (inst w') = m_io_queue (inst w)" "ring (inst w') = ring (inst w)"
    "m_state (inst w') = m_state (inst w)" "configuration (inst w') = configuration (inst w)"
  using session_event_core [OF assms(1,2), of e d] assms(3) by (auto split: if_splits)

text \<open>What an event leaves of an accounting that the completions of the ring keep.\<close>

lemma process_event_cases:
  assumes "mcon_inv V (inst w)" "unat cap \<le> length (evbuf w)"
    and run: "mcon_process_event L w ev cap = Some (rc, w')"
  obtains (ring) rc' where "mcon_process_io_uring_event L w cap = Some (rc', w')"
  | (other) "m_io_queue (inst w') = m_io_queue (inst w)" "ring (inst w') = ring (inst w)"
      "sqe_in_flight (m_state (inst w')) = sqe_in_flight (m_state (inst w))"
      "configuration (inst w') = configuration (inst w)"
  using run session_event_frame [OF assms(1,2)]
  by (auto simp: mcon_process_event_def mcon_process_server_socket_event_def Let_def
      split: if_splits mcon_epoll_source.splits)

lemma step_sorted:
  assumes laws: "libs_ok L V" and inv: "mcon_inv V (inst w)" and sorted: "queue_sorted V w"
    and step: "mcon_step L V w as w'"
  shows "queue_sorted V w'"
  using step
proof cases
  case (api a rc)
  show ?thesis
  proof (cases a)
    case (Call_request s c)
    with api sorted show ?thesis
      using run_request_ring [OF laws inv] by simp
  next
    case (Call_detach s)
    with api sorted show ?thesis
      using detach_ring [OF laws inv] by simp
  next
    case Call_submit
    with api sorted show ?thesis
      using submit_sorted [OF laws inv] by simp
  next
    case (Call_event ev cap)
    with api have room: "unat cap \<le> length (evbuf w)"
      and run: "mcon_process_event L w ev cap = Some (rc, w')" by simp_all
    show ?thesis
      by (cases rule: process_event_cases [OF inv room run])
        (use sorted io_uring_event_accounts(1) [OF laws inv room] in auto)
  next
    case (Call_start lfd epfd)
    with api sorted show ?thesis
      using start_ring [of w lfd epfd rc w'] by simp
  next
    case Call_shutdown
    with api sorted show ?thesis
      using shutdown_ring [of w rc w'] by simp
  qed
qed (use sorted in simp_all)

lemma created_state:
  assumes "mcon_create L config c k = (0, Some m, c', k')"
  shows "ring m = ur_new (urg L) (ucast (cfg_io_uring_queue_size config))"
    "m_io_queue m = \<lparr>ioq_queue = kq_new (kqs L) (cfg_io_queue_size config) 5\<rparr>"
    "sqe_in_flight (m_state m) = 0"
  by (rule mcon_create_cases [OF assms, where R = "{#}"]; simp;
      metis mcon.select_convs mcon_state.select_convs)+

lemma reachable_sorted:
  assumes "libs_ok L V" "reachable L V log w" "registered log"
  shows "queue_sorted V w"
  using assms(2,3)
proof induction
  case (created config c k m c' k' b)
  then show ?case
    using libs_kq_new [OF assms(1)] created_state [OF created(1)] by (simp add: io_queue_sorted_def)
next
  case (step log w as w')
  then show ?case
    using step_sorted [OF assms(1) _ _ step.hyps(2)] reachable_inv [OF assms(1) step.hyps(1)] by simp
qed

subsection \<open>The counter is exact unless epoll refuses\<close>

text \<open>Every submission takes all that is staged.\<close>

definition lossless :: "('s, 'q, 'r) libs \<Rightarrow> ('s, 'q, 'r) views \<Rightarrow> bool" where
  "lossless L V \<longleftrightarrow> (\<forall>r. fst (ur_submit (urg L) r) = int (length (vw_sq V r)))"

definition accounted :: "('s, 'q, 'r) views \<Rightarrow> ('s, 'q, 'r) world \<Rightarrow> bool" where
  "accounted V w \<longleftrightarrow> vw_sq V (ring (inst w)) = [] \<and> counter_excess V w = 0 \<and>
     size (vw_live V (ring (inst w))) \<le> unat (cfg_io_uring_queue_size (configuration (inst w)))"

lemma accounted_counter:
  assumes "accounted V w"
  shows "unat (sqe_in_flight (m_state (inst w))) = size (vw_live V (ring (inst w)))"
proof -
  have "size (vw_live V (ring (inst w))) < 65536"
    using assms unat_u16_bound [of "cfg_io_uring_queue_size (configuration (inst w))"]
    by (simp add: accounted_def)
  moreover have "sqe_in_flight (m_state (inst w)) = of_nat (size (vw_live V (ring (inst w))))"
    using assms by (simp add: accounted_def counter_excess_def)
  ultimately show ?thesis
    by (simp add: unat_of_nat)
qed

lemma accounted_same:
  assumes "ring (inst w') = ring (inst w)" "configuration (inst w') = configuration (inst w)"
    and "sqe_in_flight (m_state (inst w')) = sqe_in_flight (m_state (inst w))"
  shows "accounted V w' = accounted V w"
  using assms by (simp add: accounted_def counter_excess_def)

lemma submit_accounts:
  assumes laws: "libs_ok L V" and inv: "mcon_inv V (inst w)" and full: "lossless L V"
    and acc: "accounted V w"
  obtains n w1 w' where "mcon_submit L w = Some (int n, w')" "mcon_inv V (inst w')" "accounted V w'"
    and "accepts_queued L V w w1" "n = submit_size L V (inst w1)"
    and "pending V (inst w') = pending V (inst w1)"
    and "vw_live V (ring (inst w')) = vw_live V (ring (inst w)) +
      mset (map sqe_user_data (take n (io_queue_contents V (m_io_queue (inst w1)))))"
    and "io_queue_contents V (m_io_queue (inst w')) =
      drop n (io_queue_contents V (m_io_queue (inst w1)))"
    and "configuration (inst w') = configuration (inst w)" "evbuf w' = evbuf w"
    and "sessions (inst w') = sessions (inst w)" "answers (os w') = answers (os w)"
    and "queue_sorted V w \<Longrightarrow> queue_sorted V w1"
proof -
  obtain rc w1 w' where run: "mcon_submit L w = Some (rc, w')" "mcon_inv V (inst w')"
    "pending V (inst w') = pending V (inst w1)"
    and queued: "accepts_queued L V w w1" and sub: "submitted L V w1 rc w'"
    and loop: "accepts_requested (m_state (inst w)) \<Longrightarrow> accept_loop L w = Some w1"
      "\<not> accepts_requested (m_state (inst w)) \<Longrightarrow> w1 = w"
    using submit_runs [OF laws inv] by blast
  let ?ws = "io_queue_contents V (m_io_queue (inst w1))"
  define n where "n = submit_size L V (inst w1)"
  have same: "ring (inst w1) = ring (inst w)" "configuration (inst w1) = configuration (inst w)"
    "sqe_in_flight (m_state (inst w1)) = sqe_in_flight (m_state (inst w))"
    using queued by (auto simp: accepts_queued_def Let_def)
  then have sq: "vw_sq V (ring (inst w1)) = []"
    using acc by (simp add: accounted_def)
  note res = submitted_in_full [OF sub sq, folded n_def] full [unfolded lossless_def]
  let ?size = "cfg_io_uring_queue_size (configuration (inst w))"
    and ?fl = "sqe_in_flight (m_state (inst w))"
  have le: "unat ?fl \<le> unat ?size"
    using accounted_counter [OF acc] acc by (simp add: accounted_def)
  then have "unat (sqe_limit (inst w1)) = unat ?size - unat ?fl"
    by (simp add: sqe_limit_def same unat_sub word_le_nat_alt)
  then have n: "n \<le> unat ?size - unat ?fl" "n \<le> length ?ws"
    by (simp_all add: n_def submit_size_def)
  have size: "size (vw_live V (ring (inst w'))) = size (vw_live V (ring (inst w))) + n"
    using res n(2) by (simp add: same)
  have "accounted V w'"
    using res n(1) le size accounted_counter [OF acc] acc same
    by (simp add: accounted_def counter_excess_def)
  moreover have "io_queue_contents V (m_io_queue (inst w')) = drop n ?ws"
    "sessions (inst w') = sessions (inst w)" "answers (os w') = answers (os w)" "evbuf w' = evbuf w"
    using queued sub by (auto simp: submitted_def accepts_queued_def Let_def n_def)
  moreover have "queue_sorted V w1" if "queue_sorted V w"
    using loop accept_loop_sorted [of L w w1 V] laws that by (cases "accepts_requested (m_state (inst w))") auto
  ultimately show ?thesis
    using run queued res same
    by (intro that [of n w' w1]) (auto simp: n_def)
qed

lemma step_accounted:
  assumes laws: "libs_ok L V" and inv: "mcon_inv V (inst w)" and full: "lossless L V"
    and epoll: "epoll_accepts (os w)" and acc: "accounted V w" and step: "mcon_step L V w as w'"
  shows "accounted V w'"
  using step
proof cases
  case (api a rc)
  show ?thesis
  proof (cases a)
    case (Call_request s c)
    with api acc show ?thesis
      using run_request_ring [OF laws inv, of s c rc w'] accounted_same [of w' w V] by simp
  next
    case (Call_detach s)
    with api acc show ?thesis
      using detach_ring [OF laws inv, of s rc w'] accounted_same [of w' w V] by simp
  next
    case Call_submit
    with api show ?thesis
      by (auto intro: submit_accounts [OF laws inv full acc])
  next
    case (Call_event ev cap)
    with api have room: "unat cap \<le> length (evbuf w)"
      and run: "mcon_process_event L w ev cap = Some (rc, w')" by simp_all
    show ?thesis
    proof (cases rule: process_event_cases [OF inv room run])
      case (1 rc')
      note io_uring_event_accounts [OF laws inv room 1]
      with epoll acc show ?thesis by (simp add: accounted_def)
    next
      case 2
      with acc accounted_same [of w' w V] show ?thesis by simp
    qed
  next
    case (Call_start lfd epfd)
    with api acc show ?thesis
      using start_ring [of w lfd epfd rc w'] accounted_same [of w' w V] by simp
  next
    case Call_shutdown
    with api acc show ?thesis
      using shutdown_ring [of w rc w'] accounted_same [of w' w V] by simp
  qed
qed (use acc in \<open>simp_all add: accounted_def counter_excess_def\<close>)

lemma epoll_accepts_cong: "answers k' = answers k \<Longrightarrow> epoll_accepts k' = epoll_accepts k"
  by (simp add: epoll_accepts_def)

lemma reachable_accounted:
  assumes laws: "libs_ok L V" and full: "lossless L V"
    and "reachable L V log w" "registered log" "epoll_accepts (os w)"
  shows "accounted V w"
  using assms(3-5)
proof induction
  case (created config c k m c' k' b)
  then show ?case
    using libs_ur_new [OF laws] created_state [OF created(1)]
    by (simp add: accounted_def counter_excess_def)
next
  case (step log w as w')
  have inv: "mcon_inv V (inst w)"
    using reachable_inv [OF laws step.hyps(1)] step.prems by simp
  have "epoll_accepts (os w)"
    using step.prems epoll_accepts_cong [OF step_answers [OF laws inv step.hyps(2)]] by blast
  with step inv show ?case
    using step_accounted [OF laws _ full _ _ step.hyps(2)] by simp
qed

subsection \<open>Rounds of service\<close>

text \<open>
  The requests of sessions, waiting in the queue and pending altogether. Accepts are left out: they
  belong to no session and have the lowest priority.
\<close>

abbreviation for_session :: "io_uring_sqe \<Rightarrow> bool" where
  "for_session e \<equiv> sqe_operation e \<noteq> MCON_IO_SESSION_ACCEPT"

definition session_waiting :: "('s, 'q, 'r) views \<Rightarrow> ('s, 'q, 'r) world \<Rightarrow> nat" where
  "session_waiting V w = length (filter for_session (io_queue_contents V (m_io_queue (inst w))))"

definition session_pending :: "('s, 'q, 'r) views \<Rightarrow> ('s, 'q, 'r) world \<Rightarrow> nat" where
  "session_pending V w =
     size (filter_mset (\<lambda>e. io_operation e \<noteq> MCON_IO_SESSION_ACCEPT) (pending V (inst w)))"

lemma filter_drop_prefix:
  fixes key :: "'a \<Rightarrow> nat"
  assumes "sorted (map key xs)" "\<And>x. x \<in> set xs \<Longrightarrow> P x \<longleftrightarrow> key x < c"
  shows "filter P (drop n xs) = drop n (filter P xs)"
  using assms
proof (induction xs arbitrary: n)
  case (Cons x xs)
  show ?case
  proof (cases "P x \<or> n = 0")
    case True
    with Cons show ?thesis by (cases n) auto
  next
    case False
    then have "filter P xs = []"
      using Cons.prems by (fastforce simp: filter_empty_conv)
    moreover from this have "filter P (drop m xs) = []" for m
      by (metis filter_empty_conv in_set_dropD)
    ultimately show ?thesis
      using False by (cases n) auto
  qed
qed simp

lemma for_session_priority:
  "io_priority (sqe_operation e) = Some p \<Longrightarrow> for_session e \<longleftrightarrow> sqe_priority e < 4"
  by (cases "sqe_operation e") (auto simp: sqe_priority_def)

text \<open>Taking a prefix of the queue takes requests of sessions first.\<close>

lemma sessions_first:
  assumes "queue_sorted V w"
  shows "filter for_session (drop n (io_queue_contents V (m_io_queue (inst w)))) =
    drop n (filter for_session (io_queue_contents V (m_io_queue (inst w))))"
proof (rule filter_drop_prefix [OF contents_sorted [OF assms]])
  fix e assume "e \<in> set (io_queue_contents V (m_io_queue (inst w)))"
  then obtain p where "io_priority (sqe_operation e) = Some p"
    using assms by (auto simp: io_queue_contents_def io_queue_sorted_def)
  then show "for_session e \<longleftrightarrow> sqe_priority e < 4"
    by (rule for_session_priority)
qed

lemma session_waiting_mset:
  "session_waiting V w = size (filter_mset (\<lambda>e. io_operation e \<noteq> MCON_IO_SESSION_ACCEPT)
     (image_mset io_uring_entry_of_data (io_queue_waiting V (m_io_queue (inst w)))))"
  by (simp add: session_waiting_def io_queue_waiting_def sqe_operation_def o_def filter_map
      flip: mset_map mset_filter)

lemma accepts_queued_sessions:
  assumes "accepts_queued L V w w1"
  shows "session_waiting V w1 = session_waiting V w" "session_pending V w1 = session_pending V w"
proof -
  have "io_uring_entry_of_data (io_uring_data_of_entry accept_entry) = accept_entry"
    by (rule io_codec.dec_enc) (simp add: accept_entry_def io_entry_proper_def operation_of_code_def)
  then show "session_waiting V w1 = session_waiting V w"
    by (simp add: session_waiting_mset accepts_queued_waiting [OF assms]) (simp add: accept_entry_def)
  show "session_pending V w1 = session_pending V w"
    using assms by (simp add: session_pending_def accepts_queued_def Let_def) (simp add: accept_entry_def)
qed

lemma session_waiting_le: "session_waiting V w \<le> size (pending V (inst w))"
  by (auto simp: session_waiting_mset pending_def intro!: order_trans [OF size_filter_mset_lesseq])

lemma nothing_pending:
  fixes i :: mcon_session_idx
  assumes "mcon_inv V (inst w)" "session_pending V w = 0" "unat i < length (sessions (inst w))"
    and "b \<in> {0, 1, 3}"
  shows "\<not> bit (sess_state (sessions (inst w) ! unat i)) b"
proof -
  have "count (pending V (inst w)) (io_entry oper i) = 0" if "oper \<noteq> MCON_IO_SESSION_ACCEPT" for oper
    using assms(2) that by (fastforce simp: session_pending_def count_eq_zero_iff)
  then show ?thesis
    using mcon_inv_session [OF assms(1,3)] assms(4) by (auto simp: session_ok_def)
qed

text \<open>
  A round: the kernel completes what it was given (\<open>finish\<close> is its effect on the ring), the client
  hands the event of the ring to the library and submits.
\<close>

definition ring_ready :: "('s, 'q, 'r) mcon \<Rightarrow> epoll_event" where
  "ring_ready m = \<lparr>ep_events = EPOLLIN,
     ep_data = mcon_encode_epoll_entry (server_entry m MCON_EPOLL_SOURCE_IO_URING)\<rparr>"

definition service ::
  "('s, 'q, 'r) libs \<Rightarrow> ('r \<Rightarrow> 'r) \<Rightarrow> u32 \<Rightarrow> ('s, 'q, 'r) world \<Rightarrow>
   (action list \<times> ('s, 'q, 'r) world) option" where
  "service L finish cap w =
     do { let w1 = w\<lparr>inst := (inst w)\<lparr>ring := finish (ring (inst w))\<rparr>\<rparr>;
          let a = Call_event (ring_ready (inst w1)) cap;
          (rc, w2) \<leftarrow> api_run L w1 a;
          (_, w3) \<leftarrow> api_run L w2 Call_submit;
          Some (api_log a rc w2, w3) }"

primrec serve ::
  "('s, 'q, 'r) libs \<Rightarrow> ('r \<Rightarrow> 'r) \<Rightarrow> u32 \<Rightarrow> nat \<Rightarrow> ('s, 'q, 'r) world \<Rightarrow>
   (action list \<times> ('s, 'q, 'r) world) option" where
  "serve L finish cap 0 w = Some ([], w)"
| "serve L finish cap (Suc n) w =
     do { (as, w1) \<leftarrow> service L finish cap w;
          (bs, w2) \<leftarrow> serve L finish cap n w1;
          Some (as @ bs, w2) }"

text \<open>The kernel completes every request; a ring with nothing staged has a free slot.\<close>

definition completes_all ::
  "('s, 'q, 'r) libs \<Rightarrow> ('s, 'q, 'r) views \<Rightarrow> ('r \<Rightarrow> 'r) \<Rightarrow> bool" where
  "completes_all L V finish \<longleftrightarrow> (\<exists>all_done. stays_completed L V all_done \<and>
     (\<forall>r. all_done (finish r) \<and> vw_sq V (finish r) = vw_sq V r \<and> vw_live V (finish r) = vw_live V r))"

definition has_slots :: "('s, 'q, 'r) libs \<Rightarrow> ('s, 'q, 'r) views \<Rightarrow> bool" where
  "has_slots L V \<longleftrightarrow> (\<forall>r. vw_sq V r = [] \<longrightarrow> 0 < ur_space (urg L) r)"

lemma ring_ready_routed:
  "instance_id m = instance_id (inst w) \<Longrightarrow>
   mcon_process_event L w (ring_ready m) cap = mcon_process_io_uring_event L w cap"
  by (simp add: ring_ready_def mcon_process_event_def mcon_owns_event_def epoll_codec.dec_enc
      epoll_entry_fits_def server_entry_def source_of_code_def mcon_is_valid_source_def Let_def)

lemma service_runs:
  assumes laws: "libs_ok L V" and full: "lossless L V" and slots: "has_slots L V"
    and kern: "completes_all L V finish" and reach: "reachable L V log w" "registered log"
    and epoll: "epoll_accepts (os w)"
    and cap: "unat (cfg_io_uring_queue_size (configuration (inst w))) \<le> unat cap"
      "unat cap \<le> length (evbuf w)" "unat cap < 2 ^ 31"
  shows "\<exists>as w'. service L finish cap w = Some (as, w') \<and> reachable L V (log @ as) w' \<and>
    registered as \<and> answers (os w') = answers (os w) \<and>
    epoll_accepts (os w') \<and> configuration (inst w') = configuration (inst w) \<and>
    length (evbuf w') = length (evbuf w) \<and> session_pending V w' = session_waiting V w \<and>
    session_waiting V w' \<le> session_waiting V w - 1"
proof -
  obtain all_done where all: "stays_completed L V all_done"
    "\<And>r. all_done (finish r)" "\<And>r. vw_sq V (finish r) = vw_sq V r" "\<And>r. vw_live V (finish r) = vw_live V r"
    using kern by (auto simp: completes_all_def)
  define w1 where "w1 = w\<lparr>inst := (inst w)\<lparr>ring := finish (ring (inst w))\<rparr>\<rparr>"
  have reach1: "reachable L V log w1"
    using reachable.step [OF reach(1) mcon_step.ring_progress [OF all(3,4)]] by (simp add: w1_def)
  have w1: "os w1 = os w" "evbuf w1 = evbuf w" "configuration (inst w1) = configuration (inst w)"
    "m_io_queue (inst w1) = m_io_queue (inst w)" "all_done (ring (inst w1))"
    using all(2) by (simp_all add: w1_def)
  note kept1 = reachable_inv [OF laws reach1 reach(2)]
  have acc1: "accounted V w1"
    using reachable_accounted [OF laws full reach1 reach(2)] epoll w1 by simp
  let ?a = "Call_event (ring_ready (inst w1)) cap"
  have allowed: "call_allowed w1 ?a"
    using cap w1 by simp
  obtain rc w2 where run2: "api_run L w1 ?a = Some (rc, w2)" "answers (os w2) = answers (os w1)"
    using api_runs [OF laws kept1 allowed] by blast
  have reach2: "reachable L V (log @ api_log ?a rc w2) w2" "registered (log @ api_log ?a rc w2)"
    using reachable.step [OF reach1 mcon_step.api [OF allowed run2(1)]] reach(2)
      registered_api_log [of ?a rc w2] by simp_all
  have "mcon_process_io_uring_event L w1 cap = Some (rc, w2)"
    using run2(1) ring_ready_routed [of "inst w1" w1 L cap] by simp
  note event = io_uring_event_accounts [OF laws _ _ this]
  have inv1: "mcon_inv V (inst w1)" and room1: "unat cap \<le> length (evbuf w1)"
    using kept1 cap w1 by simp_all
  have epoll2: "epoll_accepts (os w2)"
    using epoll epoll_accepts_cong [OF run2(2)] w1 by simp
  have w2: "m_io_queue (inst w2) = m_io_queue (inst w)" "vw_live V (ring (inst w2)) = {#}"
    "configuration (inst w2) = configuration (inst w)" "length (evbuf w2) = length (evbuf w)"
    using event [OF inv1 room1] epoll all(1) w1 acc1 cap(1) by (auto simp: accounted_def)
  have acc2: "accounted V w2"
    by (rule reachable_accounted [OF laws full reach2 epoll2])
  note inv2 = reachable_inv [OF laws reach2]
  have "vw_sq V (ring (inst w2)) = []"
    using acc2 by (simp add: accounted_def)
  then have owed: "session_pending V w2 = session_waiting V w"
    by (simp add: session_pending_def session_waiting_mset pending_def w2)
  show ?thesis
  proof (rule submit_accounts [OF laws inv2 full acc2], goal_cases)
    case (1 n v w3)
    let ?ws = "io_queue_contents V (m_io_queue (inst v))"
    have "reachable L V (log @ api_log ?a rc w2) w3"
      using reachable.step [OF reach2(1) mcon_step.api [of w2 Call_submit L "int n" w3]] 1(1) by simp
    moreover have "service L finish cap w = Some (api_log ?a rc w2, w3)"
      using run2(1) 1(1) by (simp add: service_def Let_def flip: w1_def)
    moreover have "session_pending V w3 = session_waiting V w"
      using 1(6) owed accepts_queued_sessions(2) [OF 1(4)] by (simp add: session_pending_def)
    moreover have "session_waiting V w3 \<le> session_waiting V w - 1"
    proof -
      have waiting: "session_waiting V w = length (filter for_session ?ws)"
        using accepts_queued_sessions(1) [OF 1(4)] w2(1) by (simp add: session_waiting_def)
      have "filter for_session (drop n ?ws) = drop n (filter for_session ?ws)"
        by (rule sessions_first) (rule 1(13) [OF reachable_sorted [OF laws reach2]])
      then have "session_waiting V w3 = session_waiting V w - n"
        using 1(8) waiting by (simp add: session_waiting_def)
      moreover have "0 < n" if "?ws \<noteq> []"
      proof -
        have same: "ring (inst v) = ring (inst w2)" "configuration (inst v) = configuration (inst w2)"
          "sqe_in_flight (m_state (inst v)) = sqe_in_flight (m_state (inst w2))"
          using 1(4) by (auto simp: accepts_queued_def Let_def)
        have "sqe_in_flight (m_state (inst w2)) = 0"
          using accounted_counter [OF acc2] w2(2) by (simp add: unat_eq_0)
        then have "0 < unat (sqe_limit (inst v))"
          using validated_bounds(3) [OF mcon_inv_config(1) [OF inv2]] by (simp add: sqe_limit_def same)
        moreover have "0 < unat (ur_space (urg L) (ring (inst v)))"
          using slots acc2 by (simp add: has_slots_def accounted_def same word_less_nat_alt)
        ultimately show ?thesis
          using 1(5) that by (simp add: submit_size_def)
      qed
      ultimately show ?thesis
        using waiting by (cases "?ws = []") auto
    qed
    ultimately show ?case
      using 1(9,10,12) w1 w2 epoll2 epoll_accepts_cong [OF 1(12)] run2(2) reach2(2) by auto
  qed
qed

lemma serve_runs:
  assumes laws: "libs_ok L V" and full: "lossless L V" and slots: "has_slots L V"
    and kern: "completes_all L V finish"
  shows "reachable L V log w \<Longrightarrow> registered log \<Longrightarrow> epoll_accepts (os w) \<Longrightarrow>
    unat (cfg_io_uring_queue_size (configuration (inst w))) \<le> unat cap \<Longrightarrow>
    unat cap \<le> length (evbuf w) \<Longrightarrow> unat cap < 2 ^ 31 \<Longrightarrow>
    \<exists>as w'. serve L finish cap n w = Some (as, w') \<and> reachable L V (log @ as) w' \<and>
      registered as \<and> answers (os w') = answers (os w) \<and> configuration (inst w') = configuration (inst w) \<and>
      (0 < n \<and> session_waiting V w < n \<longrightarrow> session_pending V w' = 0)"
proof (induction n arbitrary: log w)
  case (Suc n)
  obtain as w1 where one: "service L finish cap w = Some (as, w1)" "reachable L V (log @ as) w1"
    "registered as" "answers (os w1) = answers (os w)"
    "epoll_accepts (os w1)" "configuration (inst w1) = configuration (inst w)"
    "length (evbuf w1) = length (evbuf w)" "session_pending V w1 = session_waiting V w"
    "session_waiting V w1 \<le> session_waiting V w - 1"
    using service_runs [OF laws full slots kern Suc.prems] by blast
  then obtain bs w2 where rest: "serve L finish cap n w1 = Some (bs, w2)"
    "reachable L V ((log @ as) @ bs) w2" "registered bs" "answers (os w2) = answers (os w1)"
    "configuration (inst w2) = configuration (inst w1)"
    "0 < n \<and> session_waiting V w1 < n \<longrightarrow> session_pending V w2 = 0"
    using Suc.IH [of "log @ as" w1] Suc.prems by auto
  have "session_pending V w2 = 0" if "session_waiting V w < Suc n"
  proof (cases "n = 0")
    case True
    with rest(1) one(8) that show ?thesis by simp
  next
    case False
    with rest(6) one(9) that show ?thesis by simp
  qed
  with one(1,3,4,6) rest(1-5) show ?case
    by (intro exI [of _ "as @ bs"] exI [of _ w2]) simp
qed simp

lemma completed_append: "completed i types (as @ bs) = completed i types as + completed i types bs"
  by (simp add: completed_def)

lemma requested_append: "requested i opers (as @ bs) = requested i opers as + requested i opers bs"
  by (simp add: requested_def)

subsection \<open>Example\<close>

text \<open>A kernel that completes everything with the result \<open>res\<close>.\<close>

definition ref_finish :: "int \<Rightarrow> ref_ring \<Rightarrow> ref_ring" where
  "ref_finish res r = r\<lparr>rr_working := [],
     rr_done := rr_done r @ map (\<lambda>d. (d, res)) (rr_working r)\<rparr>"

lemma ref_completes_all: "completes_all ref_libs ref_views (ref_finish res)"
proof -
  have "stays_completed ref_libs ref_views (\<lambda>r. rr_working r = [])"
    by (auto simp: stays_completed_def ref_uring_ops_def ref_live_def split: if_splits list.splits)
  then show ?thesis
    unfolding completes_all_def
    by (intro exI [of _ "\<lambda>r. rr_working r = []"]) (simp add: ref_finish_def ref_live_def o_def)
qed

lemma ref_lossless: "lossless ref_libs ref_views"
  by (simp add: lossless_def ref_uring_ops_def)

lemma ref_has_slots: "has_slots ref_libs ref_views"
  by (auto simp: has_slots_def ref_uring_ops_def max_def word_neq_0_conv [symmetric])

lemma outcome_answers:
  assumes "clean_run ref_libs ref_views log w" "call_allowed w a"
  shows "answers (os (snd (outcome w a))) = answers (os w)"
proof -
  obtain rc w' where "api_run ref_libs w a = Some (rc, w')" "answers (os w') = answers (os w)"
    using api_runs [OF ref_libs_ok clean_keeps(1) [OF ref_libs_ok assms(1)] assms(2)] by blast
  then show ?thesis by (simp add: outcome_def)
qed

lemma demo_epoll_accepts: "epoll_accepts (os (snd demo_reading))"
proof -
  obtain rc mo c k where run: "mcon_create ref_libs sample_config 1 demo_kernel = (rc, mo, c, k)"
    by (metis surj_pair)
  then have "answers k = answers demo_kernel"
    by (auto simp: mcon_create_def Let_def io_queue_create_def rt_simps answer_def next_instance_id_def
        demo_kernel_def creating_kernel_def mcon_config_validate_def sample_config_def)
  then have "answers (os demo_world) = answers demo_kernel"
    by (simp add: demo_world_def run)
  then have "epoll_accepts (os demo_world)"
    by (simp add: epoll_accepts_def demo_kernel_def creating_kernel_def)
  moreover have "answers (os (snd demo_reading)) = answers (os demo_world)"
    using outcome_answers [OF demo_world_run demo_places(1)]
      outcome_answers [OF demo_accepting_run, of Call_submit]
      outcome_answers [OF ring_completes_run [OF demo_submitted_run] demo_places(2)]
      outcome_answers [OF demo_connected_run, of "Call_request 0 (Request_read 4096 16)"]
    by (simp add: demo_accepting_def demo_submitted_def demo_connected_def demo_reading_def
        ring_completes_def Let_def)
  ultimately show ?thesis
    using epoll_accepts_cong by blast
qed

lemma demo_configuration: "configuration (inst (snd demo_reading)) = sample_config"
  "length (evbuf (snd demo_reading)) = 4" "accepts_live (m_state (inst (snd demo_reading))) = 0"
  by code_simp+

lemma demo_pending: "size (pending ref_views (inst (snd demo_reading))) \<le> 8"
proof -
  have "mcon_inv ref_views (inst (snd demo_reading))"
    by (rule clean_keeps(1) [OF ref_libs_ok demo_run])
  then have "size (pending ref_views (inst (snd demo_reading))) \<le>
      4 * length (sessions (inst (snd demo_reading))) + unat (accepts_live (m_state (inst (snd demo_reading))))"
    by (auto simp: mcon_inv_def intro: proto_inv_size)
  then show ?thesis
    by (simp add: demo_sessions demo_configuration)
qed

subsection \<open>Properties\<close>

text \<open>The end of the run, with what the properties ask of a run.\<close>

lemma demo_end:
  "reachable ref_libs ref_views
    [Reported \<lparr>ev_result = 9, ev_session = 0, ev_type = MCON_EVENT_NEW_CONNECTION\<rparr>,
     Requested 0 (Request_read 4096 16)] (snd demo_reading)"
  "registered [Reported \<lparr>ev_result = 9, ev_session = 0, ev_type = MCON_EVENT_NEW_CONNECTION\<rparr>,
     Requested 0 (Request_read 4096 16)]"
  "getsockopt_documented (os (snd demo_reading))"
  using demo_run by (simp_all add: clean_run_def)

text \<open>C20. Take any run in which epoll takes every accepted descriptor, each submission takes all that is
  staged in the ring (\<open>lossless\<close>; what a partial submission leaves behind is not counted) and no detach
  has failed with \<open>ENOENT\<close>. Then the counter of submitted requests is exact: the ring holds nothing
  back, the counter is the number of requests whose completion has not been consumed, and it never
  exceeds the size of the ring.\<close>

theorem counter_exact_without_refusals:
  assumes "libs_ok L V" "lossless L V" "reachable L V log w" "registered log" "epoll_accepts (os w)"
  shows "vw_sq V (ring (inst w)) = [] \<and>
    unat (sqe_in_flight (m_state (inst w))) = size (vw_live V (ring (inst w))) \<and>
    sqe_in_flight (m_state (inst w)) \<le> cfg_io_uring_queue_size (configuration (inst w))"
  using reachable_accounted [OF assms] accounted_counter [of V w]
  by (simp add: accounted_def word_le_nat_alt)

theorem counter_exact_without_refusals_witness:
  "unat (sqe_in_flight (m_state (inst (snd demo_reading)))) =
    size (ref_live (ring (inst (snd demo_reading))))"
  using counter_exact_without_refusals [OF ref_libs_ok ref_lossless demo_end(1,2) demo_epoll_accepts]
  by simp

text \<open>C5. Every accepted request is answered. Let the kernel complete what it was given, hand the event
  of the ring to the library and submit, and do so at least once more often than there are pending
  requests: every read, write, drain and close the client has made, from the creation of the instance
  on, has then been reported as completed, exactly once. Accepts cannot get in the way, since the queue
  serves them last. Hypotheses: the array has a place for each entry of the ring; epoll takes the
  accepted descriptors; a submission takes all that is staged; a ring with nothing staged has a free
  slot; the kernel completes every request it was given; no detach has failed with \<open>ENOENT\<close>; and
  \<open>getsockopt\<close> returns zero or a negative value.\<close>

theorem every_request_answered:
  assumes "libs_ok L V" "lossless L V" "has_slots L V" "completes_all L V finish"
    and "reachable L V log w" "registered log" "getsockopt_documented (os w)" "epoll_accepts (os w)"
    and "unat (cfg_io_uring_queue_size (configuration (inst w))) \<le> unat cap"
      "unat cap \<le> length (evbuf w)" "unat cap < 2 ^ 31"
    and "size (pending V (inst w)) < n"
  shows "\<exists>as w'. serve L finish cap n w = Some (as, w') \<and> reachable L V (log @ as) w' \<and>
    (\<forall>i. unat i < length (sessions (inst w)) \<longrightarrow>
      requested i {MCON_IO_SESSION_READ, MCON_IO_SESSION_DRAIN} (log @ as) =
        completed i {MCON_EVENT_READ_COMPLETE, MCON_EVENT_DRAIN_COMPLETE} (log @ as) \<and>
      requested i {MCON_IO_SESSION_WRITE} (log @ as) =
        completed i {MCON_EVENT_WRITE_COMPLETE} (log @ as) \<and>
      requested i {MCON_IO_SESSION_CLOSE} (log @ as) =
        completed i {MCON_EVENT_CLOSE_COMPLETE} (log @ as))"
proof -
  have "session_waiting V w < n"
    using session_waiting_le [of V w] assms(12) by simp
  then obtain as w' where run: "serve L finish cap n w = Some (as, w')"
    "reachable L V (log @ as) w'" "session_pending V w' = 0" "registered as"
    and same: "configuration (inst w') = configuration (inst w)" "answers (os w') = answers (os w)"
    using serve_runs [OF assms(1-6,8-11), of n] by auto
  have clean: "clean_run L V (log @ as) w'"
    using run(2,4) assms(6,7) getsockopt_documented_cong [OF same(2)] by auto
  note inv = clean_keeps(1) [OF assms(1) clean] reachable_inv [OF assms(1,5,6)]
  have len: "length (sessions (inst w)) = length (sessions (inst w'))"
    using same mcon_inv_config(2) [OF inv(1)] mcon_inv_config(2) [OF inv(2)] by simp
  have "requested i (opers_of b) (log @ as) = completed i (completions_of b) (log @ as)"
    if "unat i < length (sessions (inst w'))" "b \<in> {0, 1, 3}" for i b
    using requests_and_completions [OF assms(1) clean that] nothing_pending [OF inv(1) run(3) that]
    by simp
  from this [of _ 0] this [of _ 1] this [of _ 3] run show ?thesis
    by (intro exI [of _ as] exI [of _ w']) (simp add: opers_of.simps completions_of.simps len)
qed

theorem every_request_answered_witness:
  "\<exists>as w'. serve ref_libs (ref_finish 16) 4 9 (snd demo_reading) = Some (as, w') \<and>
    1 \<le> completed 0 {MCON_EVENT_READ_COMPLETE, MCON_EVENT_DRAIN_COMPLETE} as"
proof -
  let ?log = "[Reported \<lparr>ev_result = 9, ev_session = 0, ev_type = MCON_EVENT_NEW_CONNECTION\<rparr>,
     Requested 0 (Request_read 4096 16)]"
  have places: "unat (cfg_io_uring_queue_size (configuration (inst (snd demo_reading)))) \<le> unat (4 :: u32)"
    "unat (4 :: u32) \<le> length (evbuf (snd demo_reading))" "unat (4 :: u32) < 2 ^ 31"
    "size (pending ref_views (inst (snd demo_reading))) < 9"
    using demo_pending by (simp_all add: demo_configuration sample_config_def)
  obtain as w' where run: "serve ref_libs (ref_finish 16) 4 9 (snd demo_reading) = Some (as, w')"
    and all: "\<forall>i. unat i < length (sessions (inst (snd demo_reading))) \<longrightarrow>
      requested i {MCON_IO_SESSION_READ, MCON_IO_SESSION_DRAIN} (?log @ as) =
        completed i {MCON_EVENT_READ_COMPLETE, MCON_EVENT_DRAIN_COMPLETE} (?log @ as)"
    using every_request_answered [OF ref_libs_ok ref_lossless ref_has_slots ref_completes_all
        demo_end demo_epoll_accepts places] by blast
  have "requested 0 {MCON_IO_SESSION_READ, MCON_IO_SESSION_DRAIN} ?log = 1"
    "completed 0 {MCON_EVENT_READ_COMPLETE, MCON_EVENT_DRAIN_COMPLETE} ?log = 0"
    by (simp_all add: requested_def completed_def)
  moreover have "unat (0 :: mcon_session_idx) < length (sessions (inst (snd demo_reading)))"
    by (simp add: demo_sessions)
  ultimately have "1 \<le> completed 0 {MCON_EVENT_READ_COMPLETE, MCON_EVENT_DRAIN_COMPLETE} as"
    using all [rule_format, of 0] unfolding requested_append completed_append by linarith
  with run show ?thesis by blast
qed

end
