(* ===== verification/Shutdown.thy ===== *)
theory Shutdown
  imports Starvation
begin

text \<open>
  The shutdown of an instance without clients. A shutdown is completed by the release of the last
  session (a completed close or a detach); an instance that has no session, and none on the way, has
  nobody to release, so its shutdown is pending for as long as the listening socket is silent.
\<close>

subsection \<open>Silence of the listening socket\<close>

text \<open>The call hands the library an event of the listening socket, which asks for accepts.\<close>

fun listening_event :: "('s, 'q, 'r) mcon \<Rightarrow> api_call \<Rightarrow> bool" where
  "listening_event m (Call_event ev cap) \<longleftrightarrow> mcon_owns_event m ev \<and>
     ee_source (mcon_decode_epoll_entry (ep_data ev)) = MCON_EPOLL_SOURCE_SERVER_SOCKET \<and>
     ep_events ev AND EPOLLIN \<noteq> 0"
| "listening_event m _ \<longleftrightarrow> False"

text \<open>Any number of steps without such an event.\<close>

inductive silent_steps ::
  "('s, 'q, 'r) libs \<Rightarrow> ('s, 'q, 'r) views \<Rightarrow> ('s, 'q, 'r) world \<Rightarrow> ('s, 'q, 'r) world \<Rightarrow> bool"
  for L V w where
  stop: "silent_steps L V w w"
| api: "silent_steps L V w w' \<Longrightarrow> call_allowed w' a \<Longrightarrow> \<not> listening_event (inst w') a \<Longrightarrow>
    api_run L w' a = Some (rc, w'') \<Longrightarrow> silent_steps L V w w''"
| ring_progress: "silent_steps L V w w' \<Longrightarrow> vw_sq V r = vw_sq V (ring (inst w')) \<Longrightarrow>
    vw_live V r = vw_live V (ring (inst w')) \<Longrightarrow>
    silent_steps L V w (w'\<lparr>inst := (inst w')\<lparr>ring := r\<rparr>\<rparr>)"
| client_work: "silent_steps L V w w' \<Longrightarrow> answers k = answers (os w') \<Longrightarrow>
    silent_steps L V w (w'\<lparr>os := k\<rparr>)"
| new_array: "silent_steps L V w w' \<Longrightarrow> silent_steps L V w (w'\<lparr>evbuf := b\<rparr>)"

text \<open>They are steps of the protocol.\<close>

lemma silent_steps_are_steps: "silent_steps L V w w' \<Longrightarrow> \<exists>as. mcon_steps L V w as w'"
proof (induction rule: silent_steps.induct)
  case stop
  then show ?case by (auto intro: mcon_steps.stop)
next
  case (api w' a rc w'')
  then show ?case by (auto intro: mcon_steps.more mcon_step.api)
next
  case (ring_progress w' r)
  then show ?case by (auto intro: mcon_steps.more mcon_step.ring_progress)
next
  case (client_work w' k)
  then show ?case by (auto intro: mcon_steps.more mcon_step.client_work)
next
  case (new_array w' b)
  then show ?case by (auto intro: mcon_steps.more mcon_step.new_array)
qed

subsection \<open>Nobody there and nobody on the way\<close>

definition deserted :: "('s, 'q, 'r) views \<Rightarrow> ('s, 'q, 'r) mcon \<Rightarrow> bool" where
  "deserted V m \<longleftrightarrow> mcon_inv V m \<and> (\<forall>s \<in> set (sessions m). socket_fd s = -1) \<and>
     is_shutting_down (m_state m) \<and> accepts_live (m_state m) = 0 \<and> \<not> accepts_requested (m_state m)"

lemma deserted_pending:
  assumes "deserted V m"
  shows "pending V m = {#}"
proof (rule ccontr)
  assume "pending V m \<noteq> {#}"
  then obtain e' where "e' \<in># pending V m" by blast
  then obtain oper i where e: "io_entry oper i \<in># pending V m"
    by (metis io_entry_collapse)
  have inv: "mcon_inv V m" and vacant: "\<forall>s \<in> set (sessions m). socket_fd s = -1"
    and none: "accepts_live (m_state m) = 0"
    using assms by (simp_all add: deserted_def)
  have "count (pending V m) accept_entry = 0"
    using inv none by (simp add: mcon_inv_def proto_inv_def)
  then have "session_entry (length (sessions m)) (io_entry oper i)"
    using e inv by (auto simp: mcon_inv_def proto_inv_def count_eq_zero_iff)
  then have i: "unat i < length (sessions m)"
    and kind: "oper \<in> {MCON_IO_SESSION_READ, MCON_IO_SESSION_WRITE, MCON_IO_SESSION_DRAIN,
      MCON_IO_SESSION_CLOSE}"
    by (simp_all add: session_entry_def)
  have "socket_fd (sessions m ! unat i) = -1"
    using vacant i by simp
  then have "count (pending V m) (io_entry oper i) = 0"
    using mcon_inv_session [OF inv i] kind by (auto simp: session_ok_def)
  with e show False
    by (simp add: count_eq_zero_iff)
qed

lemma deserted_ring: "deserted V m \<Longrightarrow> vw_live V (ring m) = {#}"
  using deserted_pending [of V m] by (simp add: pending_def)

lemma session_at:
  fixes m :: "('s, 'q, 'r) mcon"
  assumes "mcon_inv V m" "n < length (sessions m)"
  shows "unat (of_nat n :: mcon_session_idx) = n"
proof -
  have "n < 2 ^ LENGTH(32)"
    using assms(2) mcon_inv_config(2) [OF assms(1)]
      unsigned_less [of "cfg_session_count (configuration m)", where 'a = nat] by simp
  then show ?thesis
    by (simp add: unat_of_nat)
qed

lemma deserted_count:
  assumes "libs_ok L V" "deserted V m"
  shows "mcon_active_session_count L m = 0"
proof -
  let ?free = "vw_items V (session_free_stack m)"
  have inv: "mcon_inv V m" and vacant: "\<forall>s \<in> set (sessions m). socket_fd s = -1"
    using assms(2) by (simp_all add: deserted_def)
  have "{..<length (sessions m)} \<subseteq> unat ` set ?free"
  proof
    fix n assume "n \<in> {..<length (sessions m)}"
    then have n: "unat (of_nat n :: mcon_session_idx) = n" "n < length (sessions m)"
      using session_at [OF inv] by simp_all
    then have "(of_nat n :: mcon_session_idx) \<in> set ?free"
      using mcon_inv_free_iff [OF inv, of "of_nat n"] vacant by simp
    then show "n \<in> unat ` set ?free"
      using n(1) by force
  qed
  then have "length (sessions m) \<le> card (set ?free)"
    by (metis card_lessThan card_mono card_image_le finite_imageI finite_set order_trans)
  then have "length (sessions m) \<le> length ?free"
    using card_length order_trans by blast
  then show ?thesis
    using active_count_eq [OF assms(1) inv] by (simp add: unat_eq_0)
qed

subsection \<open>A deserted instance stays deserted\<close>

lemma request_deserted:
  assumes "mcon_inv V (inst w)" "\<forall>s \<in> set (sessions (inst w)). socket_fd s = -1"
  shows "\<exists>e. run_request L w s c = Some (-1, w\<lparr>os := set_errno e (os w)\<rparr>)"
proof -
  have "cfg_session_count (configuration (inst w)) \<le> s \<or> socket_fd (sessions (inst w) ! unat s) = -1"
    using assms(2) mcon_inv_index [OF assms(1), of s] by (auto simp flip: not_less)
  then show ?thesis
    using rd.rejected [OF assms(1), of s L] wr.rejected [OF assms(1), of s L]
      dr.rejected [OF assms(1), of s L] cl.rejected [OF assms(1), of s L]
    by (cases c) auto
qed

lemma detach_deserted:
  assumes "mcon_inv V (inst w)" "\<forall>s \<in> set (sessions (inst w)). socket_fd s = -1"
  shows "\<exists>e. mcon_session_detach L w s = Some (-1, w\<lparr>os := set_errno e (os w)\<rparr>)"
proof -
  have "cfg_session_count (configuration (inst w)) \<le> s \<or> socket_fd (sessions (inst w) ! unat s) = -1"
    using assms(2) mcon_inv_index [OF assms(1), of s] by (auto simp flip: not_less)
  then show ?thesis
    using detach_rejected [OF assms(1), of s L] by auto
qed

lemma map_update_same: "(i < length xs \<Longrightarrow> f x = f (xs ! i)) \<Longrightarrow> map f (xs[i := x]) = map f xs"
  by (cases "i < length xs") (simp_all add: map_update list_update_same_conv list_update_beyond)

text \<open>What an event leaves alone, when it does not come from the listening socket.\<close>

lemma session_event_sockets:
  assumes "mcon_inv V (inst w)" "unat mx \<le> length (evbuf w)"
    and "mcon_process_session_event w e d mx = Some (rc, w')"
  shows "map socket_fd (sessions (inst w')) = map socket_fd (sessions (inst w)) \<and>
    m_state (inst w') = m_state (inst w)"
  using session_event_core [OF assms(1,2), of e d, unfolded assms(3)]
  by (auto simp: map_update_same split: if_splits)

lemma event_deserted:
  assumes laws: "libs_ok L V" and des: "deserted V (inst w)"
    and room: "unat cap \<le> length (evbuf w)"
    and silent: "\<not> listening_event (inst w) (Call_event ev cap)"
    and run: "mcon_process_event L w ev cap = Some (rc, w')"
  shows "deserted V (inst w')"
proof -
  have inv: "mcon_inv V (inst w)"
    using des by (simp add: deserted_def)
  have inv': "mcon_inv V (inst w')"
    using process_event_keeps_inv [OF laws inv room, of ev] run by auto
  let ?d = "mcon_decode_epoll_entry (ep_data ev)"
  consider (same) "inst w' = inst w"
    | (ring) "mcon_process_io_uring_event L w cap = Some (rc, w')"
    | (session) "mcon_process_session_event w (ep_events ev) ?d cap = Some (rc, w')"
    using run silent
    by (cases "mcon_owns_event (inst w) ev"; cases "ee_source ?d")
      (auto simp: mcon_process_event_def mcon_process_server_socket_event_def Let_def)
  then have "map socket_fd (sessions (inst w')) = map socket_fd (sessions (inst w)) \<and>
      m_state (inst w') = m_state (inst w)"
  proof cases
    case ring
    then show ?thesis
      using idle_ring_event [OF laws deserted_ring [OF des] ring] by simp
  next
    case session
    then show ?thesis
      using session_event_sockets [OF inv room] by blast
  qed simp
  then have "set (map socket_fd (sessions (inst w'))) \<subseteq> {-1}" "m_state (inst w') = m_state (inst w)"
    using des by (auto simp: deserted_def)
  with des inv' show ?thesis
    by (auto simp: deserted_def)
qed

lemma call_deserted:
  assumes laws: "libs_ok L V" and des: "deserted V (inst w)" and ok: "call_allowed w a"
    and silent: "\<not> listening_event (inst w) a" and run: "api_run L w a = Some (rc, w')"
  shows "deserted V (inst w')"
proof -
  have inv: "mcon_inv V (inst w)" and vacant: "\<forall>s \<in> set (sessions (inst w)). socket_fd s = -1"
    using des by (simp_all add: deserted_def)
  show ?thesis
  proof (cases a)
    case (Call_request s c)
    then show ?thesis
      using request_deserted [OF inv vacant, of L s c] run des by auto
  next
    case (Call_detach s)
    then show ?thesis
      using detach_deserted [OF inv vacant, of L s] run des by auto
  next
    case Call_submit
    show ?thesis
    proof (rule submit_runs [OF laws inv], goal_cases)
      case (1 n v v')
      have "v' = w'" "v = w"
        using 1(1,5) Call_submit run des by (simp_all add: deserted_def)
      then have "sessions (inst w') = sessions (inst w)" "mcon_inv V (inst w')"
        "is_shutting_down (m_state (inst w')) = is_shutting_down (m_state (inst w))"
        "accepts_live (m_state (inst w')) = accepts_live (m_state (inst w))"
        "accepts_requested (m_state (inst w')) = accepts_requested (m_state (inst w))"
        using 1(6,8) by (simp_all only: submitted_def Let_def)
      with des show ?thesis
        by (simp add: deserted_def)
    qed
  next
    case (Call_event ev cap)
    then show ?thesis
      using event_deserted [OF laws des _ _, of cap ev rc w'] ok silent run by simp
  next
    case (Call_start lfd epfd)
    then show ?thesis
      using run des start_ring [of w lfd epfd rc w'] mcon_start_frame [of w lfd epfd rc w']
        mcon_start_keeps_inv [of w lfd epfd rc w' V] by (simp add: deserted_def)
  next
    case Call_shutdown
    then show ?thesis
      using run des by (simp add: mcon_shutdown_def deserted_def) auto
  qed
qed

lemma silent_deserted:
  assumes laws: "libs_ok L V" and "deserted V (inst w)" and steps: "silent_steps L V w w'"
  shows "deserted V (inst w')"
  using steps
proof induction
  case (api w' a rc w'')
  then show ?case
    using call_deserted [OF laws api.IH api.hyps(2-4)] by simp
next
  case (ring_progress w' r)
  then have "mcon_inv V ((inst w')\<lparr>ring := r\<rparr>) = mcon_inv V (inst w')"
    using pending_ring_same [of V r "inst w'"] by (simp add: mcon_inv_def)
  with ring_progress show ?case
    by (simp add: deserted_def)
qed (use assms(2) in simp_all)

subsection \<open>Properties\<close>

text \<open>C32. A shutdown of an instance without clients never completes while the listening socket is
  silent. Let the instance have no active session, no accept queued or submitted and none requested,
  and let \<open>mcon_shutdown\<close> succeed. Then whatever the client calls and the kernel does afterwards, short
  of an event of the listening socket, the shutdown stays pending: the flag stays set, no session
  becomes active, and \<open>mcon_shutdown\<close> fails with \<open>EBUSY\<close>.\<close>

theorem idle_shutdown_stays_pending:
  assumes "libs_ok L V" "mcon_inv V (inst w)" "mcon_active_session_count L (inst w) = 0"
    and "accepts_live (m_state (inst w)) = 0" "\<not> accepts_requested (m_state (inst w))"
    and "mcon_shutdown w = (0, w1)" "silent_steps L V w1 w2"
  shows "is_shutting_down (m_state (inst w2)) \<and> mcon_active_session_count L (inst w2) = 0 \<and>
    mcon_shutdown w2 = (-1, w2\<lparr>os := set_errno EBUSY (os w2)\<rparr>)"
proof -
  have inst1: "inst w1 = (inst w)\<lparr>m_state := (m_state (inst w))\<lparr>is_shutting_down := True\<rparr>\<rparr>"
    using assms(6) by (auto simp: mcon_shutdown_def Let_def split: if_splits prod.splits)
  have "socket_fd s = -1" if listed: "s \<in> set (sessions (inst w))" for s
  proof -
    obtain n where n: "n < length (sessions (inst w))" "s = sessions (inst w) ! n"
      using listed unfolding in_set_conv_nth by blast
    then have "unat (of_nat n :: mcon_session_idx) = n"
      using session_at [OF assms(2)] by simp
    with n show ?thesis
      using no_active_session [OF assms(1-3), of "of_nat n"] mcon_inv_index [OF assms(2), of "of_nat n"]
      by simp
  qed
  then have "deserted V (inst w1)"
    using assms(2,4,5) mcon_shutdown_keeps_inv [OF assms(6,2)] by (simp add: deserted_def inst1)
  note here = silent_deserted [OF assms(1) this assms(7)]
  then show ?thesis
    using deserted_count [OF assms(1) here] by (simp add: mcon_shutdown_def deserted_def)
qed

text \<open>On the sample instance with both sessions free: the shutdown succeeds and is still pending after
  a submission.\<close>

theorem idle_shutdown_stays_pending_witness:
  "\<exists>w1 rc w2. mcon_shutdown idle_world = (0, w1) \<and> api_run ref_libs w1 Call_submit = Some (rc, w2) \<and>
    is_shutting_down (m_state (inst w2)) \<and> fst (mcon_shutdown w2) = -1"
proof -
  have start: "\<not> is_shutting_down (m_state (inst idle_world))" "server_socket_fd (inst idle_world) \<noteq> -1"
    "accepts_live (m_state (inst idle_world)) = 0" "\<not> accepts_requested (m_state (inst idle_world))"
    "rv (answer (os idle_world) (Epoll_ctl (epoll_fd (inst idle_world)) EPOLL_CTL_DEL
       (server_socket_fd (inst idle_world)) None)) = 0"
    by (simp_all add: idle_world_def sample_world_def sample_mcon_def sample_state_def answer_def
        sample_kernel_def)
  obtain w1 where down: "mcon_shutdown idle_world = (0, w1)"
    by (rule mcon_shutdown_runs [OF start(1,2,5)])
  have inv: "mcon_inv ref_views (inst w1)"
    using mcon_shutdown_keeps_inv [OF down idle_world_inv] .
  have allowed: "call_allowed w1 Call_submit" by simp
  obtain rc w2 where run: "api_run ref_libs w1 Call_submit = Some (rc, w2)"
    using api_runs [OF ref_libs_ok inv allowed] by blast
  have "silent_steps ref_libs ref_views w1 w2"
    by (rule silent_steps.api [OF silent_steps.stop allowed _ run]) simp
  from idle_shutdown_stays_pending [OF ref_libs_ok idle_world_inv idle_world_count start(3,4) down this]
    down run show ?thesis by simp
qed

end
