(* ===== verification/Hangup.thy ===== *)
theory Hangup
  imports Starvation
begin

text \<open>
  A hang-up is reported once. The session remembers that it has seen one, and the automaton of
  Session_Spec allows no second report; so a hang-up recorded by a call that then fails in
  \<open>getsockopt\<close> is never reported at all.
\<close>

subsection \<open>A session that has hung up\<close>

text \<open>The actions that end the use a session is in.\<close>

fun releases :: "mcon_session_idx \<Rightarrow> action \<Rightarrow> bool" where
  "releases i (Detached j) \<longleftrightarrow> j = i"
| "releases i (Reported e) \<longleftrightarrow> ev_session e = i \<and> ev_type e = MCON_EVENT_CLOSE_COMPLETE"
| "releases i _ \<longleftrightarrow> False"

fun reports_hangup :: "mcon_session_idx \<Rightarrow> action \<Rightarrow> bool" where
  "reports_hangup i (Reported e) \<longleftrightarrow> ev_session e = i \<and> ev_type e = MCON_EVENT_REMOTE_HANGUP"
| "reports_hangup i _ \<longleftrightarrow> False"

lemma hung_up_hang_up: "hung_up p \<Longrightarrow> hung_up (hang_up p)"
  by (cases p) simp_all

lemma on_request_hung_up: "on_request c p = Some p' \<Longrightarrow> hung_up p' = hung_up p"
  by (cases "(c, p)" rule: on_request.cases) (auto split: if_splits)

lemma on_event_hung_up:
  "on_event t res p = Some p' \<Longrightarrow> hung_up p \<Longrightarrow> t \<noteq> MCON_EVENT_CLOSE_COMPLETE \<Longrightarrow>
   hung_up p' \<and> t \<noteq> MCON_EVENT_REMOTE_HANGUP"
  by (cases "(t, res, p)" rule: on_event.cases) (auto split: if_splits)

lemma act_hung_up:
  assumes "act a T = Some U" "unat i < length T" "hung_up (T ! unat i)" "\<not> releases i a"
  shows "hung_up (U ! unat i) \<and> (i \<noteq> MCON_NO_SESSION \<longrightarrow> \<not> reports_hangup i a)"
proof (cases a)
  case (Requested j c)
  then show ?thesis
    using assms on_request_hung_up [of c "T ! unat i"]
    by (cases "unat j = unat i") (auto simp: advance_def simp del: unat_eq_iff split: if_splits)
next
  case (Detached j)
  then have "unat j \<noteq> unat i"
    using assms(4) by (simp add: unat_eq_iff)
  with Detached show ?thesis
    using assms by (auto simp: advance_def simp del: unat_eq_iff split: if_splits)
next
  case (Reported e)
  show ?thesis
  proof (cases "ev_session e = i")
    case True
    then show ?thesis
      using Reported assms on_event_hung_up [of "ev_type e" "ev_result e" "T ! unat i"]
      by (auto simp: advance_def split: if_splits)
  next
    case False
    then have "unat (ev_session e) \<noteq> unat i"
      by (simp add: unat_eq_iff)
    with Reported False show ?thesis
      using assms by (auto simp: advance_def simp del: unat_eq_iff split: if_splits)
  qed
next
  case (Failed ev cap)
  then show ?thesis
    using assms hung_up_hang_up
    by (cases "unat i = unat (ee_session (mcon_decode_epoll_entry (ep_data ev)))")
      (auto simp: Let_def simp del: unat_eq_iff split: if_splits)
next
  case (Unregistered j)
  then show ?thesis
    using assms by simp
qed

lemma replay_hung_up:
  assumes "replay as T = Some T'" "unat i < length T" "hung_up (T ! unat i)"
    and "\<forall>a \<in> set as. \<not> releases i a" "i \<noteq> MCON_NO_SESSION"
  shows "hung_up (T' ! unat i) \<and> (\<forall>a \<in> set as. \<not> reports_hangup i a)"
  using assms(1-4)
proof (induction as arbitrary: T)
  case (Cons a as)
  then obtain U where U: "act a T = Some U" "replay as U = Some T'"
    by (auto simp: bind_eq_Some_conv)
  have "length U = length T"
    using replay_length [of "[a]" T U] U(1) by simp
  then show ?case
    using Cons.IH [OF U(2)] Cons.prems(2-4) act_hung_up [OF U(1) Cons.prems(2,3)] assms(5) by simp
qed simp

text \<open>The same for a run.\<close>

lemma steps_hung_up:
  assumes laws: "libs_ok L V" and run: "clean_run L V log w" "mcon_steps L V w as w'" "registered as"
    and i: "unat i < length (sessions (inst w))"
    and hung: "socket_fd (sessions (inst w) ! unat i) \<noteq> -1" "bit (sess_state (sessions (inst w) ! unat i)) 2"
    and kept: "\<forall>a \<in> set as. \<not> releases i a"
  shows "\<forall>a \<in> set as. \<not> reports_hangup i a"
proof -
  note inv = clean_keeps(1) [OF laws run(1)]
  show ?thesis
    using replay_hung_up [OF steps_replay [OF laws run], of i] i hung kept real_session [OF inv i]
    by (simp add: phases_nth hung_up_of)
qed

text \<open>An event with an error and a hang-up whose call fails.\<close>

lemma failed_event_records:
  assumes inv: "mcon_inv V (inst w)" and room: "unat cap \<le> length (evbuf w)"
    and run: "mcon_process_event L w ev cap = Some (rc, w1)"
  defines "d \<equiv> mcon_decode_epoll_entry (ep_data ev)"
  defines "s \<equiv> sessions (inst w) ! unat (ee_session d)"
  assumes owned: "mcon_owns_event (inst w) ev" "ee_source d = MCON_EPOLL_SOURCE_SESSION"
    and d: "unat (ee_session d) < length (sessions (inst w))" "ee_generation d = generation s"
    and flags: "ep_events ev AND NOT MCON_CLIENT_SOCKET_SUBSCRIBED_EVENTS = 0"
      "stdc_count_ones (ep_events ev) \<le> cap" "bit (ep_events ev) 3" "bit (ep_events ev) 13"
    and fails: "rv (answer (os w) (Getsockopt (socket_fd s) SO_ERROR)) < 0"
  shows "rc < 0 \<and> inst w1 = (inst w)\<lparr>sessions := (sessions (inst w))[unat (ee_session d) :=
    s\<lparr>sess_state := sess_state s OR 4\<rparr>]\<rparr>"
proof -
  have "mcon_process_session_event w (ep_events ev) d cap = Some (rc, w1)"
    using run owned by (simp add: mcon_process_event_def d_def Let_def)
  moreover have "ee_session d < cfg_session_count (configuration (inst w))"
    using d(1) mcon_inv_index [OF inv] by simp
  ultimately show ?thesis
    using session_event_core [OF inv room, of "ep_events ev" d, folded s_def] d flags fails
    by (auto simp: not_le not_less)
qed

subsection \<open>A run on a failing kernel\<close>

text \<open>
  The run of Protocol on a kernel whose \<open>getsockopt\<close> fails (9 is \<open>EBADF\<close>): a connection is accepted, and
  then its socket reports an error together with a hang-up.
\<close>

definition failing_kernel :: kernel where
  "failing_kernel = (creating_kernel 64)\<lparr>answers := (\<lambda>t c. case c of
     Getsockopt _ _ \<Rightarrow> \<lparr>rv = -1, rerr = 9, rout = 0\<rparr>
     | _ \<Rightarrow> answers (creating_kernel 64) t c)\<rparr>"

definition failing_world :: ref_world where
  "failing_world = (case mcon_create ref_libs sample_config 1 failing_kernel of (rc, m, c, k) \<Rightarrow>
     \<lparr>inst = the m, os = k,
      evbuf = replicate 4 \<lparr>ev_result = 0, ev_session = 0, ev_type = MCON_EVENT_NONE\<rparr>\<rparr>)"

lemma failing_world_run: "clean_run ref_libs ref_views [] failing_world"
proof -
  obtain rc mo c k where run: "mcon_create ref_libs sample_config 1 failing_kernel = (rc, mo, c, k)"
    by (metis surj_pair)
  have "rc = 0 \<and> mo \<noteq> None \<and> answers k = answers failing_kernel"
    using run by (auto simp: mcon_create_def Let_def io_queue_create_def rt_simps answer_def next_instance_id_def
        failing_kernel_def creating_kernel_def mcon_config_validate_def sample_config_def)
  moreover have "getsockopt_documented failing_kernel"
    by (simp add: getsockopt_documented_def failing_kernel_def creating_kernel_def)
  ultimately show ?thesis
    using run getsockopt_documented_cong [of k failing_kernel]
    by (auto simp: failing_world_def clean_run_def intro: reachable.created)
qed

definition failing_connected :: "action list \<times> ref_world" where
  "failing_connected = played (served (played (played ([], failing_world) (Call_event socket_event 4))
     Call_submit) 9) (Call_event ring_event 4)"

lemma failing_rooms:
  "length (evbuf failing_world) = 4"
  "length (evbuf (snd (served (played (played ([], failing_world) (Call_event socket_event 4))
     Call_submit) 9))) = 4"
  by code_simp+

lemma failing_run: "clean_run ref_libs ref_views (fst failing_connected) (snd failing_connected)"
proof -
  have start: "clean_run ref_libs ref_views (fst ([], failing_world)) (snd ([], failing_world))"
    by (simp add: failing_world_run)
  show ?thesis
    unfolding failing_connected_def
    by (rule played_run [OF served_run [OF played_run [OF played_run [OF start]]]])
      (simp_all add: failing_rooms)
qed

text \<open>The event that is lost, and a later one with the hang-up alone.\<close>

definition client_event :: "u32 \<Rightarrow> epoll_event" where
  "client_event flags = \<lparr>ep_events = flags, ep_data = mcon_encode_epoll_entry
     \<lparr>ee_instance_id = 1, ee_generation = 0, ee_source = MCON_EPOLL_SOURCE_SESSION, ee_session = 0,
      ee_reserved = 0\<rparr>\<rparr>"

lemma failing_observed:
  "(let m = inst (snd failing_connected); ev = client_event (EPOLLRDHUP OR EPOLLERR)
    in (sessions m, length (evbuf (snd failing_connected)), mcon_owns_event m ev,
        mcon_decode_epoll_entry (ep_data ev), rv (answer (os (snd failing_connected))
          (Getsockopt 9 SO_ERROR)))) =
   ([\<lparr>socket_fd = 9, generation = 0, sess_state = 0\<rparr>, session_init], 4, True,
    \<lparr>ee_instance_id = 1, ee_generation = 0, ee_source = MCON_EPOLL_SOURCE_SESSION, ee_session = 0,
      ee_reserved = 0\<rparr>, -1)"
  by code_simp

lemmas failing_state = failing_observed [unfolded Let_def prod.inject]

subsection \<open>Properties\<close>

text \<open>C36. A remote hang-up can be lost. Take any instance in a run without \<open>ENOENT\<close> detaches and with
  documented answers of \<open>getsockopt\<close>, and a connected session whose hang-up is new. When one epoll event
  of the session brings the hang-up together with an error and \<open>getsockopt\<close> fails, then the call returns
  a negative value, so that the client is given no event, but the session has recorded the hang-up; and
  in whatever follows, until the session is closed or detached, no \<open>MCON_EVENT_REMOTE_HANGUP\<close> of it is
  ever reported.\<close>

theorem failed_getsockopt_loses_hangup:
  fixes ev :: epoll_event and w :: "('s, 'q, 'r) world"
  assumes "libs_ok L V" "reachable L V log w" "registered log" "getsockopt_documented (os w)"
    and "unat cap \<le> length (evbuf w)" "unat cap < 2 ^ 31"
  defines "i \<equiv> ee_session (mcon_decode_epoll_entry (ep_data ev))"
  defines "s \<equiv> sessions (inst w) ! unat i"
  assumes "mcon_owns_event (inst w) ev"
      "ee_source (mcon_decode_epoll_entry (ep_data ev)) = MCON_EPOLL_SOURCE_SESSION"
    and "unat i < length (sessions (inst w))"
      "ee_generation (mcon_decode_epoll_entry (ep_data ev)) = generation s"
    and "socket_fd s \<noteq> -1" "sess_state s AND MCON_SESSION_STATE_RDHUP = 0"
    and "ep_events ev AND NOT MCON_CLIENT_SOCKET_SUBSCRIBED_EVENTS = 0"
      "stdc_count_ones (ep_events ev) \<le> cap" "bit (ep_events ev) 3" "bit (ep_events ev) 13"
    and "rv (answer (os w) (Getsockopt (socket_fd s) SO_ERROR)) < 0"
    and "mcon_process_event L w ev cap = Some (rc, w1)"
    and "mcon_steps L V w1 as w2" "registered as" "\<forall>a \<in> set as. \<not> releases i a"
  shows "rc < 0 \<and> sess_state (sessions (inst w1) ! unat i) AND MCON_SESSION_STATE_RDHUP \<noteq> 0 \<and>
    (\<forall>e. Reported e \<in> set as \<and> ev_session e = i \<longrightarrow> ev_type e \<noteq> MCON_EVENT_REMOTE_HANGUP)"
proof -
  note run = clean_runI [OF assms(2-4)]
  have after: "rc < 0" "inst w1 = (inst w)\<lparr>sessions := (sessions (inst w))[unat i :=
      s\<lparr>sess_state := sess_state s OR 4\<rparr>]\<rparr>"
    using failed_event_records [OF clean_keeps(1) [OF assms(1) run] assms(5,20,9,10)] assms(11,12,15-19)
    by (simp_all add: i_def s_def)
  have "mcon_step L V w (api_log (Call_event ev cap) rc w1) w1"
    using mcon_step.api [of w "Call_event ev cap" L rc w1 V] assms(5,6,20) by simp
  from clean_step [OF assms(1) run this] have "clean_run L V (log @ event_log ev cap rc w1) w1"
    by simp
  from steps_hung_up [OF assms(1) this assms(21,22), of i] assms(11,13,23)
  have "\<forall>a \<in> set as. \<not> reports_hangup i a"
    by (simp add: after(2) bit_facts)
  then show ?thesis
    using after assms(11) by (auto simp: bit_facts)
qed

text \<open>On the failing kernel: the call returns -1, and the later event reports its input only.\<close>

definition failing_lost :: "int \<times> ref_world" where
  "failing_lost = outcome (snd failing_connected) (Call_event (client_event (EPOLLRDHUP OR EPOLLERR)) 4)"

definition failing_later :: "int \<times> ref_world" where
  "failing_later = outcome (snd failing_lost) (Call_event (client_event (EPOLLIN OR EPOLLRDHUP)) 4)"

lemma failing_later_observed:
  "(length (evbuf (snd failing_lost)), api_log (Call_event (client_event (EPOLLIN OR EPOLLRDHUP)) 4)
      (fst failing_later) (snd failing_later)) =
   (4, [Reported \<lparr>ev_result = 0, ev_session = 0, ev_type = MCON_EVENT_READ_RDY\<rparr>])"
  by code_simp

theorem failed_getsockopt_loses_hangup_witness:
  "fst failing_lost < 0 \<and>
    sess_state (sessions (inst (snd failing_lost)) ! 0) AND MCON_SESSION_STATE_RDHUP \<noteq> 0 \<and>
    filter (reports_hangup 0) (api_log (Call_event (client_event (EPOLLIN OR EPOLLRDHUP)) 4)
      (fst failing_later) (snd failing_later)) = []"
proof -
  let ?w = "snd failing_connected" and ?ev = "client_event (EPOLLRDHUP OR EPOLLERR)"
  let ?later = "Call_event (client_event (EPOLLIN OR EPOLLRDHUP)) 4"
  let ?log = "api_log ?later (fst failing_later) (snd failing_later)"
  have here: "reachable ref_libs ref_views (fst failing_connected) ?w"
    "registered (fst failing_connected)" "getsockopt_documented (os ?w)"
    using failing_run by (simp_all add: clean_run_def)
  have places: "call_allowed ?w (Call_event ?ev 4)" "call_allowed (snd failing_lost) ?later"
    using failing_state failing_later_observed by simp_all
  obtain rc w1 where run: "api_run ref_libs ?w (Call_event ?ev 4) = Some (rc, w1)"
    using api_runs [OF ref_libs_ok clean_keeps(1) [OF ref_libs_ok failing_run] places(1)] by blast
  then have lost: "failing_lost = (rc, w1)"
    by (simp add: failing_lost_def outcome_def)
  have "clean_run ref_libs ref_views (fst failing_connected @ api_log (Call_event ?ev 4) rc w1) w1"
    by (rule clean_step [OF ref_libs_ok failing_run mcon_step.api [OF places(1) run]]) simp
  note inv1 = clean_keeps(1) [OF ref_libs_ok this]
  have "call_allowed w1 ?later"
    using places(2) by (simp only: lost snd_conv)
  from api_runs [OF ref_libs_ok inv1 this]
  obtain rc2 w2 where later: "api_run ref_libs w1 ?later = Some (rc2, w2)"
    by blast
  have "failing_later = (rc2, w2)"
    using later by (simp add: failing_later_def outcome_def lost)
  then have steps: "mcon_steps ref_libs ref_views w1 ([] @ ?log) w2"
    using mcon_steps.more [OF mcon_steps.stop mcon_step.api [OF \<open>call_allowed w1 ?later\<close> later]]
    by (simp only: \<open>failing_later = (rc2, w2)\<close> fst_conv snd_conv)
  have quiet: "registered ([] @ ?log)" "\<forall>a \<in> set ([] @ ?log). \<not> releases 0 a"
    using failing_later_observed by simp_all
  have "rc < 0 \<and> sess_state (sessions (inst w1) ! unat (0 :: mcon_session_idx)) AND
      MCON_SESSION_STATE_RDHUP \<noteq> 0 \<and> (\<forall>e. Reported e \<in> set ([] @ ?log) \<and> ev_session e = 0 \<longrightarrow>
      ev_type e \<noteq> MCON_EVENT_REMOTE_HANGUP)"
    using failed_getsockopt_loses_hangup [OF ref_libs_ok here, of 4 ?ev rc w1 "[] @ ?log" w2]
      run steps quiet failing_state hangup_flags
    by (simp add: client_event_def)
  then show ?thesis
    using failing_later_observed
    by (auto simp: lost filter_empty_conv elim!: reports_hangup.elims)
qed

end
