(* ===== verification/Test_Server.thy ===== *)
theory Test_Server
  imports Protocol
begin

text \<open>
  The load-test server, a client of the library: \<open>src/apps/million_connections/mcon_test_server.c\<close>.
  It closes every session whose client hangs up and starts no other request. Output to the terminal
  is left out. The rounds of its endless loop are run on a given list of answers of \<open>epoll_wait\<close>.
\<close>

subsection \<open>The command handler\<close>

text \<open>
  The loop that searches the first blank: \<open>search_target_index\<close> is incremented past the character it
  tests.
\<close>

fun search_target :: "string \<Rightarrow> nat" where
  "search_target [] = 0"
| "search_target (c # cs) = (if c \<noteq> CHR '' '' then Suc (search_target cs) else 1)"

text \<open>
  \<open>input_buffer\<close> is the buffer's \<open>input_buffer_size\<close> bytes; as a C string it ends at its first 0.
  \<open>snprintf\<close> stores at most \<open>output_buffer_size - 1\<close> characters and returns the full length.
\<close>

definition handle_command ::
  "('s, 'q, 'r) libs \<Rightarrow> string \<Rightarrow> nat \<Rightarrow> ('s, 'q, 'r) mcon \<Rightarrow> int \<times> string option" where
  "handle_command L input_buffer output_buffer_size m =
     (let search_target_index = search_target input_buffer;
          is_status = strncmp_equal (takeWhile (\<lambda>c. c \<noteq> CHR 0x00) input_buffer) ''status'' search_target_index
      in if is_status then
           (let active_sessions = mcon_active_session_count L m;
                text = ''active sessions: '' @ decimal_int (sint active_sessions) @ [CHR 0x0A]
            in (int (length text),
                if output_buffer_size = 0 then None else Some (take (output_buffer_size - 1) text)))
         else (0, None))"

subsection \<open>Configuration and start\<close>

definition max_concurrent_sessions :: u32 where "max_concurrent_sessions = 1000000"
definition epoll_event_batch_size :: nat where "epoll_event_batch_size = 256"
definition mcon_event_batch_size :: u32 where "mcon_event_batch_size = 512"

definition server_config :: mcon_config where
  "server_config = \<lparr>cfg_session_count = max_concurrent_sessions,
     cfg_io_queue_size = max_concurrent_sessions, cfg_io_uring_queue_size = 256,
     cfg_edge_triggered_client_events = True, cfg_max_live_accept_sqes = 256\<rparr>"

text \<open>\<open>main\<close> up to the loop: \<open>Inl\<close> the exit code, \<open>Inr\<close> the running server.\<close>

definition server_setup ::
  "('s, 'q, 'r) libs \<Rightarrow> (string option \<Rightarrow> string \<Rightarrow> addrinfo list option) \<Rightarrow> u16 \<Rightarrow> kernel \<Rightarrow>
   (int + ('s, 'q, 'r) world) \<times> kernel" where
  "server_setup L getaddrinfo counter k =
    (case mcon_create L server_config counter k of
       (rc, mo, _, k1) \<Rightarrow>
         case mo of
           None \<Rightarrow> (Inl (-1), k1)
         | Some m \<Rightarrow>
             (let (listening_socket, k2) = mcon_create_listening_socket getaddrinfo 8080 (Some ''0.0.0.0'') k1;
                  (v, k3) = mcon_listening_socket_valid listening_socket k2
              in if v \<noteq> MCON_SOCKET_OK then (Inl (-1), k3)
                 else
                   (let (_, k4) = syscall (Accept listening_socket) k3;
                        (r, k5) = syscall Epoll_create k4; epoll_fd = rv r
                    in if epoll_fd < 0 then (Inl (-1), k5)
                       else
                         (let (rc, w) = mcon_start \<lparr>inst = m, os = k5, evbuf = []\<rparr> listening_socket epoll_fd
                          in if rc \<noteq> 0 then (Inl (-1), os w) else (Inr w, os w)))))"

subsection \<open>The event loop\<close>

text \<open>The exit code, if \<open>main\<close> returns, and the state: \<open>None\<close> inside the pair means it goes on.\<close>

definition handle_event ::
  "('s, 'q, 'r) libs \<Rightarrow> mcon_event \<Rightarrow> ('s, 'q, 'r) world \<Rightarrow>
   (int option \<times> ('s, 'q, 'r) world) option" where
  "handle_event L evt w =
     (case ev_type evt of
        MCON_EVENT_REMOTE_HANGUP \<Rightarrow>
          do { (rc, w1) \<leftarrow> mcon_session_close L w (ev_session evt);
               Some (if rc \<noteq> 0 then Some (-1) else None, w1) }
      | MCON_EVENT_CLOSE_COMPLETE \<Rightarrow> Some (if ev_result evt \<noteq> 0 then Some (-1) else None, w)
      | _ \<Rightarrow> Some (None, w))"

fun handle_events ::
  "('s, 'q, 'r) libs \<Rightarrow> mcon_event list \<Rightarrow> ('s, 'q, 'r) world \<Rightarrow>
   (int option \<times> ('s, 'q, 'r) world) option" where
  "handle_events L [] w = Some (None, w)"
| "handle_events L (evt # evts) w =
     do { (stop, w1) \<leftarrow> handle_event L evt w;
          if stop \<noteq> None then Some (stop, w1) else handle_events L evts w1 }"

fun process_batch ::
  "('s, 'q, 'r) libs \<Rightarrow> epoll_event list \<Rightarrow> ('s, 'q, 'r) world \<Rightarrow>
   (int option \<times> ('s, 'q, 'r) world) option" where
  "process_batch L [] w = Some (None, w)"
| "process_batch L (ev # evs) w =
     do { (mcon_events_available, w1) \<leftarrow> mcon_process_event L w ev mcon_event_batch_size;
          if mcon_events_available < 0 then Some (Some (-1), w1)
          else if length (evbuf w1) < nat mcon_events_available then None
          else do { (stop, w2) \<leftarrow> handle_events L (take (nat mcon_events_available) (evbuf w1)) w1;
                    if stop \<noteq> None then Some (stop, w2) else process_batch L evs w2 } }"

text \<open>
  An answer of \<open>epoll_wait\<close>: a failure with its \<open>errno\<close>, or the events, at most 256. The array of the
  round starts with indeterminate contents, an argument here.
\<close>

datatype epoll_answer = Epoll_failure int | Epoll_events "epoll_event list"

definition EINTR :: int where [simp]: "EINTR = 4"

definition server_round ::
  "('s, 'q, 'r) libs \<Rightarrow> epoll_answer \<Rightarrow> mcon_event list \<Rightarrow> ('s, 'q, 'r) world \<Rightarrow>
   (int option \<times> ('s, 'q, 'r) world) option" where
  "server_round L waited mcon_events w =
     (case waited of
        Epoll_failure e \<Rightarrow> if e \<noteq> EINTR then Some (Some (-1), w)
          else do { (rc, w1) \<leftarrow> mcon_submit L w; Some (if rc < 0 then Some (-1) else None, w1) }
      | Epoll_events evs \<Rightarrow>
          do { (stop, w1) \<leftarrow> process_batch L evs (w\<lparr>evbuf := mcon_events\<rparr>);
               if stop \<noteq> None then Some (stop, w1)
               else do { (rc, w2) \<leftarrow> mcon_submit L w1; Some (if rc < 0 then Some (-1) else None, w2) } })"

fun server_loop ::
  "('s, 'q, 'r) libs \<Rightarrow> (epoll_answer \<times> mcon_event list) list \<Rightarrow> ('s, 'q, 'r) world \<Rightarrow>
   (int option \<times> ('s, 'q, 'r) world) option" where
  "server_loop L [] w = Some (None, w)"
| "server_loop L ((waited, mcon_events) # rounds) w =
     do { (stop, w1) \<leftarrow> server_round L waited mcon_events w;
          if stop \<noteq> None then Some (stop, w1) else server_loop L rounds w1 }"

subsection \<open>The server closes a session once\<close>

text \<open>
  The server keeps no read or write pending, and a session it is closing has seen its hang-up. The
  library reports a hang-up only if it has not recorded one, so the server never closes a session that
  is closing already.
\<close>

definition hangup_seen :: "mcon_session \<Rightarrow> bool" where
  "hangup_seen s \<longleftrightarrow> \<not> bit (sess_state s) 0 \<and> \<not> bit (sess_state s) 1 \<and>
     (socket_fd s \<noteq> -1 \<and> bit (sess_state s) 3 \<longrightarrow> bit (sess_state s) 2)"

definition closes_at_hangup :: "mcon_session list \<Rightarrow> bool" where
  "closes_at_hangup ss \<longleftrightarrow> (\<forall>s \<in> set ss. hangup_seen s)"

lemma closes_at_hangup_nth:
  "closes_at_hangup ss \<Longrightarrow> unat i < length ss \<Longrightarrow> hangup_seen (ss ! unat i)"
  unfolding closes_at_hangup_def by simp

lemma closes_at_hangup_update:
  "closes_at_hangup ss \<Longrightarrow> hangup_seen s \<Longrightarrow> closes_at_hangup (ss[i := s])"
  unfolding closes_at_hangup_def by (auto dest: subsetD [OF set_update_subset_insert])

lemma cqe_closes_at_hangup:
  assumes laws: "libs_ok L V" and inv: "mcon_inv V (inst w)"
    and peek: "ur_peek_cqe (urg L) r0 = (0, p, ring (inst w))"
    and room: "ec < mx" "unat mx \<le> length (evbuf w)"
    and run: "process_cqe L w p ec mx = Some (err, w')" and J: "closes_at_hangup (sessions (inst w))"
  shows "closes_at_hangup (sessions (inst w')) \<and>
    (err = 1 \<longrightarrow> ev_type (evbuf w' ! unat ec) \<noteq> MCON_EVENT_REMOTE_HANGUP)"
proof (rule peeked_completion [OF laws inv peek room], goal_cases)
  case accept: 1
  have i: "unat i < length (sessions (inst w))"
    if "vw_items V (session_free_stack (inst w)) = i # free" for i free
    using inv that by (auto simp: mcon_inv_def proto_inv_def)
  show ?case
    by (rule process_accept_cases [OF laws inv accept(1-3)])
      (use run accept J i in \<open>auto simp: hangup_seen_def intro!: closes_at_hangup_update\<close>)
next
  case session: (2 oper i)
  show ?case
  proof (cases "oper = MCON_IO_SESSION_CLOSE")
    case True
    note pk = session(1) [unfolded True]
    note s = completed_session [OF laws pk inv, simplified]
    show ?thesis
    proof (rule process_close_runs [OF laws inv pk session(2,3)], goal_cases)
      case (1 fs m v)
      have "sessions (inst v) = sessions m"
        using 1(4) by simp
      then show ?case
        using 1(1,3,6) run session True s J closes_at_hangup_nth [OF J s(1)]
        by (auto simp: bit_facts hangup_seen_def intro!: closes_at_hangup_update)
    qed
  next
    case False
    then have "oper \<noteq> MCON_IO_SESSION_ACCEPT" "request_bit oper \<in> {0, 1}"
      using session(4) by (auto simp: request_bit_def)
    then show ?thesis
      using completed_session(1,2) [OF laws session(1) inv] closes_at_hangup_nth [OF J, of i]
      by (auto simp: hangup_seen_def)
  qed
qed

lemma ring_closes_at_hangup:
  assumes laws: "libs_ok L V" and inv: "mcon_inv V (inst w)"
    and room: "unat mx \<le> length (evbuf w)" "unat mx < 2 ^ 31"
    and run: "mcon_process_io_uring_event L w mx = Some (rc, w')"
    and J: "closes_at_hangup (sessions (inst w))"
  shows "closes_at_hangup (sessions (inst w')) \<and>
    (\<forall>e \<in> set (take (nat rc) (evbuf w')). ev_type e \<noteq> MCON_EVENT_REMOTE_HANGUP)"
proof -
  obtain ec ic v where loop: "ring_loop L mx 0 0 w = Some (ec, ic, v)" "loop_result V mx 0 w ec v"
    using ring_loop_runs [OF laws inv, of 0 mx 0] room by auto
  have "sint ec = int (unat ec)"
    using loop(2) room(2) by (intro sint_nonneg) (simp add: loop_result_def)
  then have "nat (sint ec) = unat ec"
    by (simp del: of_nat_unat)
  with run loop(1) have out: "nat rc = unat ec" "evbuf w' = evbuf v" "inst w' = inst v"
    by (auto simp: mcon_process_io_uring_event_def)
  let ?P = "\<lambda>(es :: mcon_event list) ss. closes_at_hangup ss \<and> (\<forall>e \<in> set es. ev_type e \<noteq> MCON_EVENT_REMOTE_HANGUP)"
  have "?P ([] @ drop (unat (0 :: u32)) (take (unat ec) (evbuf v))) (sessions (inst v))"
  proof (rule ring_loop_rule [OF laws inv _ room(1) loop(1), where P = ?P])
    fix es p ec err and v v' :: "('a, 'b, 'c) world" and r0
    assume P: "?P es (sessions (inst v))"
      and "mcon_inv V (inst v)" "ur_peek_cqe (urg L) r0 = (0, p, ring (inst v))" "ec < mx"
        "unat mx \<le> length (evbuf v)" "process_cqe L v p ec mx = Some (err, v')"
    from cqe_closes_at_hangup [OF laws this(2-)] P
    show "?P (if err = 1 then es @ [evbuf v' ! unat ec] else es) (sessions (inst v'))"
      by auto
  qed (use J in simp_all)
  then show ?thesis
    by (simp add: out)
qed

lemma handle_quiet:
  assumes "\<forall>e \<in> set es. ev_type e \<noteq> MCON_EVENT_REMOTE_HANGUP"
  shows "\<exists>stop. handle_events L es w = Some (stop, w) \<and> (stop \<noteq> None \<longrightarrow>
    (\<exists>e \<in> set es. ev_type e = MCON_EVENT_CLOSE_COMPLETE \<and> ev_result e \<noteq> 0))"
  using assms
proof (induction es)
  case (Cons e es)
  then obtain stop where rest: "handle_events L es w = Some (stop, w)" "stop \<noteq> None \<longrightarrow>
      (\<exists>e \<in> set es. ev_type e = MCON_EVENT_CLOSE_COMPLETE \<and> ev_result e \<noteq> 0)"
    by auto
  have "\<exists>now. handle_event L e w = Some (now, w) \<and>
      (now \<noteq> None \<longrightarrow> ev_type e = MCON_EVENT_CLOSE_COMPLETE \<and> ev_result e \<noteq> 0)"
    using Cons.prems by (cases "ev_type e") (auto simp: handle_event_def)
  with rest show ?case by auto
qed simp

lemma handle_events_append:
  "handle_events L (xs @ ys) w =
     do { (stop, w1) \<leftarrow> handle_events L xs w;
          if stop \<noteq> None then Some (stop, w1) else handle_events L ys w1 }"
  by (induction xs arbitrary: w) (auto simp: Option.bind_assoc split: Option.bind_splits)

text \<open>The library refuses to close a session that is vacant, or when the queue takes no entry.\<close>

definition close_refused ::
  "('s, 'q, 'r) libs \<Rightarrow> ('s, 'q, 'r) world \<Rightarrow> mcon_session_idx \<Rightarrow> bool" where
  "close_refused L w i \<longleftrightarrow> socket_fd (sessions (inst w) ! unat i) = -1 \<or>
     fst (io_queue_push L (m_io_queue (inst w)) (request_sqe
       (Prep_close (socket_fd (sessions (inst w) ! unat i))) i MCON_IO_SESSION_CLOSE) (os w)) \<noteq> 0"

lemma hangup_closes:
  assumes inv: "mcon_inv V (inst w)" and i: "unat i < length (sessions (inst w))"
    and J: "closes_at_hangup (sessions (inst w))"
    and s: "bit (sess_state (sessions (inst w) ! unat i)) 2"
      "socket_fd (sessions (inst w) ! unat i) \<noteq> -1 \<Longrightarrow> \<not> bit (sess_state (sessions (inst w) ! unat i)) 3"
  shows "\<exists>rc w'. mcon_session_close L w i = Some (rc, w') \<and>
    closes_at_hangup (sessions (inst w')) \<and> (rc \<noteq> 0 \<longrightarrow> close_refused L w i)"
proof (cases "socket_fd (sessions (inst w) ! unat i) = -1")
  case True
  with cl.rejected [OF inv, of i L] J show ?thesis
    by (auto simp: close_refused_def)
next
  case active: False
  have c: "i < cfg_session_count (configuration (inst w))"
    using mcon_inv_index [OF inv] i by simp
  have idle: "sess_state (sessions (inst w) ! unat i) AND 11 = 0"
    using closes_at_hangup_nth [OF J i] s(2) [OF active] by (simp add: hangup_seen_def bit_facts)
  obtain rc q k where push: "io_queue_push L (m_io_queue (inst w)) (request_sqe
       (Prep_close (socket_fd (sessions (inst w) ! unat i))) i MCON_IO_SESSION_CLOSE) (os w) = (rc, q, k)"
    by (metis surj_pair)
  show ?thesis
    using cl.ready [OF c i active idle push] push J closes_at_hangup_nth [OF J i] s(1)
    by (auto simp: close_refused_def hangup_seen_def bit_facts intro!: closes_at_hangup_update)
qed

lemma session_event_handled:
  assumes inv: "mcon_inv V (inst w)" and room: "unat mx \<le> length (evbuf w)"
    and run: "mcon_process_session_event w e d mx = Some (rc, w1)" "0 \<le> rc"
    and fails: "\<And>fd. rv (answer (os w) (Getsockopt fd SO_ERROR)) \<le> 0"
    and J: "closes_at_hangup (sessions (inst w))"
  shows "\<exists>stop w2. handle_events L (take (nat rc) (evbuf w1)) w1 = Some (stop, w2) \<and>
    closes_at_hangup (sessions (inst w2)) \<and> (stop \<noteq> None \<longrightarrow> close_refused L w1 (ee_session d))"
proof -
  define s where "s = sessions (inst w) ! unat (ee_session d)"
  define r where "r = answer (os w) (Getsockopt (socket_fd s) SO_ERROR)"
  define evs where "evs = session_events e (sess_state s) (ee_session d) (rout r)"
  note core = session_event_core [OF inv room, of e d, unfolded run, folded s_def, folded r_def,
      folded evs_def, simplified]
  show ?thesis
  proof (cases "rc = 0 \<and> inst w1 = inst w")
    case True
    with J show ?thesis by auto
  next
    case False
    let ?s1 = "s\<lparr>sess_state := (if bit e 13 then sess_state s OR 4 else sess_state s)\<rparr>"
    have idx: "unat (ee_session d) < length (sessions (inst w))"
      and out: "rc = (if bit e 3 \<and> rv r \<noteq> 0 then rv r else int (length evs))"
        "evbuf w1 = evs @ drop (length evs) (evbuf w)"
        "sessions (inst w1) = (sessions (inst w))[unat (ee_session d) := ?s1]"
      using core False run(2) mcon_inv_index [OF inv, of "ee_session d"]
      by (auto simp: not_le split: if_splits)
    have evs: "take (nat rc) (evbuf w1) = evs"
      using out(1,2) run(2) fails [of "socket_fd s"] by (auto simp: r_def split: if_splits)
    note seen = closes_at_hangup_nth [OF J idx, folded s_def]
    have J1: "closes_at_hangup (sessions (inst w1))"
      using seen J unfolding out(3)
      by (intro closes_at_hangup_update) (auto simp: hangup_seen_def bit_facts)
    have inv1: "mcon_inv V (inst w1)"
      using session_event_keeps_inv [OF inv room, of e d] run(1) by auto
    define A where "A = flag_event e 0 0 (ee_session d) MCON_EVENT_READ_RDY @
      flag_event e 4 0 (ee_session d) MCON_EVENT_READ_SHUTDOWN"
    define B where "B = flag_event e 3 (rout r) (ee_session d) MCON_EVENT_CLIENT_ERROR"
    have A: "handle_events L A v = Some (None, v)" and B: "handle_events L B v = Some (None, v)" for v
      by (simp_all add: A_def B_def flag_event_def handle_event_def)
    show ?thesis
    proof (cases "bit e 13 \<and> \<not> bit (sess_state s) 2")
      case False
      then have "evs = A @ B"
        by (auto simp: evs_def session_events_def A_def B_def flag_event_def)
      with J1 evs A B show ?thesis
        by (simp add: handle_events_append)
    next
      case True
      let ?h = "\<lparr>ev_result = 0, ev_session = ee_session d, ev_type = MCON_EVENT_REMOTE_HANGUP\<rparr>"
      have list: "evs = A @ ?h # B"
        using True by (simp add: evs_def session_events_def A_def B_def flag_event_def)
      have idx1: "unat (ee_session d) < length (sessions (inst w1))"
        using idx out(3) by simp
      have "bit (sess_state (sessions (inst w1) ! unat (ee_session d))) 2"
        "socket_fd (sessions (inst w1) ! unat (ee_session d)) \<noteq> -1 \<Longrightarrow>
         \<not> bit (sess_state (sessions (inst w1) ! unat (ee_session d))) 3"
        using out(3) idx True seen by (auto simp: hangup_seen_def bit_facts)
      from hangup_closes [OF inv1 idx1 J1 this, of L] obtain rc' w2 where
        "mcon_session_close L w1 (ee_session d) = Some (rc', w2)" "closes_at_hangup (sessions (inst w2))"
        "rc' \<noteq> 0 \<longrightarrow> close_refused L w1 (ee_session d)"
        by blast
      with list evs A B show ?thesis
        by (auto simp: handle_events_append handle_event_def)
    qed
  qed
qed

text \<open>One epoll event, from the library to the handler.\<close>

lemma event_handled:
  assumes laws: "libs_ok L V" and reach: "clean_run L V log w"
    and room: "unat cap \<le> length (evbuf w)" "unat cap < 2 ^ 31"
    and run: "mcon_process_event L w ev cap = Some (n, w1)" "0 \<le> n"
    and J: "closes_at_hangup (sessions (inst w))"
  shows "\<exists>stop w2. handle_events L (take (nat n) (evbuf w1)) w1 = Some (stop, w2) \<and>
    closes_at_hangup (sessions (inst w2)) \<and>
    (stop \<noteq> None \<longrightarrow> (\<exists>e \<in> set (take (nat n) (evbuf w1)). ev_type e = MCON_EVENT_CLOSE_COMPLETE \<and>
        ev_result e \<noteq> 0) \<or> close_refused L w1 (ee_session (mcon_decode_epoll_entry (ep_data ev))))"
proof -
  note kept = clean_keeps [OF laws reach]
  let ?d = "mcon_decode_epoll_entry (ep_data ev)"
  consider (server) "(n, w1) = mcon_process_server_socket_event w (ep_events ev)"
    | (uring) "mcon_process_io_uring_event L w cap = Some (n, w1)"
    | (session) "mcon_process_session_event w (ep_events ev) ?d cap = Some (n, w1)"
    using run
    by (cases "mcon_owns_event (inst w) ev"; cases "ee_source ?d") (auto simp: mcon_process_event_def)
  then show ?thesis
  proof cases
    case server
    with J show ?thesis by (simp add: mcon_process_server_socket_event_def)
  next
    case uring
    note quiet = ring_closes_at_hangup [OF laws kept(1) room uring J]
    from handle_quiet [OF conjunct2 [OF quiet], of L w1] obtain stop where
      stop: "handle_events L (take (nat n) (evbuf w1)) w1 = Some (stop, w1)"
        "stop \<noteq> None \<Longrightarrow> \<exists>e \<in> set (take (nat n) (evbuf w1)).
          ev_type e = MCON_EVENT_CLOSE_COMPLETE \<and> ev_result e \<noteq> 0"
      by (elim exE conjE) (rule that, assumption, drule mp)
    show ?thesis
      by (intro exI [of _ stop] exI [of _ w1] conjI impI disjI1 stop conjunct1 [OF quiet])
  next
    case session
    from session_event_handled [OF kept(1) room(1) session run(2)
        getsockopt_documented_answer [OF kept(2)] J, of L]
    show ?thesis by blast
  qed
qed

subsection \<open>The server is a well-behaved client\<close>

text \<open>
  Everything the server does to its instance is a step of the protocol, so the instance stays in a
  reachable state and no call of the server can fail to return.
\<close>

lemma api_step:
  assumes laws: "libs_ok L V" and reach: "clean_run L V log w" and ok: "call_allowed w a" "\<not> is_detach a"
  obtains rc w' where "api_run L w a = Some (rc, w')" "clean_run L V (log @ api_log a rc w') w'"
proof -
  obtain rc w' where run: "api_run L w a = Some (rc, w')"
    using api_runs [OF laws clean_keeps(1) [OF laws reach] ok(1)] by blast
  from that [OF run clean_step [OF laws reach mcon_step.api [OF ok(1) run] registered_api_log [OF ok(2)]]]
  show ?thesis .
qed

lemma handle_event_run:
  assumes laws: "libs_ok L V" and reach: "clean_run L V log w"
  shows "\<exists>stop w' as. handle_event L evt w = Some (stop, w') \<and> clean_run L V (log @ as) w' \<and>
    evbuf w' = evbuf w"
proof (cases "ev_type evt = MCON_EVENT_REMOTE_HANGUP")
  case True
  obtain rc w' where run: "mcon_session_close L w (ev_session evt) = Some (rc, w')"
    and step: "clean_run L V (log @ api_log (Call_request (ev_session evt) Request_close) rc w') w'"
    by (rule api_step [OF laws reach, of "Call_request (ev_session evt) Request_close"]) auto
  moreover have "evbuf w' = evbuf w"
    using cl.keeps_inv [OF laws, of w "ev_session evt"] clean_keeps(1) [OF laws reach] run by auto
  ultimately show ?thesis
    using True by (auto simp: handle_event_def)
next
  case False
  then have "\<exists>stop. handle_event L evt w = Some (stop, w)"
    by (cases "ev_type evt") (simp_all add: handle_event_def)
  with reach show ?thesis
    by (auto intro!: exI [of _ "[]"])
qed

lemma handle_events_run:
  assumes "libs_ok L V" "clean_run L V log w"
  shows "\<exists>stop w' as. handle_events L evts w = Some (stop, w') \<and> clean_run L V (log @ as) w' \<and>
    evbuf w' = evbuf w"
  using assms(2)
proof (induction evts arbitrary: log w)
  case Nil
  then show ?case by (auto intro: exI [of _ "[]"])
next
  case (Cons evt evts)
  obtain stop w1 as where one: "handle_event L evt w = Some (stop, w1)" "clean_run L V (log @ as) w1"
      "evbuf w1 = evbuf w"
    using handle_event_run [OF assms(1) Cons.prems] by blast
  show ?case
  proof (cases "stop = None")
    case True
    obtain stop' w2 bs where "handle_events L evts w1 = Some (stop', w2)"
        "clean_run L V ((log @ as) @ bs) w2" "evbuf w2 = evbuf w1"
      using Cons.IH [OF one(2)] by blast
    with one True show ?thesis
      by (auto intro: exI [of _ "as @ bs"])
  next
    case False
    with one show ?thesis by auto
  qed
qed

lemma process_batch_run:
  assumes laws: "libs_ok L V" and "clean_run L V log w" "512 \<le> length (evbuf w)"
  shows "\<exists>stop w' as. process_batch L evs w = Some (stop, w') \<and> clean_run L V (log @ as) w' \<and>
    (stop = None \<longrightarrow> closes_at_hangup (sessions (inst w)) \<longrightarrow> closes_at_hangup (sessions (inst w')))"
  using assms(2,3)
proof (induction evs arbitrary: log w)
  case Nil
  then show ?case by (auto intro: exI [of _ "[]"])
next
  case (Cons ev evs)
  have room: "unat mcon_event_batch_size \<le> length (evbuf w)" "unat mcon_event_batch_size < 2 ^ 31"
    using Cons.prems(2) by (simp_all add: mcon_event_batch_size_def)
  note kept = clean_keeps [OF laws Cons.prems(1)]
  obtain rc w1 where run: "mcon_process_event L w ev mcon_event_batch_size = Some (rc, w1)"
    and step: "clean_run L V (log @ api_log (Call_event ev mcon_event_batch_size) rc w1) w1"
    by (rule api_step [OF laws Cons.prems(1), of "Call_event ev mcon_event_batch_size"])
      (use room in auto)
  have len: "length (evbuf w1) = length (evbuf w)" "rc \<le> int (unat mcon_event_batch_size)"
    using process_event_keeps_inv [OF laws kept(1) room(1), of ev] run
      process_event_bound [OF laws kept(1) room getsockopt_documented_answer [OF kept(2)] run] by auto
  have fits: "nat rc \<le> length (evbuf w1)"
    using len room(1) by (simp add: nat_le_iff del: of_nat_unat)
  show ?case
  proof (cases "rc < 0")
    case True
    with run step show ?thesis by auto
  next
    case False
    obtain stop w2 as where two: "handle_events L (take (nat rc) (evbuf w1)) w1 = Some (stop, w2)"
        "clean_run L V ((log @ api_log (Call_event ev mcon_event_batch_size) rc w1) @ as) w2"
        "evbuf w2 = evbuf w1"
      using handle_events_run [OF laws step] by blast
    have J: "closes_at_hangup (sessions (inst w)) \<Longrightarrow> closes_at_hangup (sessions (inst w2))"
      using event_handled [OF laws Cons.prems(1) room run] False two(1) by auto
    show ?thesis
    proof (cases "stop = None")
      case True
      obtain stop' w3 bs where three: "process_batch L evs w2 = Some (stop', w3)"
          "clean_run L V (((log @ api_log (Call_event ev mcon_event_batch_size) rc w1) @ as) @ bs) w3"
          "stop' = None \<longrightarrow> closes_at_hangup (sessions (inst w2)) \<longrightarrow> closes_at_hangup (sessions (inst w3))"
        using Cons.IH [OF two(2)] Cons.prems(2) len two(3) by auto
      show ?thesis
        using run two(1) three False True fits J
        by (auto simp: not_less intro!: exI [of _ "api_log (Call_event ev mcon_event_batch_size) rc w1 @ as @ bs"])
    next
      case stop: False
      show ?thesis
        using run two False stop fits
        by (auto simp: not_less intro!: exI [of _ "api_log (Call_event ev mcon_event_batch_size) rc w1 @ as"])
    qed
  qed
qed


lemma submit_run:
  assumes "libs_ok L V" "clean_run L V log w"
  shows "\<exists>rc w'. mcon_submit L w = Some (rc, w') \<and> clean_run L V log w' \<and>
    sessions (inst w') = sessions (inst w)"
  using api_step [OF assms, of Call_submit] submit_phases [OF assms(1), of w]
    clean_keeps(1) [OF assms] by fastforce

lemma server_round_run:
  assumes laws: "libs_ok L V" and reach: "clean_run L V log w" and room: "length b = 512"
  shows "\<exists>stop w' as. server_round L waited b w = Some (stop, w') \<and> clean_run L V (log @ as) w' \<and>
    (stop = None \<longrightarrow> closes_at_hangup (sessions (inst w)) \<longrightarrow> closes_at_hangup (sessions (inst w')))"
proof (cases waited)
  case (Epoll_failure e)
  then show ?thesis
    using submit_run [OF laws reach] reach
    by (auto simp: server_round_def intro!: exI [of _ "[]"])
next
  case (Epoll_events evs)
  have "clean_run L V log (w\<lparr>evbuf := b\<rparr>)"
    using clean_step [OF laws reach mcon_step.new_array] by simp
  then obtain stop w1 as where batch: "process_batch L evs (w\<lparr>evbuf := b\<rparr>) = Some (stop, w1)"
      "clean_run L V (log @ as) w1"
      "stop = None \<longrightarrow> closes_at_hangup (sessions (inst w)) \<longrightarrow> closes_at_hangup (sessions (inst w1))"
    using process_batch_run [OF laws, of log "w\<lparr>evbuf := b\<rparr>" evs] room by auto
  then show ?thesis
    using submit_run [OF laws batch(2)] Epoll_events
    by (cases stop) (auto simp: server_round_def)
qed

lemma server_loop_run:
  assumes laws: "libs_ok L V" and "clean_run L V log w" "\<forall>(e, b) \<in> set rounds. length b = 512"
  shows "\<exists>stop w' as. server_loop L rounds w = Some (stop, w') \<and> clean_run L V (log @ as) w' \<and>
    (stop = None \<longrightarrow> closes_at_hangup (sessions (inst w)) \<longrightarrow> closes_at_hangup (sessions (inst w')))"
  using assms(2,3)
proof (induction rounds arbitrary: log w)
  case Nil
  then show ?case by (auto intro: exI [of _ "[]"])
next
  case (Cons r rounds)
  obtain waited b where r: "r = (waited, b)" by force
  then have "length b = 512"
    using Cons.prems(2) by simp
  from server_round_run [OF laws Cons.prems(1) this, of waited] obtain stop w1 as where
    one: "server_round L waited b w = Some (stop, w1)" "clean_run L V (log @ as) w1"
      "stop = None \<longrightarrow> closes_at_hangup (sessions (inst w)) \<longrightarrow> closes_at_hangup (sessions (inst w1))"
    by blast
  show ?case
  proof (cases "stop = None")
    case True
    obtain stop' w2 bs where "server_loop L rounds w1 = Some (stop', w2)"
        "clean_run L V ((log @ as) @ bs) w2"
        "stop' = None \<longrightarrow> closes_at_hangup (sessions (inst w1)) \<longrightarrow> closes_at_hangup (sessions (inst w2))"
      using Cons.IH [OF one(2)] Cons.prems(2) by auto
    with one True r show ?thesis
      by (auto intro: exI [of _ "as @ bs"])
  next
    case False
    with one r show ?thesis by auto
  qed
qed

text \<open>The setup: creating the instance, then work of the client, then the start.\<close>

lemma create_listening_socket_answers:
  assumes "mcon_create_listening_socket gai port addr k = (fd, k')"
  shows "answers k' = answers k"
proof (cases "gai addr (port_string port)")
  case (Some rps)
  obtain fd1 k1 where first: "try_addresses True rps (-1) k = (fd1, k1)" by force
  then have "answers k1 = answers k" "fd1 = -1 \<or> 0 \<le> fd1"
    using try_addresses_leaves [OF first] by auto
  with Some assms first try_addresses_leaves [of False rps fd1 k1 fd k'] show ?thesis
    by (auto simp: mcon_create_listening_socket_def)
qed (use assms in \<open>auto simp: mcon_create_listening_socket_def\<close>)

lemma server_setup_run:
  assumes laws: "libs_ok L V" and run: "server_setup L gai c k = (Inr w, k')"
    and kernel: "getsockopt_documented (os w)"
  shows "clean_run L V [] w"
proof -
  obtain rc mo c1 k1 where create: "mcon_create L server_config c k = (rc, mo, c1, k1)"
    by (metis surj_pair)
  obtain ls k2 where sock: "mcon_create_listening_socket gai 8080 (Some ''0.0.0.0'') k1 = (ls, k2)"
    by force
  obtain v k3 where valid: "mcon_listening_socket_valid ls k2 = (v, k3)" by force
  obtain r4 k4 where acc: "syscall (Accept ls) k3 = (r4, k4)" by force
  obtain r5 k5 where epoll: "syscall Epoll_create k4 = (r5, k5)" by force
  note defs = server_setup_def create sock valid acc epoll
  obtain m where m: "mo = Some m" "rc = 0"
    by (rule mcon_create_cases [OF create, where R = "{#}"]) (use run in \<open>auto simp: defs\<close>)
  obtain rc' where start: "mcon_start \<lparr>inst = m, os = k5, evbuf = []\<rparr> ls (rv r5) = (rc', w)" "rc' = 0"
    using run m by (auto simp: defs Let_def split: if_splits prod.splits)
  have "answers k5 = answers k1"
    using create_listening_socket_answers [OF sock] listening_socket_valid_answers [OF valid] acc epoll
    by (auto simp: rt_simps)
  then have k: "answers k5 = answers (os \<lparr>inst = m, os = k1, evbuf = []\<rparr>)"
    by simp
  have "reachable L V [] \<lparr>inst = m, os = k1, evbuf = []\<rparr>"
    using reachable.created [OF create [unfolded m]] .
  from reachable.step [OF this mcon_step.client_work [OF k]]
  have "reachable L V [] \<lparr>inst = m, os = k5, evbuf = []\<rparr>"
    by simp
  from reachable.step [OF this mcon_step.api [where a = "Call_start ls (rv r5)"]] start
  have "reachable L V [] w" by fastforce
  with kernel show ?thesis by (simp add: clean_run_def)
qed

lemma created_sessions:
  assumes "mcon_create L config c k = (0, Some m, c', k')"
  shows "sessions m = replicate (length (sessions m)) session_init"
proof (rule mcon_create_cases [OF assms, where R = "{#}"], goal_cases)
  case (2 t m')
  then have "sessions m = map (\<lambda>_. session_init) [0..<unat (cfg_session_count config)]"
    by (metis mcon.select_convs(5) option.inject)
  then show ?case
    by (simp add: map_replicate_const)
qed simp

lemma server_setup_sessions:
  assumes run: "server_setup L gai c k = (Inr w, k')"
  shows "closes_at_hangup (sessions (inst w))" "os w = k'"
proof -
  obtain rc mo c1 k1 where create: "mcon_create L server_config c k = (rc, mo, c1, k1)"
    by (metis surj_pair)
  obtain m where m: "mo = Some m" "rc = 0"
    by (rule mcon_create_cases [OF create, where R = "{#}"])
      (use run in \<open>auto simp: server_setup_def create\<close>)
  have "closes_at_hangup (sessions m)"
    using created_sessions [OF create [unfolded m]] set_replicate_conv_if
    by (metis bit_0_eq bot_apply bot_bool_def closes_at_hangup_def empty_iff hangup_seen_def
        insert_iff session_init_def mcon_session.select_convs(3) MCON_SESSION_STATE_NONE_def)
  moreover have "\<exists>k2 lfd epfd rc'. mcon_start \<lparr>inst = m, os = k2, evbuf = []\<rparr> lfd epfd = (rc', w) \<and> os w = k'"
    using run by (auto simp: server_setup_def create m Let_def split: prod.splits if_splits)
  ultimately show "closes_at_hangup (sessions (inst w))" "os w = k'"
    using mcon_start_frame by fastforce+
qed

subsection \<open>Properties\<close>

text \<open>C6. From a successful setup on, whatever \<open>epoll_wait\<close> answers and however the kernel completes the
  requests, every round of the server returns: the instance stays in a reachable state of the
  protocol, with the library's invariant, no detach has failed with \<open>ENOENT\<close>, and as long as the server
  runs no session is being read or written and every session being closed has seen its hang-up.
  Hypotheses: the array of the server has 512 places, and \<open>getsockopt\<close> returns zero or a negative
  value.\<close>

theorem server_runs_safely:
  assumes "libs_ok L V" "server_setup L gai c k = (Inr w, k')" "getsockopt_documented k'"
    and "\<forall>(e, b) \<in> set rounds. length b = 512"
  shows "\<exists>stop w' log. server_loop L rounds w = Some (stop, w') \<and> reachable L V log w' \<and>
    registered log \<and> mcon_inv V (inst w') \<and>
    (stop = None \<longrightarrow> closes_at_hangup (sessions (inst w')))"
proof -
  have "clean_run L V [] w"
    using server_setup_run [OF assms(1,2)] server_setup_sessions(2) [OF assms(2)] assms(3) by simp
  from server_loop_run [OF assms(1) this assms(4)] obtain stop w' as where
    "server_loop L rounds w = Some (stop, w')" "clean_run L V as w'"
    "stop = None \<longrightarrow> closes_at_hangup (sessions (inst w'))"
    using server_setup_sessions(1) [OF assms(2)] by auto
  with clean_keeps(1) [OF assms(1) this(2)] show ?thesis
    by (auto simp: clean_run_def)
qed

text \<open>A kernel on which every step of the setup succeeds.\<close>

fun server_answer :: "ecall \<Rightarrow> reply" where
  "server_answer Eventfd = \<lparr>rv = 5, rerr = 0, rout = 0\<rparr>"
| "server_answer (Malloc_sessions n) = \<lparr>rv = 4096, rerr = 0, rout = 0\<rparr>"
| "server_answer Malloc_mcon = \<lparr>rv = 64, rerr = 0, rout = 0\<rparr>"
| "server_answer (Socket f t) = \<lparr>rv = 3, rerr = 0, rout = 0\<rparr>"
| "server_answer (Getsockopt fd opt) = \<lparr>rv = 0, rerr = 0, rout = 1\<rparr>"
| "server_answer (Fcntl_getfl fd) = \<lparr>rv = 0x802, rerr = 0, rout = 0\<rparr>"
| "server_answer (Accept fd) = \<lparr>rv = -1, rerr = EAGAIN, rout = 0\<rparr>"
| "server_answer Epoll_create = \<lparr>rv = 4, rerr = 0, rout = 0\<rparr>"
| "server_answer c = \<lparr>rv = 0, rerr = 0, rout = 0\<rparr>"

definition server_kernel :: kernel where
  "server_kernel = \<lparr>answers = (\<lambda>_. server_answer), trace = [], errno = 0\<rparr>"

lemma server_config_valid: "mcon_config_validate server_config"
  by (simp add: mcon_config_validate_def server_config_def max_concurrent_sessions_def)

lemma server_kernel_calls:
  assumes "answers k = (\<lambda>_. server_answer)"
  shows "syscall c k = (server_answer c, k\<lparr>trace := trace k @ [(c, server_answer c)],
      errno := (if rv (server_answer c) < 0 then rerr (server_answer c) else errno k)\<rparr>)"
    "libcall c k = (server_answer c, k\<lparr>trace := trace k @ [(c, server_answer c)]\<rparr>)"
  using assms by (simp_all add: rt_simps answer_def)

lemma setup_creates:
  assumes "answers k = (\<lambda>_. server_answer)"
  shows "\<exists>m c' k'. mcon_create ref_libs server_config 1 k = (0, Some m, c', k') \<and>
    answers k' = (\<lambda>_. server_answer)"
  using assms server_config_valid
  by (simp add: mcon_create_def Let_def io_queue_create_def server_kernel_calls next_instance_id_def)

lemma setup_listens:
  assumes "answers k = (\<lambda>_. server_answer)"
  shows "\<exists>k'. mcon_create_listening_socket (\<lambda>_ _. Some [\<lparr>ai_family = 2, ai_addr = []\<rparr>]) 8080 h k = (3, k') \<and>
    answers k' = (\<lambda>_. server_answer)"
  using assms
  by (simp add: mcon_create_listening_socket_def can_try_dual_stack_def prep_server_socket_def
      server_kernel_calls)

lemma setup_valid:
  assumes "answers k = (\<lambda>_. server_answer)"
  shows "\<exists>k'. mcon_listening_socket_valid 3 k = (MCON_SOCKET_OK, k') \<and> answers k' = (\<lambda>_. server_answer)"
  using assms by (simp add: mcon_listening_socket_valid_def server_kernel_calls)

lemma setup_starts:
  assumes "answers k = (\<lambda>_. server_answer)"
  shows "\<exists>w. mcon_start \<lparr>inst = m, os = k, evbuf = []\<rparr> 3 4 = (0, w) \<and> answers (os w) = (\<lambda>_. server_answer)"
proof -
  obtain k1 where v: "mcon_listening_socket_valid 3 k = (MCON_SOCKET_OK, k1)"
    "answers k1 = (\<lambda>_. server_answer)"
    using setup_valid [OF assms] by blast
  then show ?thesis
    by (simp add: mcon_start_def server_kernel_calls)
qed

lemma sample_setup:
  "\<exists>w k'. server_setup ref_libs (\<lambda>_ _. Some [\<lparr>ai_family = 2, ai_addr = []\<rparr>]) 1 server_kernel = (Inr w, k') \<and>
    getsockopt_documented k'"
proof -
  obtain m c' k1 where c: "mcon_create ref_libs server_config 1 server_kernel = (0, Some m, c', k1)"
    "answers k1 = (\<lambda>_. server_answer)"
    using setup_creates [of server_kernel] by (auto simp: server_kernel_def)
  obtain k2 where l: "mcon_create_listening_socket (\<lambda>_ _. Some [\<lparr>ai_family = 2, ai_addr = []\<rparr>]) 8080
      (Some ''0.0.0.0'') k1 = (3, k2)" "answers k2 = (\<lambda>_. server_answer)"
    using setup_listens [OF c(2)] by blast
  obtain k3 where v: "mcon_listening_socket_valid 3 k2 = (MCON_SOCKET_OK, k3)"
    "answers k3 = (\<lambda>_. server_answer)"
    using setup_valid [OF l(2)] by blast
  obtain k4 where a: "syscall (Accept 3) k3 = (server_answer (Accept 3), k4)"
    "answers k4 = (\<lambda>_. server_answer)"
    using v(2) by (simp add: server_kernel_calls)
  obtain k5 where e: "syscall Epoll_create k4 = (server_answer Epoll_create, k5)"
    "answers k5 = (\<lambda>_. server_answer)"
    using a(2) by (simp add: server_kernel_calls)
  obtain w where s: "mcon_start \<lparr>inst = m, os = k5, evbuf = []\<rparr> 3 4 = (0, w)"
    "answers (os w) = (\<lambda>_. server_answer)"
    using setup_starts [OF e(2)] by blast
  have "getsockopt_documented (os w)"
    using s(2) by (simp add: getsockopt_documented_def)
  with c l v a e s show ?thesis
    by (simp add: server_setup_def)
qed

theorem server_runs_safely_witness:
  "\<exists>w. (\<exists>k'. server_setup ref_libs (\<lambda>_ _. Some [\<lparr>ai_family = 2, ai_addr = []\<rparr>]) 1 server_kernel =
      (Inr w, k')) \<and>
    (\<exists>stop w'. server_loop ref_libs [(Epoll_events [ring_event], replicate 512
      \<lparr>ev_result = 0, ev_session = 0, ev_type = MCON_EVENT_NONE\<rparr>)] w = Some (stop, w') \<and>
      mcon_inv ref_views (inst w'))"
proof -
  obtain w k' where "server_setup ref_libs (\<lambda>_ _. Some [\<lparr>ai_family = 2, ai_addr = []\<rparr>]) 1 server_kernel =
      (Inr w, k')" "getsockopt_documented k'"
    using sample_setup by blast
  from server_runs_safely [OF ref_libs_ok this, of "[(Epoll_events [ring_event], replicate 512
      \<lparr>ev_result = 0, ev_session = 0, ev_type = MCON_EVENT_NONE\<rparr>)]"] this(1)
  show ?thesis by auto
qed

text \<open>C25. The server closes a session when its hang-up is reported and never again: handling the events of
  one epoll event ends the server only because a completed close reports an error, or because the
  library refuses the close for lack of room in the queue or because the session is vacant; it does not
  happen that a session is already being closed. In the run before, no detach has failed with \<open>ENOENT\<close>,
  and \<open>getsockopt\<close> returns zero or a negative value.\<close>

theorem server_closes_once:
  assumes "libs_ok L V" "reachable L V log w" "registered log" "getsockopt_documented (os w)"
    and "closes_at_hangup (sessions (inst w))" "512 \<le> length (evbuf w)"
    and "mcon_process_event L w ev mcon_event_batch_size = Some (n, w1)" "0 \<le> n"
  shows "\<exists>stop w2. handle_events L (take (nat n) (evbuf w1)) w1 = Some (stop, w2) \<and>
    closes_at_hangup (sessions (inst w2)) \<and>
    (stop \<noteq> None \<longrightarrow>
      (\<exists>e \<in> set (take (nat n) (evbuf w1)). ev_type e = MCON_EVENT_CLOSE_COMPLETE \<and> ev_result e \<noteq> 0) \<or>
      close_refused L w1 (ee_session (mcon_decode_epoll_entry (ep_data ev))))"
  by (rule event_handled [OF assms(1) clean_runI [OF assms(2-4)] _ _ assms(7,8,5)])
    (use assms(6) in \<open>simp_all add: mcon_event_batch_size_def\<close>)

text \<open>The connected session of the evaluated run hangs up.\<close>

definition hangup_event :: epoll_event where
  "hangup_event = \<lparr>ep_events = EPOLLRDHUP, ep_data = mcon_encode_epoll_entry
     \<lparr>ee_instance_id = 1, ee_generation = 0, ee_source = MCON_EPOLL_SOURCE_SESSION, ee_session = 0,
      ee_reserved = 0\<rparr>\<rparr>"

definition demo_hangup :: ref_world where
  "demo_hangup = (snd demo_connected)\<lparr>evbuf := replicate 512
     \<lparr>ev_result = 0, ev_session = 0, ev_type = MCON_EVENT_NONE\<rparr>\<rparr>"

lemma demo_connected_sessions: "sessions (inst (snd demo_connected)) =
    [\<lparr>socket_fd = 9, generation = 0, sess_state = 0\<rparr>, session_init]"
  by code_simp

lemma demo_hangup_processed:
  "case mcon_process_event ref_libs demo_hangup hangup_event mcon_event_batch_size of
     None \<Rightarrow> False | Some (n, w) \<Rightarrow> n = 1"
  by code_simp

theorem server_closes_once_witness:
  "\<exists>n w1 stop w2. mcon_process_event ref_libs demo_hangup hangup_event mcon_event_batch_size =
      Some (n, w1) \<and> handle_events ref_libs (take (nat n) (evbuf w1)) w1 = Some (stop, w2) \<and>
    closes_at_hangup (sessions (inst w2))"
proof -
  obtain n w1 where run: "mcon_process_event ref_libs demo_hangup hangup_event mcon_event_batch_size =
      Some (n, w1)" and n: "n = 1"
    using demo_hangup_processed by (auto split: option.splits)
  have J: "closes_at_hangup (sessions (inst demo_hangup))"
    by (simp add: demo_hangup_def demo_connected_sessions closes_at_hangup_def hangup_seen_def
        session_init_def)
  let ?log = "[Reported \<lparr>ev_result = 9, ev_session = 0, ev_type = MCON_EVENT_NEW_CONNECTION\<rparr>] @ []"
  have "clean_run ref_libs ref_views ?log demo_hangup"
    unfolding demo_hangup_def
    by (rule clean_step [OF ref_libs_ok demo_connected_run mcon_step.new_array]) simp
  then have reach: "reachable ref_libs ref_views ?log demo_hangup" "registered ?log"
    "getsockopt_documented (os demo_hangup)"
    by (simp_all add: clean_run_def)
  have "512 \<le> length (evbuf demo_hangup)" "0 \<le> n"
    using n by (simp_all add: demo_hangup_def)
  from server_closes_once [OF ref_libs_ok reach J this(1) run this(2)] run show ?thesis
    by blast
qed

lemma strncmp_status:
  assumes "CHR 0x00 \<in> set cs" "CHR '' '' \<notin> set ds" "CHR 0x00 \<notin> set ds"
  shows "strncmp_equal (takeWhile (\<lambda>c. c \<noteq> CHR 0x00) cs) ds (search_target cs) \<longleftrightarrow>
    takeWhile (\<lambda>c. c \<noteq> CHR 0x00) cs = ds"
  using assms
proof (induction cs arbitrary: ds)
  case (Cons c cs)
  show ?case
  proof (cases "c = CHR 0x00")
    case True
    then show ?thesis by (cases ds) auto
  next
    case False
    then show ?thesis
      using Cons by (cases ds) auto
  qed
qed simp

text \<open>The command handler answers exactly the command \<open>status\<close>: on a buffer that holds a C string, only
  that whole string is recognised, although the code looks for the first blank; the answer is the number
  of active sessions.\<close>

theorem status_matches_exactly:
  assumes "CHR 0x00 \<in> set buffer"
  shows "handle_command L buffer output_size m =
    (if takeWhile (\<lambda>c. c \<noteq> CHR 0x00) buffer = ''status''
     then (let text = ''active sessions: '' @ decimal_int (sint (mcon_active_session_count L m)) @ [CHR 0x0A]
           in (int (length text), if output_size = 0 then None else Some (take (output_size - 1) text)))
     else (0, None))"
  using strncmp_status [OF assms, of "''status''"] by (simp add: handle_command_def Let_def)

theorem status_matches_exactly_witness:
  "handle_command ref_libs (''status x'' @ [CHR 0x00]) 512 sample_mcon = (0, None)"
  by (subst status_matches_exactly) simp_all

end
