(* ===== verification/Client_Options.thy ===== *)
theory Client_Options
  imports C_Strings "HOL-Library.Signed_Division"
begin

text \<open>
  The options of the load-test client and the source addresses it computes from them:
  \<open>src/apps/million_connections/mcon_client.c\<close>, up to the parser, and \<open>get_source_address\<close>,
  \<open>iteration_timing\<close>. \<open>inet_pton\<close> and \<open>argp_parse\<close> are parameters or callers. Undefined behaviour of C
  is the outcome \<open>None\<close>. The lemmas say which ports and ranges the parsers accept, which address
  each connection gets, and when the progress line is due.
\<close>

subsection \<open>Addresses and the configuration\<close>

text \<open>\<open>htonl\<close> and \<open>ntohl\<close> on a little-endian machine: the bytes in the opposite order.\<close>

definition htonl :: "u32 \<Rightarrow> u32" where
  "htonl x = push_bit 24 (x AND 0xFF) OR push_bit 8 (x AND 0xFF00) OR
     (drop_bit 8 x AND 0xFF00) OR drop_bit 24 x"

definition ntohl :: "u32 \<Rightarrow> u32" where "ntohl = htonl"

text \<open>A \<open>struct in_addr\<close> is its field \<open>s_addr\<close>, in network byte order.\<close>

record ipv4_range =
  range_first :: u32
  range_final :: u32

record cli_config =
  cli_port :: u16
  cli_host :: u32
  cli_source_range :: ipv4_range

text \<open>\<open>inet_addr("127.0.0.2")\<close> and \<open>inet_addr("127.0.0.22")\<close>.\<close>

definition cli_config_default :: cli_config where
  "cli_config_default = \<lparr>cli_port = 8080, cli_host = 0,
     cli_source_range = \<lparr>range_first = htonl 0x7F000002, range_final = htonl 0x7F000016\<rparr>\<rparr>"

subsection \<open>Parsing\<close>

definition parse_port :: "string \<Rightarrow> int" where
  "parse_port arg =
     (let (port, consumed, erange) = strtol arg
      in if erange \<or> consumed = 0 \<or> consumed \<noteq> length arg then -1
         else if port < 0 \<or> 65535 < port then -1
         else port)"

definition INET_ADDRSTRLEN :: nat where [simp]: "INET_ADDRSTRLEN = 16"

text \<open>
  \<open>None\<close>: the copy of the address part, with its terminating 0, leaves the array of
  \<open>INET_ADDRSTRLEN + 1\<close> characters, or a 32-bit value is shifted by 32.
\<close>

definition parse_source_range ::
  "(string \<Rightarrow> u32 option) \<Rightarrow> string \<Rightarrow> ipv4_range \<Rightarrow> (int \<times> ipv4_range) option" where
  "parse_source_range inet_pton arg range_out =
     (let arg_len = length arg;
          delimiter_index = length (takeWhile (\<lambda>c. c \<noteq> CHR ''/'') arg)
      in if delimiter_index = arg_len then Some (-1, range_out)
         else
          (let rest = drop (delimiter_index + 1) arg;
               (prefix, consumed, erange) = strtol rest
           in if erange \<or> consumed = 0 \<or> consumed \<noteq> length rest \<or> prefix < 0 \<or> 32 < prefix
              then Some (-1, range_out)
              else if \<not> delimiter_index < INET_ADDRSTRLEN + 1 then None
              else
                (case inet_pton (take delimiter_index arg) of
                   None \<Rightarrow> Some (-1, range_out)
                 | Some address \<Rightarrow>
                     (let address_host = ntohl address
                      in if prefix = 32 then None
                         else
                          (let host_mask = (if prefix = 0 then 0xFFFFFFFF
                                            else drop_bit (nat prefix) 0xFFFFFFFF)
                           in Some (0, \<lparr>range_first = htonl address_host,
                                        range_final = htonl (address_host OR host_mask)\<rparr>))))))"

definition ARGP_ERR_UNKNOWN :: int where [simp]: "ARGP_ERR_UNKNOWN = 7"

definition parse_args ::
  "(string \<Rightarrow> u32 option) \<Rightarrow> char \<Rightarrow> string \<Rightarrow> cli_config \<Rightarrow> (int \<times> cli_config) option" where
  "parse_args inet_pton key arg config =
     (if key = CHR ''p'' then
        (let port = parse_port arg
         in if port = -1 then Some (ARGP_ERR_UNKNOWN, config)
            else Some (0, config\<lparr>cli_port := word_of_int port\<rparr>))
      else if key = CHR ''H'' then
        (case inet_pton arg of None \<Rightarrow> Some (ARGP_ERR_UNKNOWN, config)
         | Some host \<Rightarrow> Some (0, config\<lparr>cli_host := host\<rparr>))
      else if key = CHR ''s'' then
        do { (rc, range) \<leftarrow> parse_source_range inet_pton arg (cli_source_range config);
             if rc \<noteq> 0 then Some (ARGP_ERR_UNKNOWN, config\<lparr>cli_source_range := range\<rparr>)
             else Some (0, config\<lparr>cli_source_range := range\<rparr>) }
      else Some (ARGP_ERR_UNKNOWN, config))"

subsection \<open>Source addresses and progress\<close>

definition CONNECTIONS_PER_SOURCE_ADDRESS :: u32 where
  [simp]: "CONNECTIONS_PER_SOURCE_ADDRESS = 25000"

text \<open>The return code, the address stored through \<open>out\<close> (unchanged on failure) and the kernel.\<close>

definition get_source_address ::
  "u32 \<Rightarrow> ipv4_range \<Rightarrow> u32 \<Rightarrow> kernel \<Rightarrow> int \<times> u32 \<times> kernel" where
  "get_source_address connection_idx source_range out k =
     (let min_address = ntohl (range_first source_range);
          max_address = ntohl (range_final source_range);
          num_addresses = max_address - min_address
      in if num_addresses * CONNECTIONS_PER_SOURCE_ADDRESS \<le> connection_idx
         then (-1, out, set_errno EINVAL k)
         else
          (let address_idx = connection_idx div CONNECTIONS_PER_SOURCE_ADDRESS;
               target_address = min_address + address_idx
           in (0, htonl target_address, k)))"

text \<open>\<open>struct timespec\<close>; the current time is what \<open>clock_gettime\<close> stored. Division truncates.\<close>

record timespec =
  tv_sec :: int
  tv_nsec :: int

definition iteration_timing :: "int \<Rightarrow> timespec \<Rightarrow> timespec \<Rightarrow> bool \<times> timespec" where
  "iteration_timing interval_ms current_time last_execution =
     (let time_passed_ms = (tv_sec current_time - tv_sec last_execution) * 1000 +
            (tv_nsec current_time - tv_nsec last_execution) sdiv 1000000;
          execute = (interval_ms \<le> time_passed_ms)
      in (execute, if execute then current_time else last_execution))"

subsection \<open>Ports\<close>

lemma parse_port_cases: "parse_port s = -1 \<or> 0 \<le> parse_port s \<and> parse_port s \<le> 65535"
  by (auto simp: parse_port_def split: prod.splits)

text \<open>The port option accepts exactly the decimal numbers from 0 to 65535, after optional blanks and a
  sign, and yields their value; everything else is refused with -1.\<close>

theorem parse_port_accepts:
  "parse_port s \<noteq> -1 \<and> parse_port s = p \<longleftrightarrow>
     (\<exists>spaces sign digits. numeral_syntax s spaces sign digits \<and> p = numeral_value sign digits \<and>
        0 \<le> p \<and> p \<le> 65535)"
proof
  assume p: "parse_port s \<noteq> -1 \<and> parse_port s = p"
  obtain v n e where s: "strtol s = (v, n, e)" by (metis surj_pair)
  with p have "\<not> e" "n \<noteq> 0" "n = length s" "p = v" "0 \<le> v" "v \<le> 65535"
    by (auto simp: parse_port_def split: if_splits)
  with strtol_whole [of s v n] s show "\<exists>spaces sign digits. numeral_syntax s spaces sign digits \<and>
      p = numeral_value sign digits \<and> 0 \<le> p \<and> p \<le> 65535"
    by metis
next
  assume "\<exists>spaces sign digits. numeral_syntax s spaces sign digits \<and> p = numeral_value sign digits \<and>
    0 \<le> p \<and> p \<le> 65535"
  then obtain spaces sign digits where "numeral_syntax s spaces sign digits"
    "p = numeral_value sign digits" "0 \<le> p" "p \<le> 65535" by blast
  moreover from this have "s \<noteq> []" by (auto simp: numeral_syntax_def)
  ultimately show "parse_port s \<noteq> -1 \<and> parse_port s = p"
    using strtol_numeral [of s] by (simp add: parse_port_def Let_def)
qed

text \<open>A port survives being written in decimal and parsed again.\<close>

theorem parse_port_roundtrip: "parse_port (decimal (unat (p :: u16))) = int (unat p)"
  using strtol_decimal [of "unat p"] decimal_digits [of "unat p"] unat_u16_bound [of p]
  by (simp add: parse_port_def Let_def del: of_nat_unat)

subsection \<open>Byte order\<close>

lemma byte_masks: "(0xFF :: u32) = mask 8" "(0xFF00 :: u32) = push_bit 8 (mask 8)"
  by (simp_all add: mask_eq_exp_minus_1 push_bit_eq_mult)

lemma bit_htonl:
  "bit (htonl x) n \<longleftrightarrow> n < 32 \<and>
     bit x (if n < 8 then n + 24 else if n < 16 then n + 8 else if n < 24 then n - 8 else n - 24)"
proof -
  have out: "m < 32" if "bit w m" for w :: u32 and m
    using bit_imp_le_length [OF that] by simp
  show ?thesis
  proof (cases "n < 32")
    case False
    then show ?thesis using out [of "htonl x" n] by auto
  next
    case True
    consider "n < 8" | "8 \<le> n" "n < 16" | "16 \<le> n" "n < 24" | "24 \<le> n" by linarith
    then show ?thesis
      using True out [of x "n + 24"] out [of x "n + 8"]
      by cases (auto simp: htonl_def byte_masks bit_or_iff bit_and_iff bit_push_bit_iff bit_drop_bit_eq
        bit_mask_iff add.commute)
  qed
qed

lemma htonl_htonl: "htonl (htonl x) = x"
  by (rule bit_word_eqI) (auto simp: bit_htonl)

lemma ntohl_htonl [simp]: "ntohl (htonl x) = x" "htonl (ntohl x) = x"
  by (simp_all add: ntohl_def htonl_htonl)

subsection \<open>Source ranges\<close>

lemma host_mask: "n < 32 \<Longrightarrow> drop_bit n (0xFFFFFFFF :: u32) = mask (32 - n)"
  by (rule bit_word_eqI) (auto simp: bit_drop_bit_eq bit_mask_iff
    bit_mask_iff [where 'a = "32 word", of 32, unfolded mask_eq_exp_minus_1, simplified])

lemma network_bound:
  fixes a x :: u32
  assumes "drop_bit k x = drop_bit k a"
  shows "x \<le> a OR mask k"
proof -
  have "a OR mask k = x OR mask k"
  proof (rule bit_word_eqI)
    fix n assume n: "n < LENGTH(32)"
    show "bit (a OR mask k) n = bit (x OR mask k) n"
      using n arg_cong [OF assms, of "\<lambda>w. bit w (n - k)"]
      by (cases "n < k") (auto simp: bit_or_iff bit_mask_iff bit_drop_bit_eq)
  qed
  moreover have "x \<le> x OR mask k"
    by (rule le_word_or2)
  ultimately show ?thesis by simp
qed

lemma network_part: "drop_bit k ((a :: u32) OR mask k) = drop_bit k a"
  by (rule bit_word_eqI) (auto simp: bit_drop_bit_eq bit_or_iff bit_mask_iff)

text \<open>C35. A range in decimal notation: an address part that does not fit the buffer and the prefix 32 are
  undefined, an unreadable address is refused, and otherwise the range goes from the address itself to
  the last address of its network.\<close>

theorem source_range_outcome:
  assumes "CHR ''/'' \<notin> set addr" "n \<le> 32"
  shows "parse_source_range inet_pton (addr @ CHR ''/'' # decimal n) out =
    (if 16 < length addr then None
     else case inet_pton addr of None \<Rightarrow> Some (-1, out)
       | Some a \<Rightarrow> if n = 32 then None
           else Some (0, \<lparr>range_first = a, range_final = htonl (ntohl a OR mask (32 - n))\<rparr>))"
proof -
  have slash: "takeWhile (\<lambda>c. c \<noteq> CHR ''/'') (addr @ CHR ''/'' # decimal n) = addr"
    using assms(1) by (intro takeWhile_stops) (auto simp: list_all_iff)
  have strtol: "strtol (decimal n) = (int n, length (decimal n), False)"
    using assms(2) by (intro strtol_decimal) simp
  have "(if int n = 0 then 0xFFFFFFFF else drop_bit (nat (int n)) 0xFFFFFFFF) = (mask (32 - n) :: u32)" if "n < 32"
    using host_mask [OF that] host_mask [of 0] by simp
  then show ?thesis
    using assms(2) decimal_digits [of n] unfolding parse_source_range_def Let_def slash
    by (auto simp: strtol split: option.split)
qed

definition demo_inet_pton :: "string \<Rightarrow> u32 option" where
  "demo_inet_pton s = (if s = ''10.0.0.1'' then Some (htonl 0x0A000001) else None)"

theorem source_range_outcome_witness:
  "parse_source_range demo_inet_pton (''10.0.0.1'' @ CHR ''/'' # decimal 24) (cli_source_range cli_config_default) =
     Some (0, \<lparr>range_first = htonl 0x0A000001, range_final = htonl 0x0A0000FF\<rparr>)"
  by (subst source_range_outcome) (simp_all add: demo_inet_pton_def mask_eq_exp_minus_1)

text \<open>Whenever a range is accepted, the prefix is below 32, the range starts at the address written
  before the slash, and its end is the largest address of that address's network.\<close>

theorem source_range_covers_network:
  assumes "parse_source_range inet_pton arg out = Some (0, r)"
  shows "\<exists>addr text n. arg = addr @ CHR ''/'' # text \<and> strtol text = (int n, length text, False) \<and> n < 32 \<and>
    inet_pton addr = Some (range_first r) \<and>
    drop_bit (32 - n) (ntohl (range_final r)) = drop_bit (32 - n) (ntohl (range_first r)) \<and>
    (\<forall>x. drop_bit (32 - n) x = drop_bit (32 - n) (ntohl (range_first r)) \<longrightarrow> x \<le> ntohl (range_final r))"
proof -
  define addr where "addr = takeWhile (\<lambda>c. c \<noteq> CHR ''/'') arg"
  define rest where "rest = drop (Suc (length addr)) arg"
  obtain v consumed e where num: "strtol rest = (v, consumed, e)" by (metis surj_pair)
  have take: "take (length addr) arg = addr"
    by (simp add: addr_def flip: takeWhile_eq_take)
  from assms obtain a where delim: "length addr \<noteq> length arg"
    and v: "\<not> e" "consumed = length rest" "0 \<le> v" "v < 32" and a: "inet_pton addr = Some a"
    and r: "r = \<lparr>range_first = a,
      range_final = htonl (ntohl a OR (if v = 0 then 0xFFFFFFFF else drop_bit (nat v) 0xFFFFFFFF))\<rparr>"
    unfolding parse_source_range_def Let_def addr_def [symmetric]
    by (auto simp: num take simp flip: rest_def split: if_splits option.splits)
  have "length addr \<le> length arg"
    by (simp add: addr_def length_takeWhile_le)
  have slash: "CHR ''/'' \<in> set arg"
  proof (rule ccontr)
    assume "CHR ''/'' \<notin> set arg"
    then have "addr = arg"
      unfolding addr_def by (intro takeWhile_eq_all_conv [THEN iffD2]) auto
    with delim show False by simp
  qed
  have dw: "drop (length addr) arg = dropWhile (\<lambda>c. c \<noteq> CHR ''/'') arg"
    by (simp only: addr_def dropWhile_eq_drop)
  have nonempty: "dropWhile (\<lambda>c. c \<noteq> CHR ''/'') arg \<noteq> []"
    using slash by (simp add: dropWhile_eq_Nil_conv)
  have "rest = tl (drop (length addr) arg)"
    by (simp add: rest_def drop_Suc tl_drop)
  then have "drop (length addr) arg = CHR ''/'' # rest"
    using hd_dropWhile [OF nonempty] nonempty unfolding dw by (metis list.collapse)
  then have arg: "arg = addr @ CHR ''/'' # rest"
    using take append_take_drop_id [of "length addr" arg] by simp
  obtain n where n: "v = int n" "n < 32"
    using v(3,4) by (metis nat_0_le zless_nat_conj nat_numeral zero_less_numeral nat_less_iff of_nat_numeral zle_int)
  have final: "ntohl (range_final r) = ntohl a OR mask (32 - n)" "range_first r = a"
    using r n host_mask [of n] host_mask [of 0] by simp_all
  show ?thesis
    using arg num v(1,2) n a final network_part [of "32 - n" "ntohl a"] network_bound [of "32 - n" _ "ntohl a"]
    by (intro exI [of _ addr] exI [of _ rest] exI [of _ n]) simp
qed

lemma demo_range:
  "parse_source_range demo_inet_pton ''10.0.0.1/24'' (cli_source_range cli_config_default) =
     Some (0, \<lparr>range_first = htonl 0x0A000001, range_final = htonl 0x0A0000FF\<rparr>)"
  by code_simp

theorem source_range_covers_network_witness:
  "drop_bit 8 (0x0A0000FF :: u32) = drop_bit 8 0x0A000001 \<and>
   (\<exists>addr text n. ''10.0.0.1/24'' = addr @ CHR ''/'' # text \<and> demo_inet_pton addr = Some (htonl 0x0A000001) \<and>
      strtol text = (int n, length text, False) \<and> n < 32)"
  using source_range_covers_network [OF demo_range] by auto

subsection \<open>Source addresses\<close>

text \<open>How many connections the test in the code admits: the product wraps around at 32 bits.\<close>

definition admitted_connections :: "ipv4_range \<Rightarrow> nat" where
  "admitted_connections r = (unat (ntohl (range_final r)) - unat (ntohl (range_first r))) * 25000 mod 2 ^ 32"

lemma get_source_address_eq:
  assumes "ntohl (range_first r) \<le> ntohl (range_final r)"
  shows "get_source_address idx r out k =
    (if unat idx < admitted_connections r then (0, htonl (ntohl (range_first r) + idx div 25000), k)
     else (-1, out, set_errno EINVAL k))"
proof -
  have "unat ((ntohl (range_final r) - ntohl (range_first r)) * 25000) = admitted_connections r"
    unfolding unat_word_ariths(2) unat_sub [OF assms] admitted_connections_def by simp
  then have "(ntohl (range_final r) - ntohl (range_first r)) * 25000 \<le> idx \<longleftrightarrow> \<not> unat idx < admitted_connections r"
    by (simp only: word_le_nat_alt not_less)
  then show ?thesis
    by (simp add: get_source_address_def Let_def)
qed

lemma block_card: "card {i :: u32. i div 25000 = q} \<le> 25000"
proof -
  have "card {i :: u32. i div 25000 = q} = card (unat ` {i :: u32. i div 25000 = q})"
    by (rule card_image [symmetric]) (auto intro!: inj_onI word_unat_eq_iff [THEN iffD2])
  also have "unat ` {i :: u32. i div 25000 = q} \<subseteq> {25000 * unat q ..< 25000 * unat q + 25000}"
    by (auto simp: unat_div dest!: arg_cong [of _ _ unat]) 
  then have "card (unat ` {i :: u32. i div 25000 = q}) \<le> card {25000 * unat q ..< 25000 * unat q + 25000}"
    by (intro card_mono) auto
  finally show ?thesis by simp
qed

text \<open>C18. The address of a connection: the code admits the indices below the number of addresses before the
  last, times 25000, taken modulo 2 to the 32; an admitted connection gets the address of its block of
  25000, which lies in the range and is never its last address, and no address serves more than 25000
  connections. A refused one leaves the address unwritten and sets \<open>EINVAL\<close>.\<close>

theorem source_address_assigned:
  assumes "ntohl (range_first r) \<le> ntohl (range_final r)"
  shows "(fst (get_source_address idx r out k) = 0 \<longleftrightarrow> unat idx < admitted_connections r) \<and>
    (unat idx < admitted_connections r \<longrightarrow>
       (\<exists>a. get_source_address idx r out k = (0, a, k) \<and> ntohl (range_first r) \<le> ntohl a \<and>
          ntohl a < ntohl (range_final r) \<and> unat (ntohl a) = unat (ntohl (range_first r)) + unat idx div 25000)) \<and>
    (\<not> unat idx < admitted_connections r \<longrightarrow> get_source_address idx r out k = (-1, out, set_errno EINVAL k)) \<and>
    card {i. get_source_address i r out k = (0, a, k)} \<le> 25000"
proof -
  note eq = get_source_address_eq [OF assms]
  define lo hi where "lo = ntohl (range_first r)" and "hi = ntohl (range_final r)"
  have address: "lo \<le> lo + idx div 25000 \<and> lo + idx div 25000 < hi \<and>
      unat (lo + idx div 25000) = unat lo + unat idx div 25000" if "unat idx < admitted_connections r"
  proof -
    have "unat idx < (unat hi - unat lo) * 25000"
      using that unfolding admitted_connections_def lo_def hi_def
      by (rule order_less_le_trans) (rule mod_less_eq_dividend)
    then have b: "unat lo + unat idx div 25000 < unat hi"
      using div_less_iff_less_mult [of 25000 "unat idx" "unat hi - unat lo"] by linarith
    then have "unat (lo + idx div 25000) = unat lo + unat idx div 25000"
      using unsigned_less [of hi, where 'a = nat] by (subst unat_add_lem [THEN iffD1]) (simp_all add: unat_div)
    with b show ?thesis
      by (simp add: word_le_nat_alt word_less_nat_alt)
  qed
  have "{i. get_source_address i r out k = (0, a, k)} \<subseteq> {i. i div 25000 = ntohl a - lo}"
    using eq by (auto simp: lo_def split: if_splits)
  from card_mono [OF finite this] block_card [of "ntohl a - lo"]
  have "card {i. get_source_address i r out k = (0, a, k)} \<le> 25000"
    by (rule order_trans)
  with eq address show ?thesis
    by (auto simp: lo_def hi_def)
qed

theorem source_address_assigned_witness:
  "\<forall>k. fst (get_source_address 7704 \<lparr>range_first = htonl 0x0A000000, range_final = htonl 0x0A029F17\<rparr> 0 (k :: kernel)) = -1 \<and>
   fst (get_source_address 7703 \<lparr>range_first = htonl 0x0A000000, range_final = htonl 0x0A029F17\<rparr> 0 k) = 0"
proof -
  let ?r = "\<lparr>range_first = htonl 0x0A000000, range_final = htonl 0x0A029F17\<rparr>"
  have "admitted_connections ?r = 7704"
    by (simp add: admitted_connections_def)
  then show ?thesis
    using source_address_assigned [of ?r 7704 0] source_address_assigned [of ?r 7703 0] by simp
qed

subsection \<open>Progress\<close>

definition elapsed_ns :: "timespec \<Rightarrow> timespec \<Rightarrow> int" where
  "elapsed_ns t0 t1 = (tv_sec t1 - tv_sec t0) * 1000000000 + (tv_nsec t1 - tv_nsec t0)"

text \<open>The progress line is due no later than the interval, and less than a millisecond early; its
  reference time advances exactly when it is printed.\<close>

theorem iteration_timing_bounds:
  "let (execute, last) = iteration_timing interval_ms now past
   in (interval_ms * 1000000 \<le> elapsed_ns past now \<longrightarrow> execute) \<and>
      (execute \<longrightarrow> (interval_ms - 1) * 1000000 < elapsed_ns past now) \<and>
      last = (if execute then now else past)"
proof -
  define d where "d = tv_nsec now - tv_nsec past"
  have q: "d sdiv 1000000 = (if 0 \<le> d then d div 1000000 else - (- d div 1000000))"
    by (auto simp: signed_divide_int_def sgn_if)
  have "d - 1000000 < d sdiv 1000000 * 1000000 \<and> d sdiv 1000000 * 1000000 < d + 1000000 \<and>
      (d < 0 \<longrightarrow> d \<le> d sdiv 1000000 * 1000000)"
    unfolding q by (cases "0 \<le> d") (simp; linarith)+
  then show ?thesis
    unfolding iteration_timing_def elapsed_ns_def Let_def d_def [symmetric] q
    by (auto; presburger)
qed

end
