(* ===== verification/Load_Client.thy ===== *)
theory Load_Client
  imports Client_Options Listening_Socket "HOL-Library.Sublist"
begin

text \<open>
  The load-test client: \<open>src/apps/million_connections/mcon_client.c\<close>, from \<open>connect_to_server\<close> on. It
  holds the connections its command line asks for. Output to the terminal is left out, and with it
  the clock that paces the progress line; the lines read from standard input are given as a list.
  Undefined behaviour of C is the outcome \<open>None\<close>. The lemmas account for every descriptor the client
  opens and show that its state stays well formed.
\<close>

subsection \<open>Connecting to the server\<close>

definition AF_INET :: int where [simp]: "AF_INET = 2"

text \<open>
  The bytes of \<open>struct sockaddr_in\<close> on a little-endian machine: the family, the port of \<open>htons\<close>, the
  address, which is in network order already, and the padding.
\<close>

definition sockaddr_in :: "u16 \<Rightarrow> u32 \<Rightarrow> u8 list" where
  "sockaddr_in port address =
     [2, 0, ucast (drop_bit 8 port), ucast port, ucast address, ucast (drop_bit 8 address),
      ucast (drop_bit 16 address), ucast (drop_bit 24 address)] @ replicate 8 0"

definition connect_to_server :: "u32 \<Rightarrow> u16 \<Rightarrow> u32 option \<Rightarrow> kernel \<Rightarrow> int \<times> kernel" where
  "connect_to_server address port source_address k =
     (let server_address_sock = sockaddr_in port address;
          (r, k1) = syscall (Socket AF_INET SOCK_STREAM) k; client_fd = rv r
      in if client_fd = -1 then (-1, k1)
         else
           (let (bound, k2) = (case source_address of None \<Rightarrow> (True, k1)
                  | Some source \<Rightarrow>
                      (let (r, k2) = syscall (Bind client_fd (sockaddr_in 0 source)) k1
                       in if rv r \<noteq> 0 then (False, snd (syscall (Close client_fd) k2)) else (True, k2)))
            in if \<not> bound then (-1, k2)
               else (let (r, k3) = syscall (Connect client_fd server_address_sock) k2
                     in if rv r \<noteq> 0 then (-1, k3) else (client_fd, k3))))"

definition ping_server :: "cli_config \<Rightarrow> kernel \<Rightarrow> int \<times> kernel" where
  "ping_server args k =
     (let (client_fd, k1) = connect_to_server (cli_host args) (cli_port args) None k
      in if client_fd < 0 then (-1, k1)
         else (let k2 = snd (syscall (Shutdown_wr client_fd) k1)
               in (0, snd (syscall (Close client_fd) k2))))"

subsection \<open>The state and the handlers\<close>

record connection =
  client_fd :: int

text \<open>
  \<open>connections\<close> is the memory block: one element for every connection it has room for, \<open>None\<close> where
  nothing was written yet. \<open>malloc(1)\<close> has room for none.
\<close>

record client_state =
  connections :: "connection option list"
  connection_count :: u32

definition client_state_init :: client_state where
  "client_state_init = \<lparr>connections = [], connection_count = 0\<rparr>"

text \<open>A handler: the \<open>argc\<close> first elements of \<open>argv\<close>, the options, the state; the return code.\<close>

type_synonym command_handler =
  "string list \<Rightarrow> cli_config \<Rightarrow> client_state \<Rightarrow> kernel \<Rightarrow> (int \<times> client_state \<times> kernel) option"

definition cli_ping_server :: command_handler where
  "cli_ping_server argv args state k =
     (if 1 < length argv then Some (0, state, k)
      else (let (_, k1) = ping_server args k in Some (0, state, k1)))"

definition cli_exit :: command_handler where
  "cli_exit argv args state k = Some (if 1 < length argv then 0 else 1, state, k)"

definition sizeof_connection :: nat where [simp]: "sizeof_connection = 4"

text \<open>
  \<open>realloc\<close> to room for \<open>n\<close> connections: \<open>None\<close> for \<open>NULL\<close>. With size 0 the block is freed,
  whatever the C library returns.
\<close>

definition realloc_connections ::
  "connection option list \<Rightarrow> nat \<Rightarrow> kernel \<Rightarrow> connection option list option \<times> kernel" where
  "realloc_connections old n k =
     (let (r, k1) = libcall (Realloc (n * sizeof_connection)) k
      in (if rv r = 0 then None else Some (take n old @ replicate (n - length old) None), k1))"

text \<open>The loop that connects the clients \<open>i\<close>, \<open>i + 1\<close>, and so on, \<open>n\<close> of them.\<close>

fun connect_loop ::
  "nat \<Rightarrow> nat \<Rightarrow> cli_config \<Rightarrow> u32 \<Rightarrow> connection option list \<Rightarrow> nat \<Rightarrow> kernel \<Rightarrow>
   (connection option list \<times> nat \<times> kernel) option" where
  "connect_loop 0 i args source conns established k = Some (conns, established, k)"
| "connect_loop (Suc n) i args source conns established k =
     (let (_, source, k1) = get_source_address (of_nat i) (cli_source_range args) source k;
          (fd, k2) = connect_to_server (cli_host args) (cli_port args) (Some source) k1
      in if fd < 0 then Some (conns, established, k2)
         else if i < length conns
         then connect_loop n (Suc i) args source (conns[i := Some \<lparr>client_fd = fd\<rparr>]) (Suc established) k2
         else None)"

text \<open>The loop that closes the clients from \<open>n - 1\<close> down to \<open>target\<close>.\<close>

fun close_loop :: "connection option list \<Rightarrow> nat \<Rightarrow> nat \<Rightarrow> kernel \<Rightarrow> kernel option" where
  "close_loop conns target 0 k = Some k"
| "close_loop conns target (Suc i) k =
     (if i < target then Some k
      else if length conns \<le> i then None
      else do { c \<leftarrow> conns ! i;
                let k1 = snd (syscall (Shutdown_wr (client_fd c)) k);
                close_loop conns target i (snd (syscall (Close (client_fd c)) k1)) })"

definition cli_connect :: command_handler where
  "cli_connect argv args state k =
     (if 2 < length argv \<or> length argv < 2 then Some (0, state, k)
      else
       (let (target_connections, _, _) = strtol (argv ! 1);
            count = int (unat (connection_count state)); target = nat target_connections
        in if target_connections < 0 \<or> 1000000 < target_connections \<or> target_connections = count
           then Some (0, state, k)
           else if count < target_connections then
             (let (rc, source, k1) =
                get_source_address (of_nat (target - 1)) (cli_source_range args) 0 k
              in if rc \<noteq> 0 then Some (0, state, k1)
                 else
                   (case realloc_connections (connections state) target k1 of
                      (None, k2) \<Rightarrow> Some (0, state, k2)
                    | (Some new_mem, k2) \<Rightarrow>
                        do { (conns, connections_established, k3) \<leftarrow>
                               connect_loop (target - nat count) (nat count) args source new_mem 0 k2;
                             Some (0, \<lparr>connections = conns, connection_count =
                               connection_count state + of_nat connections_established\<rparr>, k3) }))
           else
             do { k1 \<leftarrow> close_loop (connections state) target (nat count) k;
                  let (new_mem, k2) = realloc_connections (connections state) target k1;
                  if new_mem = None \<and> target \<noteq> 0 then Some (0, state, k2)
                  else Some (0, \<lparr>connections = (case new_mem of None \<Rightarrow> [] | Some conns \<Rightarrow> conns),
                                 connection_count = of_nat target\<rparr>, k2) }))"

subsection \<open>The command line\<close>

definition commands :: "(string \<times> command_handler option) list" where
  "commands = [(''ping'', Some cli_ping_server), (''status'', None), (''connect'', Some cli_connect),
     (''write'', None), (''request'', None), (''exit'', Some cli_exit)]"

text \<open>
  The search in the table, with \<open>argv[0]\<close> and the \<open>argc\<close> arguments: whether the loop goes on. Calling
  a missing handler is undefined.
\<close>

fun dispatch ::
  "(string \<times> command_handler option) list \<Rightarrow> string \<Rightarrow> string list \<Rightarrow> cli_config \<Rightarrow> client_state \<Rightarrow>
   kernel \<Rightarrow> (bool \<times> client_state \<times> kernel) option" where
  "dispatch [] argv0 argv args state k = Some (True, state, k)"
| "dispatch ((name, handler) # cs) argv0 argv args state k =
     (if strncmp_equal argv0 name (length name) then
        do { h \<leftarrow> handler; (command_rc, state1, k1) \<leftarrow> h argv args state k;
             Some (command_rc \<noteq> 1, state1, k1) }
      else dispatch cs argv0 argv args state k)"

definition max_arguments :: nat where "max_arguments = 20"

definition is_delimiter :: "char \<Rightarrow> bool" where
  "is_delimiter c \<longleftrightarrow> c = CHR '' '' \<or> c = CHR 0x09 \<or> c = CHR 0x0A"

text \<open>A line as a C string ends at its first 0; at most 20 tokens are kept.\<close>

definition line_arguments :: "string \<Rightarrow> string list" where
  "line_arguments line = take max_arguments (tokens is_delimiter (takeWhile (\<lambda>c. c \<noteq> CHR 0x00) line))"

text \<open>
  The lines of the input, until \<open>getline\<close> fails. A line without tokens leaves \<open>argv[0]\<close> as it was:
  with each line comes what that pointer then refers to, \<open>None\<close> when it is indeterminate or no longer
  valid. The exit code is \<open>None\<close> when the function ends without a return statement.
\<close>

fun command_line_loop ::
  "cli_config \<Rightarrow> (string \<times> string option) list \<Rightarrow> client_state \<Rightarrow> kernel \<Rightarrow>
   (int option \<times> client_state \<times> kernel) option" where
  "command_line_loop args [] state k = Some (Some (-1), state, k)"
| "command_line_loop args ((line, stale) # lines) state k =
     (let argv = line_arguments line
      in do { argv0 \<leftarrow> (case argv of [] \<Rightarrow> stale | arg # _ \<Rightarrow> Some arg);
              (running, state1, k1) \<leftarrow> dispatch commands argv0 argv args state k;
              if running then command_line_loop args lines state1 k1
              else Some (None, state1, k1) })"

text \<open>\<open>main\<close>, from the options that \<open>argp_parse\<close> left.\<close>

definition client_main ::
  "cli_config \<Rightarrow> (string \<times> string option) list \<Rightarrow> kernel \<Rightarrow>
   (int option \<times> client_state \<times> kernel) option" where
  "client_main args lines k =
     (let (rc, k1) = ping_server args k
      in if rc = 0 then command_line_loop args lines client_state_init k1
         else Some (Some (-1), client_state_init, k1))"

subsection \<open>Descriptors\<close>

text \<open>The sockets a stretch of the trace could not connect.\<close>

fun leaked :: "(ecall \<times> reply) list \<Rightarrow> int multiset" where
  "leaked [] = {#}"
| "leaked ((c, r) # cs) =
     (case c of Connect fd _ \<Rightarrow> if rv r = 0 then leaked cs else add_mset fd (leaked cs) | _ \<Rightarrow> leaked cs)"

lemma leaked_append: "leaked (xs @ ys) = leaked xs + leaked ys"
proof (induction xs)
  case (Cons x xs)
  then show ?case by (cases x; cases "fst x") auto
qed simp

text \<open>A step of the program from \<open>k\<close> to \<open>k'\<close> that turns the open descriptors \<open>A\<close> into \<open>B\<close> and
  leaves those it could not connect open.\<close>

definition descriptors_step :: "int multiset \<Rightarrow> kernel \<Rightarrow> int multiset \<Rightarrow> kernel \<Rightarrow> bool" where
  "descriptors_step A k B k' \<longleftrightarrow> answers k' = answers k \<and>
     (\<exists>t. trace k' = trace k @ t \<and> (\<forall>L. open_after t (A + L) = B + leaked t + L))"

lemma descriptors_refl: "trace k' = trace k \<Longrightarrow> answers k' = answers k \<Longrightarrow> descriptors_step A k A k'"
  by (simp add: descriptors_step_def)

lemma descriptors_trans:
  assumes "descriptors_step A k B k1" "descriptors_step B k1 C k2"
  shows "descriptors_step A k C k2"
proof -
  from assms(1) obtain t where t: "answers k1 = answers k" "trace k1 = trace k @ t"
    "\<And>L. open_after t (A + L) = B + leaked t + L" by (auto simp: descriptors_step_def)
  from assms(2) obtain u where u: "answers k2 = answers k1" "trace k2 = trace k1 @ u"
    "\<And>L. open_after u (B + L) = C + leaked u + L" by (auto simp: descriptors_step_def)
  have "open_after (t @ u) (A + L) = C + leaked (t @ u) + L" for L
    using t(3) [of L] u(3) [of "leaked t + L"]
    by (simp add: open_after_append leaked_append ac_simps)
  with t(1,2) u(1,2) show ?thesis
    by (auto simp: descriptors_step_def)
qed

lemma descriptors_frame: "descriptors_step A k B k' \<Longrightarrow> descriptors_step (A + C) k (B + C) k'"
  by (auto simp: descriptors_step_def add.assoc add.left_commute)

lemma descriptors_answers: "descriptors_step A k B k' \<Longrightarrow> answers k' = answers k"
  by (simp add: descriptors_step_def)

text \<open>The documented answers the properties rely on: \<open>socket\<close> returns -1 when it fails.\<close>

definition socket_answers :: "kernel \<Rightarrow> bool" where
  "socket_answers k \<longleftrightarrow> (\<forall>t family type. -1 \<le> rv (answers k t (Socket family type)))"

text \<open>\<open>realloc\<close> finds the memory it is asked for.\<close>

definition memory_suffices :: "kernel \<Rightarrow> bool" where
  "memory_suffices k \<longleftrightarrow> (\<forall>t n. n \<noteq> 0 \<longrightarrow> rv (answers k t (Realloc n)) \<noteq> 0)"

text \<open>And every call of a connection succeeds.\<close>

definition cooperative :: "kernel \<Rightarrow> bool" where
  "cooperative k \<longleftrightarrow> memory_suffices k \<and> (\<forall>t family type. 0 \<le> rv (answers k t (Socket family type))) \<and>
     (\<forall>t fd a. rv (answers k t (Bind fd a)) = 0 \<and> rv (answers k t (Connect fd a)) = 0)"

lemma connect_to_server_step:
  assumes "connect_to_server address port source k = (fd, k')" "socket_answers k"
  shows "descriptors_step {#} k (if fd < 0 then {#} else {#fd#}) k'"
proof -
  have "-1 \<le> rv (answer k (Socket AF_INET SOCK_STREAM))"
    using assms(2) unfolding socket_answers_def answer_def by blast
  with assms(1) show ?thesis
    by (cases source; auto simp: connect_to_server_def rt_simps Let_def descriptors_step_def split: if_splits)
qed

lemma ping_server_step:
  assumes "ping_server args k = (rc, k')" "socket_answers k"
  shows "descriptors_step {#} k {#} k'"
proof -
  obtain fd k1 where c: "connect_to_server (cli_host args) (cli_port args) None k = (fd, k1)" by force
  note step = connect_to_server_step [OF c assms(2)]
  show ?thesis
  proof (cases "fd < 0")
    case True
    with step c assms(1) show ?thesis by (simp add: ping_server_def)
  next
    case False
    then have "descriptors_step {#fd#} k1 {#} k'"
      using assms(1) c by (auto simp: ping_server_def rt_simps Let_def descriptors_step_def)
    with step False show ?thesis by (auto intro: descriptors_trans)
  qed
qed

subsection \<open>The connections\<close>

definition client_wf :: "client_state \<Rightarrow> bool" where
  "client_wf st \<longleftrightarrow> unat (connection_count st) \<le> 1000000 \<and>
     unat (connection_count st) \<le> length (connections st) \<and>
     (\<forall>i < unat (connection_count st). connections st ! i \<noteq> None)"

text \<open>The descriptors of the elements from \<open>m\<close> up to, not including, \<open>n\<close>.\<close>

definition fds_between :: "connection option list \<Rightarrow> nat \<Rightarrow> nat \<Rightarrow> int list" where
  "fds_between conns m n = map (client_fd \<circ> the) (drop m (take n conns))"

definition client_fds :: "client_state \<Rightarrow> int list" where
  "client_fds st = fds_between (connections st) 0 (unat (connection_count st))"

lemma fds_between_snoc:
  assumes "m \<le> n" "n < length conns"
  shows "fds_between conns m (Suc n) = fds_between conns m n @ [client_fd (the (conns ! n))]"
  using assms by (simp add: fds_between_def take_Suc_conv_app_nth)

lemma fds_between_append:
  "l \<le> m \<Longrightarrow> m \<le> n \<Longrightarrow> fds_between conns l n = fds_between conns l m @ fds_between conns m n"
proof -
  assume le: "l \<le> m" "m \<le> n"
  have split: "take n conns = take m conns @ drop m (take n conns)"
    using le(2) append_take_drop_id [of m "take n conns"] by (simp add: min_def)
  have "drop l (take n conns) = drop l (take m conns) @ drop m (take n conns)"
    using le by (subst split, subst drop_append) (cases "m \<le> length conns"; simp)
  then show ?thesis by (simp add: fds_between_def)
qed

lemma fds_between_cong:
  "take n xs = take n ys \<Longrightarrow> fds_between xs m n = fds_between ys m n"
  by (simp add: fds_between_def)


subsection \<open>The loops\<close>

lemma connect_loop_runs:
  assumes "socket_answers k" "i + n \<le> length conns" "\<forall>j < i. conns ! j \<noteq> None"
  shows "\<exists>conns' m k'. connect_loop n i args source conns est k = Some (conns', est + m, k') \<and> m \<le> n \<and>
    length conns' = length conns \<and> take i conns' = take i conns \<and> (\<forall>j < i + m. conns' ! j \<noteq> None) \<and>
    descriptors_step {#} k (mset (fds_between conns' i (i + m))) k'"
  using assms
proof (induction n arbitrary: i source conns est k)
  case 0
  then show ?case
    by (auto simp: fds_between_def intro!: descriptors_refl exI [of _ 0])
next
  case (Suc n)
  obtain rc src k1 where src: "get_source_address (of_nat i) (cli_source_range args) source k = (rc, src, k1)"
    by (metis surj_pair)
  then have k1: "trace k1 = trace k" "answers k1 = answers k"
    by (auto simp: get_source_address_def Let_def split: if_splits)
  obtain fd k2 where fd: "connect_to_server (cli_host args) (cli_port args) (Some src) k1 = (fd, k2)"
    by force
  have ok1: "socket_answers k1"
    using Suc.prems(1) k1(2) by (simp add: socket_answers_def)
  have step: "descriptors_step {#} k (if fd < 0 then {#} else {#fd#}) k2"
    by (rule descriptors_trans [OF descriptors_refl [OF k1] connect_to_server_step [OF fd ok1]])
  show ?case
  proof (cases "fd < 0")
    case True
    with Suc.prems src fd step show ?thesis
      by (auto simp: fds_between_def intro!: exI [of _ 0])
  next
    case False
    let ?conns = "conns[i := Some \<lparr>client_fd = fd\<rparr>]"
    have "socket_answers k2" "Suc i + n \<le> length ?conns" "\<forall>j < Suc i. ?conns ! j \<noteq> None"
      using Suc.prems descriptors_answers [OF step] by (auto simp: socket_answers_def nth_list_update)
    from Suc.IH [OF this, of src "Suc est"] obtain conns' m k' where
      run: "connect_loop n (Suc i) args src ?conns (Suc est) k2 = Some (conns', Suc est + m, k')" "m \<le> n"
      and len: "length conns' = length conns" and keep: "take (Suc i) conns' = take (Suc i) ?conns"
      and some: "\<forall>j < Suc i + m. conns' ! j \<noteq> None"
      and step2: "descriptors_step {#} k2 (mset (fds_between conns' (Suc i) (Suc i + m))) k'" by auto
    have i: "i < length conns" using Suc.prems(2) by simp
    have "conns' ! i = ?conns ! i"
      using arg_cong [OF keep, of "\<lambda>xs. xs ! i"] by simp
    then have "fds_between conns' i (Suc i) = [fd]"
      using fds_between_snoc [of i i conns'] i len by (simp add: fds_between_def)
    then have "mset (fds_between conns' i (i + Suc m)) = {#fd#} + mset (fds_between conns' (Suc i) (Suc i + m))"
      using fds_between_append [of i "Suc i" "i + Suc m" conns'] by simp
    then have "descriptors_step {#} k (mset (fds_between conns' i (i + Suc m))) k'"
      using descriptors_trans [OF step [unfolded if_not_P [OF False]]
        descriptors_frame [OF step2, of "{#fd#}", simplified]] by (simp add: add.commute)
    moreover have "take i conns' = take i conns"
      using arg_cong [OF keep, of "take i"] by simp
    ultimately show ?thesis
      using run len some i False
      by (intro exI [of _ conns'] exI [of _ "Suc m"] exI [of _ k']) (simp add: src fd)
  qed
qed

lemma close_loop_runs:
  assumes "n \<le> length conns" "\<forall>j < n. conns ! j \<noteq> None" "target \<le> n"
  shows "\<exists>k'. close_loop conns target n k = Some k' \<and>
    descriptors_step (mset (fds_between conns target n)) k {#} k'"
  using assms
proof (induction n arbitrary: k)
  case 0
  then show ?case by (auto simp: fds_between_def intro: descriptors_refl)
next
  case (Suc i)
  show ?case
  proof (cases "i < target")
    case True
    with Suc.prems(3) have "target = Suc i" by simp
    then show ?thesis by (auto simp: fds_between_def intro: descriptors_refl)
  next
    case False
    obtain c where c: "conns ! i = Some c" using Suc.prems(2) by auto
    define k1 where "k1 = snd (syscall (Close (client_fd c)) (snd (syscall (Shutdown_wr (client_fd c)) k)))"
    have "descriptors_step {#client_fd c#} k {#} k1"
      by (auto simp: k1_def rt_simps descriptors_step_def)
    from descriptors_frame [OF this, of "mset (fds_between conns target i)"]
    have step: "descriptors_step (mset (fds_between conns target (Suc i))) k (mset (fds_between conns target i)) k1"
      using fds_between_snoc [of target i conns] False Suc.prems(1) c by simp
    from Suc.IH [of k1] Suc.prems False obtain k' where
      "close_loop conns target i k1 = Some k'" "descriptors_step (mset (fds_between conns target i)) k1 {#} k'"
      by auto
    with descriptors_trans [OF step] c False Suc.prems(1) show ?thesis
      by (auto simp: k1_def Let_def)
  qed
qed

lemma cooperative_cong: "answers k' = answers k \<Longrightarrow> cooperative k' = cooperative k"
  by (simp add: cooperative_def memory_suffices_def)

lemma connect_to_server_succeeds:
  assumes "connect_to_server address port source k = (fd, k')" "cooperative k"
  shows "0 \<le> fd \<and> cooperative k'"
proof -
  have socket: "rv (answer k (Socket AF_INET SOCK_STREAM)) \<noteq> -1" "\<not> rv (answer k (Socket AF_INET SOCK_STREAM)) < 0"
    using assms(2) unfolding cooperative_def answer_def by (smt (verit))+
  have calls: "rv (answer j (Bind f a)) = 0" "rv (answer j (Connect f a)) = 0" if "answers j = answers k" for j f a
    using assms(2) that unfolding cooperative_def answer_def by simp_all
  have "0 \<le> fd \<and> answers k' = answers k"
    using assms(1) socket calls
    by (cases source) (auto simp: connect_to_server_def rt_simps Let_def simp del: AF_INET_def SOCK_STREAM_def)
  with assms(2) cooperative_cong [of k' k] show ?thesis by simp
qed

lemma connect_loop_completes:
  "connect_loop n i args source conns est k = Some (conns', est', k') \<Longrightarrow> cooperative k \<Longrightarrow> est' = est + n"
proof (induction n arbitrary: i source conns est k)
  case (Suc n)
  obtain rc src k1 where src: "get_source_address (of_nat i) (cli_source_range args) source k = (rc, src, k1)"
    by (metis surj_pair)
  obtain fd k2 where fd: "connect_to_server (cli_host args) (cli_port args) (Some src) k1 = (fd, k2)"
    by force
  have "cooperative k1"
    using src Suc.prems(2)
    by (auto simp: get_source_address_def Let_def cooperative_def memory_suffices_def split: if_splits)
  from connect_to_server_succeeds [OF fd this] Suc.prems(1) show ?case
    using Suc.IH by (fastforce simp: src fd split: if_splits)
qed simp

subsection \<open>The connect command\<close>

lemma realloc_runs:
  assumes "realloc_connections old n k = (new, k')"
  shows "descriptors_step A k A k'" "memory_suffices k \<Longrightarrow> n \<noteq> 0 \<Longrightarrow> new \<noteq> None"
    "new = Some conns \<Longrightarrow> length conns = n \<and> take n conns = take n old @ replicate (n - length old) None"
  using assms
  by (auto simp: realloc_connections_def rt_simps Let_def descriptors_step_def memory_suffices_def answer_def
      split: if_splits)

lemma take_realloc: "m \<le> n \<Longrightarrow> m \<le> length old \<Longrightarrow> take m (take n old @ replicate (n - length old) None) = take m old"
  by (simp add: min_def)

lemma grow_runs:
  assumes "client_wf st" "socket_answers k" "unat (connection_count st) < target" "target \<le> 1000000"
    and re: "realloc_connections (connections st) target k = (Some new_mem, k1)"
    and c: "c = unat (connection_count st)"
  shows "\<exists>conns m k'. connect_loop (target - c) c args source new_mem 0 k1 = Some (conns, m, k') \<and>
    c + m \<le> target \<and> (cooperative k \<longrightarrow> c + m = target) \<and> (let st' = \<lparr>connections = conns, connection_count = connection_count st + of_nat m\<rparr>
      in client_wf st' \<and> unat (connection_count st') = c + m \<and> take c conns = take c (connections st) \<and>
         descriptors_step (mset (client_fds st)) k (mset (client_fds st')) k')"
proof -
  have wf: "c \<le> length (connections st)" "\<forall>i < c. connections st ! i \<noteq> None"
    using assms(1) by (simp_all add: client_wf_def c)
  have new: "length new_mem = target" "take c new_mem = take c (connections st)"
  proof -
    have n: "length new_mem = target" "take target new_mem =
        take target (connections st) @ replicate (target - length (connections st)) None"
      using realloc_runs(3) [OF re refl] by auto
    show "length new_mem = target" by (rule n(1))
    show "take c new_mem = take c (connections st)"
      using arg_cong [OF n(2), of "take c"] take_realloc [of c target "connections st"] assms(3) wf(1) c
      by simp
  qed
  have ans: "answers k1 = answers k"
    using realloc_runs(1) [OF re, of "{#}"] by (rule descriptors_answers)
  then have "socket_answers k1" using assms(2) by (simp add: socket_answers_def)
  moreover have "new_mem ! j \<noteq> None" if "j < c" for j
    using wf(2) that arg_cong [OF new(2), of "\<lambda>xs. xs ! j"] by simp
  ultimately obtain conns m k' where
    run: "connect_loop (target - c) c args source new_mem 0 k1 = Some (conns, m, k')" "m \<le> target - c"
    and len: "length conns = target" and keep: "take c conns = take c new_mem"
    and some: "\<forall>j < c + m. conns ! j \<noteq> None"
    and step: "descriptors_step {#} k1 (mset (fds_between conns c (c + m))) k'"
    using connect_loop_runs [of k1 c "target - c" new_mem args source 0] new(1) assms(3) c by auto
  have cnt: "unat (connection_count st + of_nat m) = c + m"
    using run(2) assms(3,4) c by (simp add: unat_word_ariths unat_of_nat take_bit_nat_eq_self take_bit_eq_mod)
  have "fds_between conns 0 c = client_fds st"
    unfolding client_fds_def c [symmetric] by (rule fds_between_cong) (simp add: keep new(2))
  then have "fds_between conns 0 (c + m) = client_fds st @ fds_between conns c (c + m)"
    using fds_between_append [of 0 c "c + m" conns] by simp
  then have "descriptors_step (mset (client_fds st)) k (mset (fds_between conns 0 (c + m))) k'"
    using descriptors_trans [OF realloc_runs(1) [OF re] descriptors_frame [OF step]]
    by (simp add: add.commute)
  moreover have "c + m \<le> target"
    using run(2) assms(3) c by linarith
  moreover have "c + m = target" if "cooperative k"
  proof -
    have "cooperative k1"
      using that ans by (simp add: cooperative_def memory_suffices_def)
    with connect_loop_completes [OF run(1)] assms(3) c show ?thesis by simp
  qed
  ultimately show ?thesis
    using run(1) len keep new(2) some cnt assms(4)
    by (intro exI [of _ conns] exI [of _ m] exI [of _ k']) (simp add: client_wf_def client_fds_def c)
qed

lemma shrink_runs:
  assumes "client_wf st" "target < c" and c: "c = unat (connection_count st)"
  shows "\<exists>k1 new_mem k2. close_loop (connections st) target c k = Some k1 \<and>
    realloc_connections (connections st) target k1 = (new_mem, k2) \<and>
    descriptors_step (mset (client_fds st)) k (mset (fds_between (connections st) 0 target)) k2 \<and>
    (memory_suffices k \<longrightarrow> target \<noteq> 0 \<longrightarrow> new_mem \<noteq> None) \<and>
    (new_mem \<noteq> None \<or> target = 0 \<longrightarrow>
      (let st' = \<lparr>connections = (case new_mem of None \<Rightarrow> [] | Some conns \<Rightarrow> conns), connection_count = of_nat target\<rparr>
       in client_wf st' \<and> unat (connection_count st') = target \<and>
          client_fds st' = fds_between (connections st) 0 target))"
proof -
  have wf: "c \<le> length (connections st)" "c \<le> 1000000" "\<forall>i < c. connections st ! i \<noteq> None"
    using assms(1) by (simp_all add: client_wf_def c)
  obtain k1 where k1: "close_loop (connections st) target c k = Some k1"
    "descriptors_step (mset (fds_between (connections st) target c)) k {#} k1"
    using close_loop_runs [of c "connections st" target k] wf assms(2) by auto
  obtain new_mem k2 where re: "realloc_connections (connections st) target k1 = (new_mem, k2)" by force
  have "client_fds st = fds_between (connections st) 0 target @ fds_between (connections st) target c"
    using fds_between_append [of 0 target c "connections st"] assms(2) by (simp add: client_fds_def c)
  then have step: "descriptors_step (mset (client_fds st)) k (mset (fds_between (connections st) 0 target)) k2"
    using descriptors_trans [OF descriptors_frame [OF k1(2)] realloc_runs(1) [OF re]] by (simp add: add.commute)
  have cnt: "unat (of_nat target :: u32) = target"
    using wf(2) assms(2) by (simp add: unat_of_nat take_bit_nat_eq_self)
  have "memory_suffices k1 = memory_suffices k"
    using descriptors_answers [OF k1(2)] by (simp add: memory_suffices_def)
  moreover have "client_wf \<lparr>connections = conns, connection_count = of_nat target\<rparr> \<and>
      fds_between conns 0 target = fds_between (connections st) 0 target" if "new_mem = Some conns" for conns
  proof -
    have n: "length conns = target" "take target conns = take target (connections st)"
      using realloc_runs(3) [OF re that] take_realloc [of target target "connections st"] wf(1) assms(2) by auto
    have "conns ! i \<noteq> None" if "i < target" for i
      using that wf(3) assms(2) arg_cong [OF n(2), of "\<lambda>xs. xs ! i"] by simp
    with n wf(2) assms(2) cnt show ?thesis
      by (auto simp: client_wf_def intro: fds_between_cong)
  qed
  ultimately show ?thesis
    using k1(1) re step realloc_runs(2) [OF re] cnt
    by (intro exI [of _ k1] exI [of _ new_mem] exI [of _ k2])
      (auto simp: client_wf_def client_fds_def fds_between_def split: option.split)
qed

text \<open>A request the range has addresses for, when every call succeeds.\<close>

definition attainable :: "ipv4_range \<Rightarrow> nat \<Rightarrow> kernel \<Rightarrow> bool" where
  "attainable r n k \<longleftrightarrow> cooperative k \<and> ntohl (range_first r) \<le> ntohl (range_final r) \<and>
     n \<le> admitted_connections r"

text \<open>What a request for \<open>n\<close> connections leaves: the state stays well formed; the descriptors are
  accounted for; fewer connections are the first \<open>n\<close>, more come after those there are, and all
  of them when every call succeeds and the range has addresses for them.\<close>

definition connect_effect :: "ipv4_range \<Rightarrow> nat \<Rightarrow> client_state \<Rightarrow> kernel \<Rightarrow> client_state \<Rightarrow> kernel \<Rightarrow> bool" where
  "connect_effect r n st k st' k' \<longleftrightarrow> client_wf st' \<and> answers k' = answers k \<and>
     (memory_suffices k \<longrightarrow> descriptors_step (mset (client_fds st)) k (mset (client_fds st')) k') \<and>
     (if n < unat (connection_count st)
      then memory_suffices k \<longrightarrow>
        unat (connection_count st') = n \<and> client_fds st' = take n (client_fds st)
      else unat (connection_count st) \<le> unat (connection_count st') \<and>
        unat (connection_count st') \<le> n \<and>
        take (unat (connection_count st)) (client_fds st') = client_fds st \<and>
        (attainable r n k \<longrightarrow> unat (connection_count st') = n))"

lemma client_fds_length: "client_wf st \<Longrightarrow> length (client_fds st) = unat (connection_count st)"
  by (simp add: client_wf_def client_fds_def fds_between_def)

lemma attainable_granted:
  assumes "attainable r target k" "0 < target" "target \<le> 1000000"
    "get_source_address (of_nat (target - 1)) r src k = (rc, src', k1)"
    "realloc_connections old target k1 = (new, k2)"
  shows "rc = 0 \<and> new \<noteq> None"
proof -
  have "unat (of_nat (target - 1) :: u32) = target - 1"
    using assms(3) by (simp add: unat_of_nat take_bit_nat_eq_self)
  then have "rc = 0" "k1 = k"
    using assms(1,2,4) by (auto simp: attainable_def get_source_address_eq split: if_splits)
  moreover have "new \<noteq> None"
    using assms(1,2) \<open>k1 = k\<close>
    by (intro realloc_runs(2) [OF assms(5)]) (simp_all add: attainable_def cooperative_def)
  ultimately show ?thesis by simp
qed

lemma connect_grows:
  assumes wf: "client_wf st" and ok: "socket_answers k" and argv: "length argv = 2"
    and n: "fst (strtol (argv ! 1)) = int target" "unat (connection_count st) < target" "target \<le> 1000000"
  shows "\<exists>st' k'. cli_connect argv args st k = Some (0, st', k') \<and>
    connect_effect (cli_source_range args) target st k st' k'"
proof -
  define c where "c = unat (connection_count st)"
  obtain cs e where num: "strtol (argv ! 1) = (int target, cs, e)"
    using n(1) by (metis prod.collapse)
  obtain rc src k1 where src: "get_source_address (of_nat (target - 1)) (cli_source_range args) 0 k = (rc, src, k1)"
    by (metis surj_pair)
  then have k1: "trace k1 = trace k" "answers k1 = answers k"
    by (auto simp: get_source_address_def Let_def split: if_splits)
  note start = descriptors_refl [OF k1, of "mset (client_fds st)"]
  obtain new k2 where re: "realloc_connections (connections st) target k1 = (new, k2)" by force
  note re_step = descriptors_trans [OF start realloc_runs(1) [OF re]]
  have run: "cli_connect argv args st k =
    (if rc \<noteq> 0 then Some (0, st, k1)
     else case new of None \<Rightarrow> Some (0, st, k2)
     | Some new_mem \<Rightarrow>
         do { (conns, m, k3) \<leftarrow> connect_loop (target - c) c args src new_mem 0 k2;
              Some (0, \<lparr>connections = conns, connection_count = connection_count st + of_nat m\<rparr>, k3) })"
    using argv n num src re
    by (simp add: cli_connect_def c_def [symmetric] Let_def split: option.split)
  show ?thesis
  proof (cases "rc \<noteq> 0 \<or> new = None")
    case True
    then have "\<exists>k'. cli_connect argv args st k = Some (0, st, k') \<and>
        descriptors_step (mset (client_fds st)) k (mset (client_fds st)) k'"
      using run start re_step by auto
    moreover have "\<not> attainable (cli_source_range args) target k"
      using attainable_granted [OF _ _ n(3) src re] True n(2) by auto
    ultimately show ?thesis
      using wf n(2) client_fds_length [OF wf]
      by (auto simp: connect_effect_def attainable_def dest: descriptors_answers)
  next
    case False
    then obtain new_mem where new: "rc = 0" "new = Some new_mem" by auto
    have "socket_answers k1" using ok k1(2) by (simp add: socket_answers_def)
    from grow_runs [OF wf this n(2,3) re [unfolded new(2)] c_def]
    obtain conns m k3 where loop: "connect_loop (target - c) c args src new_mem 0 k2 = Some (conns, m, k3)"
      and le: "c + m \<le> target" "cooperative k1 \<longrightarrow> c + m = target"
      and st': "let st' = \<lparr>connections = conns, connection_count = connection_count st + of_nat m\<rparr>
        in client_wf st' \<and> unat (connection_count st') = c + m \<and> take c conns = take c (connections st) \<and>
           descriptors_step (mset (client_fds st)) k1 (mset (client_fds st')) k3"
      by metis
    define st' where "st' = \<lparr>connections = conns, connection_count = connection_count st + of_nat m\<rparr>"
    have s: "client_wf st'" "unat (connection_count st') = c + m" "take c conns = take c (connections st)"
      "descriptors_step (mset (client_fds st)) k1 (mset (client_fds st')) k3" "connections st' = conns"
      using st' by (simp_all add: st'_def Let_def)
    have "take c (client_fds st') = client_fds st"
      using s(3) unfolding client_fds_def fds_between_def s(2,5) c_def [symmetric]
      by (simp add: take_map min_def)
    then have "connect_effect (cli_source_range args) target st k st' k3"
      using s(1,2) le n(2) descriptors_trans [OF start s(4)]
        cooperative_cong [OF k1(2)]
      by (auto simp: connect_effect_def attainable_def c_def [symmetric] dest: descriptors_answers)
    with run new loop show ?thesis
      by (simp add: st'_def)
  qed
qed

lemma connect_shrinks:
  assumes wf: "client_wf st" and argv: "length argv = 2"
    and n: "fst (strtol (argv ! 1)) = int target" "target < unat (connection_count st)"
  shows "\<exists>st' k'. cli_connect argv args st k = Some (0, st', k') \<and>
    connect_effect (cli_source_range args) target st k st' k'"
proof -
  define c where "c = unat (connection_count st)"
  obtain cs e where num: "strtol (argv ! 1) = (int target, cs, e)"
    using n(1) by (metis prod.collapse)
  from shrink_runs [OF wf n(2) refl, of k] obtain k1 new k2 where
    close: "close_loop (connections st) target c k = Some k1"
    and re: "realloc_connections (connections st) target k1 = (new, k2)"
    and step: "descriptors_step (mset (client_fds st)) k (mset (fds_between (connections st) 0 target)) k2"
    and mem: "memory_suffices k \<longrightarrow> target \<noteq> 0 \<longrightarrow> new \<noteq> None"
    and final: "new \<noteq> None \<or> target = 0 \<longrightarrow>
      (let st' = \<lparr>connections = (case new of None \<Rightarrow> [] | Some conns \<Rightarrow> conns), connection_count = of_nat target\<rparr>
       in client_wf st' \<and> unat (connection_count st') = target \<and>
          client_fds st' = fds_between (connections st) 0 target)"
    unfolding c_def by metis
  define st' where
    "st' = \<lparr>connections = (case new of None \<Rightarrow> [] | Some conns \<Rightarrow> conns), connection_count = of_nat target\<rparr>"
  have run: "cli_connect argv args st k = Some (0, if new = None \<and> target \<noteq> 0 then st else st', k2)"
    using argv num close re wf n(2)
    by (simp add: cli_connect_def c_def [symmetric] Let_def client_wf_def st'_def)
  have fds: "fds_between (connections st) 0 target = take target (client_fds st)"
    using n(2) by (simp add: client_fds_def fds_between_def take_map min_def)
  have "connect_effect (cli_source_range args) target st k (if new = None \<and> target \<noteq> 0 then st else st') k2"
  proof (cases "new = None \<and> target \<noteq> 0")
    case True
    with wf mem n(2) step show ?thesis
      by (auto simp: connect_effect_def dest: descriptors_answers)
  next
    case False
    with final step n(2) fds show ?thesis
      by (auto simp: connect_effect_def st'_def [symmetric] Let_def dest: descriptors_answers)
  qed
  with run show ?thesis by blast
qed

lemma connect_runs:
  assumes wf: "client_wf st" and ok: "socket_answers k"
  shows "\<exists>st' k'. cli_connect argv args st k = Some (0, st', k') \<and>
    (let n = fst (strtol (argv ! 1))
     in if length argv \<noteq> 2 \<or> n < 0 \<or> 1000000 < n \<or> n = int (unat (connection_count st)) then st' = st \<and> k' = k
        else connect_effect (cli_source_range args) (nat n) st k st' k')"
proof -
  define n where "n = fst (strtol (argv ! 1))"
  consider "length argv \<noteq> 2 \<or> n < 0 \<or> 1000000 < n \<or> n = int (unat (connection_count st))"
    | (grow) "length argv = 2" "n = int (nat n)" "unat (connection_count st) < nat n" "nat n \<le> 1000000"
    | (shrink) "length argv = 2" "n = int (nat n)" "nat n < unat (connection_count st)" "nat n \<le> 1000000"
    by linarith
  then show ?thesis
  proof cases
    case 1
    then have "cli_connect argv args st k = Some (0, st, k)"
      by (cases "strtol (argv ! 1)") (auto simp: cli_connect_def n_def)
    with 1 show ?thesis by (simp add: n_def Let_def)
  next
    case grow
    have "fst (strtol (argv ! 1)) = int (nat n)" using grow(2) by (simp add: n_def)
    moreover have "\<not> (length argv \<noteq> 2 \<or> n < 0 \<or> 1000000 < n \<or> n = int (unat (connection_count st)))"
      using grow by linarith
    ultimately show ?thesis
      using connect_grows [OF wf ok grow(1) _ grow(3,4)]
      unfolding n_def [symmetric] Let_def by (simp only: if_False)
  next
    case shrink
    have "fst (strtol (argv ! 1)) = int (nat n)" using shrink(2) by (simp add: n_def)
    moreover have "\<not> (length argv \<noteq> 2 \<or> n < 0 \<or> 1000000 < n \<or> n = int (unat (connection_count st)))"
      using shrink by linarith
    ultimately show ?thesis
      using connect_shrinks [OF wf shrink(1) _ shrink(3)]
      unfolding n_def [symmetric] Let_def by (simp only: if_False)
  qed
qed

subsection \<open>The command table\<close>

lemma strncmp_prefix: "strncmp_equal a name (length name) \<longleftrightarrow> prefix name a"
proof (induction name arbitrary: a)
  case (Cons c cs)
  then show ?case by (cases a) auto
qed simp

lemma dispatch_prefix:
  "dispatch ((name, handler) # cs) w argv args st k =
     (if prefix name w then
        do { h \<leftarrow> handler; (rc, st1, k1) \<leftarrow> h argv args st k; Some (rc \<noteq> 1, st1, k1) }
      else dispatch cs w argv args st k)"
  by (simp only: dispatch.simps strncmp_prefix)

lemmas dispatch_commands = commands_def dispatch_prefix dispatch.simps(1)

lemma not_both_prefixes:
  "prefix a w \<Longrightarrow> prefix b w \<Longrightarrow> prefix a b \<or> prefix b a"
  using prefix_same_cases by blast

definition unimplemented :: "string \<Rightarrow> bool" where
  "unimplemented w \<longleftrightarrow> prefix ''status'' w \<or> prefix ''write'' w \<or> prefix ''request'' w"

lemma ping_runs: "\<exists>k'. cli_ping_server argv args st k = Some (0, st, k') \<and>
    (socket_answers k \<longrightarrow> descriptors_step A k A k')"
proof (cases "1 < length argv")
  case True
  then show ?thesis by (auto simp: cli_ping_server_def intro: descriptors_refl)
next
  case False
  obtain rc k1 where ping: "ping_server args k = (rc, k1)" by force
  with False descriptors_frame [OF ping_server_step [OF ping], of A] show ?thesis
    by (simp add: cli_ping_server_def)
qed

text \<open>What every command does to a well-formed state.\<close>

definition client_step :: "client_state \<Rightarrow> kernel \<Rightarrow> client_state \<Rightarrow> kernel \<Rightarrow> bool" where
  "client_step st k st' k' \<longleftrightarrow> client_wf st' \<and> answers k' = answers k \<and>
     (memory_suffices k \<longrightarrow> descriptors_step (mset (client_fds st)) k (mset (client_fds st')) k')"

lemma client_step_refl: "client_wf st \<Longrightarrow> client_step st k st k"
  by (simp add: client_step_def descriptors_refl)

lemma client_step_trans:
  "client_step st k st1 k1 \<Longrightarrow> client_step st1 k1 st2 k2 \<Longrightarrow> client_step st k st2 k2"
  by (auto simp: client_step_def memory_suffices_def intro: descriptors_trans)

text \<open>The contract of a handler, and what the search in the table makes of it.\<close>

locale client_command =
  fixes h :: command_handler
  assumes runs: "client_wf st \<Longrightarrow> socket_answers k \<Longrightarrow>
    \<exists>rc st' k'. h argv args st k = Some (rc, st', k') \<and> client_step st k st' k'"
begin

lemma dispatched:
  assumes "client_wf st" "socket_answers k" "prefix name w"
  shows "\<exists>running st' k'. dispatch ((name, Some h) # cs) w argv args st k = Some (running, st', k') \<and>
    client_step st k st' k'"
  using runs [OF assms(1,2), of argv args] assms(3)
  by (auto simp: dispatch_prefix simp del: dispatch.simps(2))

end

interpretation pingc: client_command cli_ping_server
proof
  fix st k argv args
  assume "client_wf st" "socket_answers k"
  then show "\<exists>rc st' k'. cli_ping_server argv args st k = Some (rc, st', k') \<and> client_step st k st' k'"
    using ping_runs [of argv args st k "mset (client_fds st)"]
    by (auto simp: client_step_def dest: descriptors_answers)
qed

interpretation connectc: client_command cli_connect
proof
  fix st k argv args
  assume "client_wf st" "socket_answers k"
  then show "\<exists>rc st' k'. cli_connect argv args st k = Some (rc, st', k') \<and> client_step st k st' k'"
    using connect_runs [of st k argv args]
    by (auto simp: client_step_def connect_effect_def Let_def descriptors_refl split: if_splits)
qed

interpretation exitc: client_command cli_exit
  by unfold_locales (simp add: cli_exit_def client_step_refl)

lemma dispatch_runs:
  assumes "client_wf st" "socket_answers k"
  shows "if unimplemented w then dispatch commands w argv args st k = None
    else \<exists>running st' k'. dispatch commands w argv args st k = Some (running, st', k') \<and> client_step st k st' k'"
proof -
  have "\<not> (prefix a w \<and> prefix b w)" if "\<not> prefix a b" "\<not> prefix b a" for a b
    using not_both_prefixes that by blast
  note exclusive = this
  have ex: "prefix n w \<Longrightarrow> \<not> unimplemented w" if "n \<in> {''ping'', ''connect'', ''exit''}" for n
    using that exclusive [of n "''status''"] exclusive [of n "''write''"] exclusive [of n "''request''"]
    by (auto simp: unimplemented_def)
  note skip = dispatch_prefix [of _ _ _ w] if_not_P
  consider (ping) "prefix ''ping'' w" | (connect) "\<not> prefix ''ping'' w" "prefix ''connect'' w"
    | (exit) "\<not> prefix ''ping'' w" "\<not> prefix ''connect'' w" "prefix ''exit'' w"
    | (other) "\<not> prefix ''ping'' w" "\<not> prefix ''connect'' w" "\<not> prefix ''exit'' w" by blast
  then show ?thesis
  proof cases
    case ping
    with pingc.dispatched [OF assms ping] ex [of "''ping''"] show ?thesis
      by (simp add: commands_def del: dispatch.simps(2))
  next
    case connect
    with connectc.dispatched [OF assms connect(2)] ex [of "''connect''"] show ?thesis
      by (simp add: commands_def skip unimplemented_def del: dispatch.simps(2))
  next
    case exit
    with exitc.dispatched [OF assms exit(3)] ex [of "''exit''"] show ?thesis
      by (simp add: commands_def skip unimplemented_def del: dispatch.simps(2))
  next
    case other
    with client_step_refl [OF assms(1)] show ?thesis
      by (auto simp: dispatch_commands unimplemented_def simp del: dispatch.simps(2))
  qed
qed

lemma command_line_runs:
  assumes "client_wf st" "socket_answers k"
    "\<forall>(line, stale) \<in> set lines. \<exists>w. (case line_arguments line of [] \<Rightarrow> stale | arg # _ \<Rightarrow> Some arg) = Some w \<and>
      \<not> unimplemented w"
  shows "\<exists>rc st' k'. command_line_loop args lines st k = Some (rc, st', k') \<and> rc \<in> {None, Some (-1)} \<and>
    client_step st k st' k'"
  using assms
proof (induction lines arbitrary: st k)
  case Nil
  then show ?case by (simp add: client_step_refl)
next
  case (Cons ls lines)
  obtain line stale where ls: "ls = (line, stale)" by force
  then obtain w where w: "(case line_arguments line of [] \<Rightarrow> stale | arg # _ \<Rightarrow> Some arg) = Some w"
    "\<not> unimplemented w" using Cons.prems(3) by auto
  from dispatch_runs [OF Cons.prems(1,2), of w "line_arguments line" args] w(2)
  obtain running st1 k1 where d: "dispatch commands w (line_arguments line) args st k = Some (running, st1, k1)"
    "client_step st k st1 k1" by auto
  then have "client_wf st1" "socket_answers k1"
    using Cons.prems(2) by (auto simp: client_step_def socket_answers_def)
  from Cons.IH [OF this] Cons.prems(3) obtain rc st' k' where
    "command_line_loop args lines st1 k1 = Some (rc, st', k')" "rc \<in> {None, Some (-1)}" "client_step st1 k1 st' k'"
    by auto
  with w(1) d client_step_trans [OF d(2)] show ?case
    by (cases running) (auto simp: ls Let_def)
qed

subsection \<open>Closing connections\<close>

text \<open>The descriptors a stretch of the trace closed, in order.\<close>

fun closed :: "(ecall \<times> reply) list \<Rightarrow> int list" where
  "closed [] = []"
| "closed ((c, r) # cs) = (case c of Close fd \<Rightarrow> fd # closed cs | _ \<Rightarrow> closed cs)"

lemma closed_append [simp]: "closed (xs @ ys) = closed xs @ closed ys"
proof (induction xs)
  case (Cons x xs)
  then show ?case by (cases x; cases "fst x") auto
qed simp

lemma close_loop_closes:
  assumes "close_loop conns target n k = Some k'" "n \<le> length conns" "target \<le> n"
  shows "\<exists>t. trace k' = trace k @ t \<and> closed t = rev (fds_between conns target n)"
  using assms
proof (induction n arbitrary: k)
  case (Suc i)
  show ?case
  proof (cases "i < target")
    case True
    with Suc.prems show ?thesis by (simp add: fds_between_def)
  next
    case False
    with Suc.prems obtain c where c: "conns ! i = Some c"
      by (auto split: if_splits Option.bind_splits)
    define k1 where "k1 = snd (syscall (Close (client_fd c)) (snd (syscall (Shutdown_wr (client_fd c)) k)))"
    have "close_loop conns target i k1 = Some k'"
      using Suc.prems(1,2) False c by (simp add: k1_def Let_def split: if_splits)
    with Suc.IH [OF this] Suc.prems(2) False obtain t where
      "trace k' = trace k1 @ t" "closed t = rev (fds_between conns target i)" by auto
    then show ?thesis
      using c False Suc.prems(2) by (simp add: k1_def rt_simps fds_between_snoc)
  qed
qed (simp add: fds_between_def)

subsection \<open>Properties\<close>

text \<open>C15. The command \<open>connect\<close> is defined on every well-formed state, reads no element that was not written
  and none outside the block, and keeps the state well formed. A missing, negative or too large number
  changes nothing; a larger one keeps the connections there are, in order, never exceeds what was asked
  for, and reaches it when every call succeeds and the range has an address for every connection; a
  smaller one keeps exactly that many, unless memory cannot be had.\<close>

theorem connect_command_outcome:
  assumes "client_wf st" "socket_answers k"
  shows "\<exists>st' k'. cli_connect argv args st k = Some (0, st', k') \<and> client_wf st' \<and>
    (let n = fst (strtol (argv ! 1)); c = unat (connection_count st); c' = unat (connection_count st')
     in if length argv \<noteq> 2 \<or> n < 0 \<or> 1000000 < n then st' = st \<and> k' = k
        else if int c \<le> n then c \<le> c' \<and> int c' \<le> n \<and> take c (client_fds st') = client_fds st \<and>
          (attainable (cli_source_range args) (nat n) k \<longrightarrow> int c' = n)
        else memory_suffices k \<longrightarrow> int c' = n \<and> client_fds st' = take (nat n) (client_fds st))"
proof -
  define n where "n = fst (strtol (argv ! 1))"
  define c where "c = unat (connection_count st)"
  obtain st' k' where r: "cli_connect argv args st k = Some (0, st', k')"
    "if length argv \<noteq> 2 \<or> n < 0 \<or> 1000000 < n \<or> n = int c then st' = st \<and> k' = k
     else connect_effect (cli_source_range args) (nat n) st k st' k'"
    using connect_runs [OF assms, of argv args] unfolding Let_def n_def c_def by blast
  have "if length argv \<noteq> 2 \<or> n < 0 \<or> 1000000 < n then st' = st \<and> k' = k
    else if int c \<le> n then c \<le> unat (connection_count st') \<and> int (unat (connection_count st')) \<le> n \<and>
        take c (client_fds st') = client_fds st \<and>
        (attainable (cli_source_range args) (nat n) k \<longrightarrow> int (unat (connection_count st')) = n)
    else memory_suffices k \<longrightarrow> int (unat (connection_count st')) = n \<and> client_fds st' = take (nat n) (client_fds st)"
    using r(2) client_fds_length [OF assms(1)]
    by (auto simp: connect_effect_def c_def [symmetric] simp del: of_nat_unat split: if_splits)
  moreover have "client_wf st'"
    using r(2) assms(1) by (auto simp: connect_effect_def split: if_splits)
  ultimately show ?thesis
    using r(1) unfolding Let_def n_def c_def by blast
qed

definition client_kernel :: kernel where
  "client_kernel = \<lparr>answers = (\<lambda>t c. case c of Socket _ _ \<Rightarrow> \<lparr>rv = 3 + int (length t), rerr = 0, rout = 0\<rparr>
      | Realloc _ \<Rightarrow> \<lparr>rv = 1, rerr = 0, rout = 0\<rparr> | _ \<Rightarrow> \<lparr>rv = 0, rerr = 0, rout = 0\<rparr>),
     trace = [], errno = 0\<rparr>"

definition three_connections :: client_state where
  "three_connections = \<lparr>connections = [Some \<lparr>client_fd = 5\<rparr>, Some \<lparr>client_fd = 6\<rparr>, Some \<lparr>client_fd = 7\<rparr>],
     connection_count = 3\<rparr>"

lemma client_demo: "socket_answers client_kernel" "memory_suffices client_kernel" "client_wf three_connections"
proof -
  show "socket_answers client_kernel" "memory_suffices client_kernel"
    by (simp_all add: socket_answers_def memory_suffices_def client_kernel_def)
  have "\<forall>i \<in> {..<3}. connections three_connections ! i \<noteq> None"
    by (simp add: lessThan_nat_numeral three_connections_def)
  then show "client_wf three_connections"
    by (simp add: client_wf_def three_connections_def)
qed

lemma strtol_examples: "strtol ''2'' = (2, 1, False)" "strtol ''x'' = (0, 0, False)"
  by code_simp+

theorem connect_command_outcome_witness:
  "\<exists>st' k'. cli_connect [''connect'', ''2''] cli_config_default three_connections client_kernel = Some (0, st', k') \<and>
     client_fds st' = [5, 6]"
  using connect_command_outcome [OF client_demo(3,1), of "[''connect'', ''2'']" cli_config_default] client_demo(2)
  by (auto simp: strtol_examples Let_def) (simp_all add: three_connections_def client_fds_def fds_between_def)

text \<open>C33. Asking for fewer connections closes the surplus ones from the last down; the number is not checked
  to be one, so that any text without a number closes all of them. When memory cannot be had afterwards,
  the count and the elements stay as they were, with the closed descriptors in them.\<close>

theorem connect_shrink_outcome:
  assumes "client_wf st" "fst (strtol text) = int n" "n < unat (connection_count st)"
  shows "\<exists>st' k' t r. cli_connect [cmd, text] args st k = Some (0, st', k') \<and>
    trace k' = trace k @ t @ [(Realloc (n * 4), r)] \<and> closed t = rev (drop n (client_fds st)) \<and>
    (if rv r = 0 \<and> n \<noteq> 0 then st' = st
     else unat (connection_count st') = n \<and> client_fds st' = take n (client_fds st))"
proof -
  define c where "c = unat (connection_count st)"
  obtain cs e where num: "strtol text = (int n, cs, e)"
    using assms(2) by (metis prod.collapse)
  from shrink_runs [OF assms(1,3) refl, of k] obtain k1 new k2 where
    close: "close_loop (connections st) n c k = Some k1"
    and re: "realloc_connections (connections st) n k1 = (new, k2)"
    and final: "new \<noteq> None \<or> n = 0 \<longrightarrow>
      (let st' = \<lparr>connections = (case new of None \<Rightarrow> [] | Some conns \<Rightarrow> conns), connection_count = of_nat n\<rparr>
       in client_wf st' \<and> unat (connection_count st') = n \<and>
          client_fds st' = fds_between (connections st) 0 n)"
    unfolding c_def by metis
  have wf: "c \<le> length (connections st)" "c \<le> 1000000"
    using assms(1) by (simp_all add: client_wf_def c_def)
  obtain t where t: "trace k1 = trace k @ t" "closed t = rev (fds_between (connections st) n c)"
    using close_loop_closes [OF close wf(1)] assms(3) by (auto simp: c_def)
  have "fds_between (connections st) n c = drop n (client_fds st)"
    "fds_between (connections st) 0 n = take n (client_fds st)"
    using assms(3) by (simp_all add: client_fds_def fds_between_def c_def [symmetric] drop_map take_map min_def)
  note fds = this
  define r where "r = answer k1 (Realloc (n * 4))"
  have new: "new = None \<longleftrightarrow> rv r = 0" "trace k2 = trace k1 @ [(Realloc (n * 4), r)]"
    using re by (auto simp: realloc_connections_def rt_simps Let_def r_def split: if_splits)
  define st' where
    "st' = \<lparr>connections = (case new of None \<Rightarrow> [] | Some conns \<Rightarrow> conns), connection_count = of_nat n\<rparr>"
  have "cli_connect [cmd, text] args st k = Some (0, if new = None \<and> n \<noteq> 0 then st else st', k2)"
    using num close re wf assms(3)
    by (simp add: cli_connect_def c_def [symmetric] Let_def st'_def)
  then show ?thesis
    using t new final fds
    by (intro exI [of _ "if new = None \<and> n \<noteq> 0 then st else st'"] exI [of _ k2] exI [of _ t] exI [of _ r])
      (auto simp: st'_def [symmetric] Let_def)
qed

theorem connect_shrink_outcome_witness:
  "\<exists>st' k' t r. cli_connect [''connect'', ''x''] cli_config_default three_connections client_kernel = Some (0, st', k') \<and>
     trace k' = t @ [(Realloc 0, r)] \<and> closed t = [7, 6, 5] \<and> connection_count st' = 0"
proof -
  have "fst (strtol ''x'') = int 0" "client_fds three_connections = [5, 6, 7]" "0 < unat (connection_count three_connections)"
    "trace client_kernel = []"
    by (simp_all add: strtol_examples three_connections_def client_fds_def fds_between_def client_kernel_def)
  with connect_shrink_outcome [OF client_demo(3) this(1,3), of "''connect''" cli_config_default client_kernel]
  show ?thesis
    by (auto simp: unat_eq_0)
qed

text \<open>C34. A word of the command line has an outcome unless it begins with one of the three commands that have
  no handler: those call a null pointer. Everything that merely begins with a command's name runs it.\<close>

theorem unimplemented_commands_undefined:
  assumes "client_wf st" "socket_answers k"
  shows "dispatch commands w argv args st k = None \<longleftrightarrow>
    prefix ''status'' w \<or> prefix ''write'' w \<or> prefix ''request'' w"
  using dispatch_runs [OF assms, of w argv args] by (auto simp: unimplemented_def split: if_splits)

theorem unimplemented_commands_undefined_witness:
  "dispatch commands ''status'' [''status''] cli_config_default three_connections client_kernel = None"
  using unimplemented_commands_undefined [OF client_demo(3,1), of "''status''"] by simp

text \<open>C9. The client comes to an end with a well-formed state on every input in which no line begins with one
  of the commands without a handler and no line without a token is read while \<open>argv[0]\<close> is still
  indeterminate (a later one is taken for the word left there by an earlier line, which must have a
  handler too), provided that memory suffices and that \<open>socket\<close> answers with a new descriptor or -1.
  The descriptors it opened and did not close are then those of its connections and the sockets that
  failed to connect, which it never closes.\<close>

theorem client_descriptors_accounted:
  assumes "socket_answers k" "memory_suffices k"
    and "\<forall>(line, stale) \<in> set lines.
      \<exists>w. (case line_arguments line of [] \<Rightarrow> stale | arg # _ \<Rightarrow> Some arg) = Some w \<and> \<not> unimplemented w"
  shows "\<exists>rc st k' t. client_main args lines k = Some (rc, st, k') \<and> client_wf st \<and>
    trace k' = trace k @ t \<and> open_after t {#} = mset (client_fds st) + leaked t"
proof -
  obtain rc k1 where ping: "ping_server args k = (rc, k1)" by force
  note start = ping_server_step [OF ping assms(1)]
  have k1: "socket_answers k1" "memory_suffices k1"
    using assms(1,2) descriptors_answers [OF start] by (simp_all add: socket_answers_def memory_suffices_def)
  have init: "client_wf client_state_init" "client_fds client_state_init = []"
    by (simp_all add: client_wf_def client_state_init_def client_fds_def fds_between_def)
  obtain rc' st k' where run: "client_main args lines k = Some (rc', st, k')"
    and "client_step client_state_init k1 st k'"
    using command_line_runs [OF init(1) k1(1) assms(3), of args] client_step_refl [OF init(1), of k1]
    by (cases "rc = 0") (auto simp: client_main_def ping)
  then have "client_wf st" "descriptors_step {#} k (mset (client_fds st)) k'"
    using k1(2) init(2) descriptors_trans [OF start] by (auto simp: client_step_def)
  with run show ?thesis
    unfolding descriptors_step_def by (metis add.right_neutral)
qed

theorem client_descriptors_accounted_witness:
  "\<exists>rc st k' t. client_main cli_config_default
      [(''connect 2'' @ [CHR 0x0A], None), ([CHR 0x0A], Some ''connect''), (''exit'' @ [CHR 0x0A], None)]
      client_kernel = Some (rc, st, k') \<and>
    trace k' = t \<and> open_after t {#} = mset (client_fds st) + leaked t"
proof -
  let ?lines = "[(''connect 2'' @ [CHR 0x0A], None), ([CHR 0x0A], Some ''connect''), (''exit'' @ [CHR 0x0A], None)]"
  have "line_arguments (''connect 2'' @ [CHR 0x0A]) = [''connect'', ''2'']" "line_arguments [CHR 0x0A] = []"
    "line_arguments (''exit'' @ [CHR 0x0A]) = [''exit'']"
    by code_simp+
  then have "\<forall>(line, stale) \<in> set ?lines. \<exists>w. (case line_arguments line of [] \<Rightarrow> stale | arg # _ \<Rightarrow> Some arg) = Some w \<and>
      \<not> unimplemented w"
    by (simp add: unimplemented_def)
  from client_descriptors_accounted [OF client_demo(1,2) this, of cli_config_default]
  show ?thesis by (auto simp: client_kernel_def)
qed

end
