(* ===== verification/Spec2Isabelle.thy ===== *)
theory Spec2Isabelle
  imports Progress Shutdown Hangup Test_Server Load_Client
begin

text \<open>
  mcon: a C library for very many concurrent socket connections over epoll and io_uring, and the two
  load-test programs that come with it.

  \<^bold>\<open>The program.\<close> An instance of the library (\<open>struct mcon\<close>) owns a fixed array of sessions, a stack of
  free session indices, a prioritised queue of requests and an io_uring. Its client adds the instance's
  descriptors to an epoll instance of its own and hands every epoll event to \<open>mcon_process_event\<close>, which
  tells from the 64-bit user datum of the event where it comes from: the listening socket (accepts are
  then requested), a session's socket (the flags become events for the client), or the eventfd of the
  ring (the completions become events, and sessions are taken into use and released). The client asks
  for reads, writes, drains and closes of a session; they wait in the queue until \<open>mcon_submit\<close> adds the
  accepts it needs and moves as many requests into the ring as there is room for, the most urgent first.
  The test server is such a client; the test client opens connections to it.

  \<^bold>\<open>Theories and sources.\<close> In the order of their imports:
  \<^item> Mcon_Prelude: names of the C integer types, fact collections, lemmas on words, lists, multisets;
  \<^item> C_Runtime: system and library calls, \<open>errno\<close>; C_Strings: the functions of \<open>string.h\<close>, \<open>stdlib.h\<close> and
    \<open>ctype.h\<close> the programs use;
  \<^item> Ext_Libs: ctools and liburing as a parameter with laws; Ref_Libs: an instance that satisfies them;
  \<^item> Entries: \<open>epoll_entry.h\<close>, \<open>io_uring_entry.h\<close>, the packed user data words;
  \<^item> Config_Limits: \<open>config.c\<close>, \<open>limits.c\<close>, \<open>types.h\<close>, \<open>constants.h\<close>;
  \<^item> Io_Queue: \<open>io_queue.c\<close>, \<open>io_queue.h\<close>;
  \<^item> Instance_State: \<open>mcon_type.h\<close>, \<open>session_type.h\<close>, \<open>event.h\<close>, \<open>session_helpers.c\<close>, \<open>mcon_helpers.c\<close>
    and the getters of \<open>mcon.c\<close>; Instance_Invariant: the invariant; Ref_Instance: a small instance for
    the witnesses;
  \<^item> Session_Api: \<open>session.c\<close>; Session_Events: \<open>event_processing.c\<close>, \<open>event_processing_session.c\<close>;
    Ring_Events: \<open>event_processing_io_uring.c\<close>; Submission: \<open>io_uring_actions.c\<close> and \<open>mcon_submit\<close>;
  \<^item> Listening_Socket: \<open>socket.c\<close>;
  \<^item> Lifecycle: \<open>mcon_create\<close>, \<open>mcon_destroy\<close>, \<open>mcon_start\<close>, \<open>mcon_shutdown\<close>, \<open>mcon_process_event\<close> of \<open>mcon.c\<close>;
  \<^item> Session_Spec: the abstract life of a session and the proof that the library follows it;
  \<^item> Protocol: all sequences of calls on an instance; Starvation and Progress: when requests are and are not
    answered; Shutdown: the shutdown of an instance without clients; Hangup: hang-ups that are lost;
  \<^item> Test_Server: \<open>mcon_test_server.c\<close>; Client_Options and Load_Client: \<open>mcon_client.c\<close>.

  \<^bold>\<open>How the code is modelled.\<close> A struct is a record with the fields of the source, an enum a datatype (with
  one more constructor for the values a cast can produce), an unsigned integer a word of its width, an
  \<open>int\<close> that is only compared and passed on an integer. A function takes and returns the state it
  changes: the instance (\<open>mcon\<close>), the \<open>world\<close> (instance, kernel and the client's event array) or the
  kernel alone. \<open>None\<close> is undefined behaviour: an access outside an array, a failed \<open>assert\<close>, a loop
  that does not end, a null pointer called; return codes and \<open>errno\<close> are values, so that every early
  return is a branch. The kernel is an oracle: a record of a function that answers each call from the
  history of calls, and the trace of the calls and answers so far. Nothing is assumed of the answers
  but what a property names (\<open>getsockopt_documented\<close>, \<open>epoll_accepts\<close>, \<open>socket_answers\<close>,
  \<open>memory_suffices\<close>, \<open>cooperative\<close>), and of the ring beyond its laws nothing but \<open>lossless\<close>,
  \<open>has_slots\<close> and \<open>completes_all\<close> where a property names them. What a call opened, closed, registered or
  allocated is read off the trace (\<open>open_after\<close>, \<open>interest_after\<close>, \<open>held_after\<close>, \<open>leaked\<close>, \<open>closed\<close>).

  ctools and liburing are not in the repository. Their operations are the argument \<open>libs\<close> of every
  definition that calls them; their laws (\<open>stack_laws\<close>, \<open>kqueue_laws\<close>, \<open>uring_laws\<close>, together \<open>libs_ok\<close>)
  state the documented behaviour over views of their states: a stack is last in first out with a
  capacity, each group of the k-queue first in first out, a submission moves a prefix of the staged
  entries to the live ones, a completion names a live request. \<open>getaddrinfo\<close>, \<open>inet_pton\<close> and
  \<open>epoll_wait\<close> are parameters too.

  \<^bold>\<open>What is shown.\<close>
  \<^item> The invariant \<open>mcon_inv\<close> counts every pending request (queued, staged in the ring or submitted)
    against the state byte of its session and the counter of live accepts, and splits the session
    indices into free and active ones. Every operation keeps it, and under it every operation is defined
    (Session_Api, Session_Events, Ring_Events, Submission, Lifecycle). Protocol lifts this to every
    sequence of calls, with any answers of the kernel: no call a client may make in a reachable state
    leaves an array, fails an assertion or loops. One thing a client must not bring about is named in
    each of these properties: a detach that fails with \<open>ENOENT\<close>, because the socket is not in the
    interest list the instance was started with last. It leaves a session both free and active
    (\<open>detach_failure_outcome\<close>); the log of a run records it, and \<open>registered\<close> says that it has not
    happened.
  \<^item> The functional behaviour of each operation on each branch: requests, detach, accept, completions,
    close and shutdown, events of a socket, creation with its ladder of error labels, start, submission
    within the size of the ring, the ring's batch in the order of the hierarchy.
  \<^item> Refinement: the sessions as an automaton of phases with their sockets, generations, recorded hang-ups
    and pending requests, driven by what the client sees: accepted requests, detached sessions, reported
    events, and events for which the call failed. Replaying the log of a run on it gives the phases of
    all sessions, and every accepted request is answered by at most one completion. Not part of a phase
    is nothing but the unused bits of the state byte and the state byte of a vacant session.
  \<^item> Progress: without a refused accept the counter of submitted requests is exact in every run, and if
    the kernel completes what it is given, rounds of completion, event and submission answer every
    accepted request; the number of waiting requests of sessions bounds the rounds, because accepts are
    served last. Starvation: once refused accepts have raised the counter to the size of the ring,
    nothing is submitted or completed any more, in no continuation. Shutdown: without a session, and
    without an accept on the way, a shutdown stays pending in every continuation in which the listening
    socket is silent. Hangup: a hang-up recorded by a call that fails in \<open>getsockopt\<close> is not reported in
    any continuation, until the session is released.
  \<^item> Equivalence of the two loops over the addresses of a listening socket with one loop; round trips of
    the packed words and of decimal numbers; no descriptor is leaked by the creation of a socket.
  \<^item> The test server stays within the protocol and never closes a session twice. The test client keeps
    its list of connections well formed, and leaves open exactly its connections and the sockets that
    failed to connect.
  \<^item> Behaviour the code hardly means to have is stated as it is: requests stranded by a failing
    submission, a counter that stays too high after a refused accept, up to starvation, a session both
    free and active after a failing detach, a shutdown of an idle instance that stays pending, a
    hang-up that is lost, commands of the client without a handler, source ranges that overflow a buffer, a shift or a product.

  \<^bold>\<open>Interfaces.\<close> Locales state the contracts that several operations share, each interpreted on the
  model's own operations: \<open>codec\<close> (both packed words), \<open>request_queue\<close> (the queue seen as a multiset),
  \<open>session_request\<close> (read, write, drain, close), \<open>completion_handler\<close> and its extension
  \<open>completion_phase\<close> (completed read, write, drain), \<open>client_command\<close> (the commands of the client). The
  laws of the libraries are predicates instead, because they are hypotheses of the properties. The
  operations of the ring are ordered by the hierarchy of \<open>io_queue.h\<close>, an instance of \<open>linorder\<close>.

  \<^bold>\<open>Loops.\<close> No fuel is used. The completion loop and the accept loop are \<open>partial_function (option)\<close>, so
  that a loop without end is \<open>None\<close>; both are proved to return under the invariant: every completion
  consumed lowers the number of live requests, every accept raises a counter towards the configured
  maximum. All other loops recurse on a list, a count or a shrinking string. The endless loop of the
  test server and the command loop of the client run on a given, arbitrary list of inputs.

  \<^bold>\<open>Not modelled.\<close> \<open>index_stack.h\<close> only instantiates the stack template of ctools, and \<open>erret.h\<close> holds one
  macro that nothing uses. Output to the terminal is left out (\<open>perror\<close>, \<open>printf\<close>, the configuration and
  the progress line of the client), as are the tests, which are C++, and \<open>argp_parse\<close>, which calls the
  modelled \<open>parse_args\<close>. The memory a request points to is not modelled: a buffer is the address the client
  passed. Threads are not: the library has no locks, and an instance belongs to one thread; the counter
  of instance identifiers is atomic in the code and a state variable here. \<open>realloc\<close> with size 0 frees
  the block, as the GNU library documents.
\<close>

end
